(* ===== verification/Prelude.thy ===== *)
theory Prelude
  imports Main "HOL-Library.AList" "HOL-Library.Word" "HOL-Library.Sublist"
begin

text \<open>
  Shared vocabulary of the development: JavaScript values and the conversions the services use
  (\<open>BigInt(...)\<close>, \<open>String(...)\<close>, \<open>Map\<close>, \<open>startsWith\<close>, \<open>split\<close>, \<open>trim\<close>), decimal and
  hexadecimal numerals with their round trips, and the generic lemmas the component theories use.
  Characters are bytes: a JavaScript string is modelled by its ASCII (Latin-1) code units.
  A JavaScript \<open>bigint\<close> is an \<open>int\<close>; a \<open>number\<close> that the code uses as an integer is an \<open>int\<close>.
\<close>

named_theorems js_simps \<open>evaluation of the modelled JavaScript string and number operations\<close>
named_theorems inv_intros \<open>invariant preservation\<close>

section \<open>Values\<close>

text \<open>The JSON values a queue message or an HTTP body carries; an absent property is \<open>None\<close>.\<close>

datatype json =
    JNull
  | JBool bool
  | JNum int
  | JStr string
  | JArr "json list"
  | JObj "(string \<times> json) list"

type_synonym payload = "(string \<times> json) list"

definition get_prop :: "payload \<Rightarrow> string \<Rightarrow> json option" where
  "get_prop d k = map_of d k"

fun js_string :: "json option \<Rightarrow> string option" where
  "js_string (Some (JStr s)) = Some s"
| "js_string _ = None"

lemma js_string_Some [simp]: "js_string v = Some s \<longleftrightarrow> v = Some (JStr s)"
  by (cases v rule: js_string.cases) auto

section \<open>Strings\<close>

definition starts_with :: "string \<Rightarrow> string \<Rightarrow> bool" where
  [js_simps]: "starts_with p s \<longleftrightarrow> take (length p) s = p"

definition ends_with :: "string \<Rightarrow> string \<Rightarrow> bool" where
  [js_simps]: "ends_with p s \<longleftrightarrow> starts_with (rev p) (rev s)"

fun has_substring :: "string \<Rightarrow> string \<Rightarrow> bool" where
  "has_substring p [] = (p = [])"
| "has_substring p (c # cs) = (starts_with p (c # cs) \<or> has_substring p cs)"

definition lower_char :: "char \<Rightarrow> char" where
  "lower_char c = (if 65 \<le> (of_char c :: nat) \<and> (of_char c :: nat) \<le> 90
                   then char_of (of_char c + 32 :: nat) else c)"

definition to_lower :: "string \<Rightarrow> string" where
  [js_simps]: "to_lower = map lower_char"

definition upper_char :: "char \<Rightarrow> char" where
  "upper_char c = (if 97 \<le> (of_char c :: nat) \<and> (of_char c :: nat) \<le> 122
                   then char_of (of_char c - 32 :: nat) else c)"

definition to_upper :: "string \<Rightarrow> string" where
  [js_simps]: "to_upper = map upper_char"

definition is_space :: "char \<Rightarrow> bool" where
  "is_space c \<longleftrightarrow> (of_char c :: nat) \<in> {9, 10, 11, 12, 13, 32}"

definition trim :: "string \<Rightarrow> string" where
  [js_simps]: "trim s = rev (dropWhile is_space (rev (dropWhile is_space s)))"

fun split_on :: "char \<Rightarrow> string \<Rightarrow> string list" where
  "split_on d [] = [[]]"
| "split_on d (c # cs) =
     (if c = d then [] # split_on d cs
      else (case split_on d cs of [] \<Rightarrow> [[c]] | w # ws \<Rightarrow> (c # w) # ws))"

fun join_with :: "string \<Rightarrow> string list \<Rightarrow> string" where
  "join_with sep [] = []"
| "join_with sep [w] = w"
| "join_with sep (w # v # ws) = w @ sep @ join_with sep (v # ws)"

lemma split_on_nonempty [simp]: "split_on d s \<noteq> []"
  by (induction s) (auto split: list.splits)

lemma split_on_no_sep: "d \<notin> set s \<Longrightarrow> split_on d s = [s]"
  by (induction s) auto

lemma split_on_append: "d \<notin> set s \<Longrightarrow> split_on d (s @ d # t) = s # split_on d t"
  by (induction s) auto

lemma split_on_join: "ws \<noteq> [] \<Longrightarrow> (\<forall>w \<in> set ws. d \<notin> set w) \<Longrightarrow> split_on d (join_with [d] ws) = ws"
  by (induction "[d]" ws rule: join_with.induct) (auto simp: split_on_no_sep split_on_append)

lemma lower_char_idem [simp]: "lower_char (lower_char c) = lower_char c"
  by (auto simp: lower_char_def)

lemma to_lower_idem [simp]: "to_lower (to_lower s) = to_lower s"
  by (simp add: to_lower_def)

lemma starts_with_append [simp]: "starts_with p (p @ s)"
  by (simp add: starts_with_def)

lemma starts_with_iff: "starts_with p s \<longleftrightarrow> (\<exists>t. s = p @ t)"
  by (metis append_eq_conv_conj append_take_drop_id starts_with_def)

section \<open>Numerals\<close>

definition digit_char :: "nat \<Rightarrow> char" where
  "digit_char n = char_of (n + 48)"

definition digit_val :: "char \<Rightarrow> nat option" where
  "digit_val c = (let n = (of_char c :: nat) in if 48 \<le> n \<and> n \<le> 57 then Some (n - 48) else None)"

fun dec_digits :: "nat \<Rightarrow> string" where
  "dec_digits n = (if n < 10 then [digit_char n] else dec_digits (n div 10) @ [digit_char (n mod 10)])"

declare dec_digits.simps [simp del]

text \<open>\<open>String(x)\<close> of a bigint or an integral number.\<close>

definition string_of_int :: "int \<Rightarrow> string" where
  "string_of_int i = (if i < 0 then CHR ''-'' # dec_digits (nat (- i)) else dec_digits (nat i))"

fun parse_digits :: "nat \<Rightarrow> string \<Rightarrow> nat option" where
  "parse_digits acc [] = Some acc"
| "parse_digits acc (c # cs) =
     (case digit_val c of None \<Rightarrow> None | Some d \<Rightarrow> parse_digits (acc * 10 + d) cs)"

definition hex_val :: "char \<Rightarrow> nat option" where
  "hex_val c = (let n = (of_char c :: nat) in
     if 48 \<le> n \<and> n \<le> 57 then Some (n - 48)
     else if 97 \<le> n \<and> n \<le> 102 then Some (n - 87)
     else if 65 \<le> n \<and> n \<le> 70 then Some (n - 55)
     else None)"

definition hex_char :: "nat \<Rightarrow> char" where
  "hex_char n = (if n < 10 then char_of (n + 48) else char_of (n + 87))"

fun parse_radix :: "nat \<Rightarrow> nat \<Rightarrow> string \<Rightarrow> nat option" where
  "parse_radix r acc [] = Some acc"
| "parse_radix r acc (c # cs) =
     (case hex_val c of
        None \<Rightarrow> None
      | Some d \<Rightarrow> if d < r then parse_radix r (acc * r + d) cs else None)"

text \<open>
  \<open>BigInt(s)\<close> of a string (ECMAScript \<open>StringToBigInt\<close>): white space is trimmed, the empty
  string is zero, \<open>0x\<close>, \<open>0o\<close> and \<open>0b\<close> prefixes are unsigned, a decimal literal may carry a
  sign; anything else is a \<open>SyntaxError\<close> (\<open>None\<close>).
\<close>

definition radix_prefixed :: "string \<Rightarrow> string \<Rightarrow> bool" where
  "radix_prefixed p s \<longleftrightarrow> 2 < length s \<and> take 2 (to_lower s) = p"

definition bigint_of_string :: "string \<Rightarrow> int option" where
  "bigint_of_string s0 = (let s = trim s0 in
     if s = [] then Some 0
     else if s = ''-'' \<or> s = ''+'' then None
     else if starts_with ''-'' s then map_option (\<lambda>n. - int n) (parse_digits 0 (tl s))
     else if starts_with ''+'' s then map_option int (parse_digits 0 (tl s))
     else if radix_prefixed ''0x'' s then map_option int (parse_radix 16 0 (drop 2 s))
     else if radix_prefixed ''0o'' s then map_option int (parse_radix 8 0 (drop 2 s))
     else if radix_prefixed ''0b'' s then map_option int (parse_radix 2 0 (drop 2 s))
     else map_option int (parse_digits 0 s))"

text \<open>
  \<open>BigInt(v)\<close> of a JSON value or of \<open>undefined\<close>: a number or a string converts, booleans
  convert to 0 and 1, \<open>null\<close>, \<open>undefined\<close> and an object throw; an array converts through its
  string form, which this model refuses (\<open>None\<close>).
\<close>

fun bigint_of_json :: "json option \<Rightarrow> int option" where
  "bigint_of_json (Some (JNum n)) = Some n"
| "bigint_of_json (Some (JStr s)) = bigint_of_string s"
| "bigint_of_json (Some (JBool b)) = Some (if b then 1 else 0)"
| "bigint_of_json _ = None"

lemma dec_digits_nonempty [simp]: "dec_digits n \<noteq> []"
  by (subst dec_digits.simps) simp

lemma digit_val_digit_char [simp]: "n < 10 \<Longrightarrow> digit_val (digit_char n) = Some n"
  by (simp add: digit_val_def digit_char_def Let_def)

lemma parse_digits_append:
  "parse_digits acc (xs @ ys) =
     (case parse_digits acc xs of None \<Rightarrow> None | Some a \<Rightarrow> parse_digits a ys)"
  by (induction acc xs rule: parse_digits.induct) (auto split: option.splits)

lemma parse_dec_digits_acc: "parse_digits acc (dec_digits n) = Some (acc * 10 ^ length (dec_digits n) + n)"
proof (induction n arbitrary: acc rule: dec_digits.induct)
  case (1 n)
  show ?case
  proof (cases "n < 10")
    case True
    then show ?thesis by (simp add: dec_digits.simps [of n])
  next
    case False
    then have "parse_digits acc (dec_digits (n div 10)) =
        Some (acc * 10 ^ length (dec_digits (n div 10)) + n div 10)"
      using "1.IH" by simp
    with False show ?thesis
      by (simp add: dec_digits.simps [of n] parse_digits_append algebra_simps)
  qed
qed

lemma parse_dec_digits [simp]: "parse_digits 0 (dec_digits n) = Some n"
  by (simp add: parse_dec_digits_acc)

lemma dec_digits_inj: "dec_digits m = dec_digits n \<Longrightarrow> m = n"
  by (metis option.inject parse_dec_digits)

lemma dec_digits_chars: "c \<in> set (dec_digits n) \<Longrightarrow> digit_val c \<noteq> None"
proof (induction n rule: dec_digits.induct)
  case (1 n)
  then show ?case
    by (cases "n < 10") (auto simp: dec_digits.simps [of n])
qed

lemma digit_val_not: "digit_val c = Some d \<Longrightarrow> \<not> is_space c \<and> c \<noteq> CHR ''-'' \<and> c \<noteq> CHR ''+''"
  by (auto simp: digit_val_def is_space_def Let_def split: if_splits)

lemma dec_digits_not_space: "c \<in> set (dec_digits n) \<Longrightarrow> \<not> is_space c"
  using dec_digits_chars digit_val_not by blast

lemma dropWhile_none: "(\<forall>x \<in> set xs. \<not> P x) \<Longrightarrow> dropWhile P xs = xs"
  by (cases xs) auto

lemma trim_id: "(\<forall>c \<in> set s. \<not> is_space c) \<Longrightarrow> trim s = s"
  by (simp add: trim_def dropWhile_none)

lemma dec_digits_hd: "\<exists>c cs. dec_digits n = c # cs \<and> digit_val c \<noteq> None"
  by (metis dec_digits_chars dec_digits_nonempty list.exhaust list.set_intros(1))

lemma dec_digits_no_sign:
  "\<not> starts_with ''-'' (dec_digits n)" "\<not> starts_with ''+'' (dec_digits n)"
  "dec_digits n \<noteq> ''-''" "dec_digits n \<noteq> ''+''"
  using dec_digits_hd [of n] by (auto simp: starts_with_def digit_val_def Let_def split: if_splits)

lemma dec_digits_not_prefixed:
  assumes "digit_val b = None" "lower_char b = b"
  shows "\<not> radix_prefixed [a, b] (dec_digits n)"
proof
  assume "radix_prefixed [a, b] (dec_digits n)"
  then obtain x y xs where d: "dec_digits n = x # y # xs" and "lower_char y = b"
    by (cases "dec_digits n"; cases "tl (dec_digits n)") (auto simp: radix_prefixed_def to_lower_def)
  moreover have "digit_val y \<noteq> None" using d dec_digits_chars [of y n] by simp
  moreover have "lower_char y = y"
    using \<open>digit_val y \<noteq> None\<close> by (auto simp: lower_char_def digit_val_def Let_def split: if_splits)
  ultimately show False using assms by simp
qed

lemma dec_digits_not_radix:
  "\<not> radix_prefixed ''0x'' (dec_digits n)" "\<not> radix_prefixed ''0o'' (dec_digits n)"
  "\<not> radix_prefixed ''0b'' (dec_digits n)"
  by (rule dec_digits_not_prefixed; simp add: digit_val_def lower_char_def)+

text \<open>A bigint survives the decimal string it is carried in across JSON.\<close>

lemma bigint_of_string_of_int [simp]: "bigint_of_string (string_of_int i) = Some i"
proof (cases "i < 0")
  case True
  have "trim (CHR ''-'' # dec_digits (nat (- i))) = CHR ''-'' # dec_digits (nat (- i))"
    by (rule trim_id) (auto simp: is_space_def dest: dec_digits_not_space)
  with True show ?thesis
    by (simp add: bigint_of_string_def string_of_int_def starts_with_def)
next
  case False
  have "trim (dec_digits (nat i)) = dec_digits (nat i)"
    by (rule trim_id) (auto dest: dec_digits_not_space)
  with False show ?thesis
    by (simp add: bigint_of_string_def string_of_int_def dec_digits_no_sign dec_digits_not_radix)
qed

lemma string_of_int_inj: "string_of_int i = string_of_int j \<Longrightarrow> i = j"
  by (metis bigint_of_string_of_int option.inject)

lemma string_of_int_no_newline: "CHR 0x0A \<notin> set (string_of_int i)"
  using dec_digits_not_space [of "CHR 0x0A"] by (auto simp: string_of_int_def is_space_def)

lemma hex_val_hex_char [simp]: "n < 16 \<Longrightarrow> hex_val (hex_char n) = Some n"
  by (auto simp: hex_val_def hex_char_def Let_def)

section \<open>Insertion-ordered maps\<close>

lemma set_delete: "set (AList.delete k m) = {p \<in> set m. fst p \<noteq> k}"
  by (auto simp: AList.delete_eq)

lemma map_of_const_pairs: "i \<in> set ks \<Longrightarrow> map_of (map (\<lambda>i. (i, v)) ks @ m) i = Some v"
  by (induction ks) auto

text \<open>
  A JavaScript \<open>Map\<close> iterates in insertion order, and setting a present key keeps its place.
  It is the association list of its entries, with \<^theory_text>\<open>AList.update\<close> for \<open>set\<close> and
  \<^theory_text>\<open>AList.delete\<close> for \<open>delete\<close>. The locale states what the client code relies on.
\<close>

locale js_map =
  fixes get_op :: "'m \<Rightarrow> 'k \<Rightarrow> 'v option"
    and set_op :: "'k \<Rightarrow> 'v \<Rightarrow> 'm \<Rightarrow> 'm"
    and del_op :: "'k \<Rightarrow> 'm \<Rightarrow> 'm"
  assumes get_set: "get_op (set_op k v m) = (get_op m)(k \<mapsto> v)"
    and get_del: "get_op (del_op k m) = (get_op m)(k := None)"
begin

lemma get_set_same: "get_op (set_op k v m) k = Some v"
  by (simp add: get_set)

lemma get_set_other: "k' \<noteq> k \<Longrightarrow> get_op (set_op k v m) k' = get_op m k'"
  by (simp add: get_set)

lemma get_fold_del_other:
  "k \<notin> set ks \<Longrightarrow> get_op (fold del_op ks m) k = get_op m k"
  by (induction ks arbitrary: m) (auto simp: get_del)

lemma get_fold_del_same:
  "k \<in> set ks \<Longrightarrow> get_op (fold del_op ks m) k = None"
proof (induction ks arbitrary: m)
  case (Cons x ks)
  then show ?case
    by (cases "k \<in> set ks") (auto simp: get_del get_fold_del_other)
qed simp

end

interpretation jm: js_map map_of AList.update AList.delete
  by unfold_locales (auto simp: update_conv' delete_conv')

end
