(* ===== verification/Http.thy ===== *)
theory Http
  imports Prelude
begin

text \<open>
  The slice of the fetch API the services use: \<open>Headers\<close>, \<open>Response\<close> and JavaScript truthiness
  and property access on parsed bodies. Header names are stored in lower case, as the \<open>Headers\<close>
  class keeps them; the order of the entries is not observable.
\<close>

type_synonym headers = "(string \<times> string) list"

definition hget :: "headers \<Rightarrow> string \<Rightarrow> string option" where
  "hget hs n = map_of hs (to_lower n)"

definition hset :: "string \<Rightarrow> string \<Rightarrow> headers \<Rightarrow> headers" where
  "hset n v hs = AList.update (to_lower n) v hs"

lemma hget_hset [simp]: "hget (hset n v hs) m = (if to_lower m = to_lower n then Some v else hget hs m)"
  by (simp add: hget_def hset_def update_conv')

lemma hget_Nil [simp]: "hget [] n = None"
  by (simp add: hget_def)

record response =
  r_status :: int
  r_statusText :: string
  r_headers :: headers
  r_body :: string

text \<open>\<open>resp.ok\<close>: the status is in the range 200 to 299.\<close>

definition resp_ok :: "response \<Rightarrow> bool" where
  "resp_ok r \<longleftrightarrow> 200 \<le> r_status r \<and> r_status r \<le> 299"

fun js_truthy :: "json option \<Rightarrow> bool" where
  "js_truthy None = False"
| "js_truthy (Some JNull) = False"
| "js_truthy (Some (JBool b)) = b"
| "js_truthy (Some (JNum n)) = (n \<noteq> 0)"
| "js_truthy (Some (JStr s)) = (s \<noteq> [])"
| "js_truthy (Some (JArr _)) = True"
| "js_truthy (Some (JObj _)) = True"

text \<open>\<open>typeof v === "object"\<close> (true of \<open>null\<close> and of arrays).\<close>

fun js_is_object :: "json option \<Rightarrow> bool" where
  "js_is_object (Some JNull) = True"
| "js_is_object (Some (JArr _)) = True"
| "js_is_object (Some (JObj _)) = True"
| "js_is_object _ = False"

text \<open>\<open>v.k\<close> for a \<open>v\<close> that is neither \<open>null\<close> nor \<open>undefined\<close>; only objects have the keys asked for.\<close>

fun js_member :: "json option \<Rightarrow> string \<Rightarrow> json option" where
  "js_member (Some (JObj kvs)) k = map_of kvs k"
| "js_member _ k = None"

end
