(* ===== verification/ProxyCaches.thy ===== *)
theory ProxyCaches
  imports Http
begin

text \<open>
  The Postgres-backed in-memory tables of \<open>packages/market-proxy/src/lib\<close>: the wallet allowlists,
  the endpoint registry and the beta-gate flag. Each is a state; the clock readings and the rows
  the database returns (\<open>Inl\<close> when the query throws) are inputs of the operation that awaits them.
\<close>

section \<open>Allowlist\<close>

record allowlist =
  al_set :: "string list"
  al_loadedAt :: int

definition ALLOWLIST_TTL_MS :: int where
  "ALLOWLIST_TTL_MS = 60000"

definition allowlist_init :: allowlist where
  "allowlist_init = \<lparr>al_set = [], al_loadedAt = 0\<rparr>"

definition allowlist_reload :: "string + string list \<Rightarrow> int \<Rightarrow> allowlist \<Rightarrow> string + allowlist" where
  "allowlist_reload rows now s =
     (case rows of Inl e \<Rightarrow> Inl e
      | Inr ws \<Rightarrow> Inr \<lparr>al_set = remdups ws, al_loadedAt = now\<rparr>)"

text \<open>\<open>has\<close>: the new state (kept when the reload throws) and the answer.\<close>

definition allowlist_has ::
    "string \<Rightarrow> int \<Rightarrow> string + string list \<Rightarrow> int \<Rightarrow> allowlist \<Rightarrow> allowlist \<times> (string + bool)" where
  "allowlist_has pubkey now rows now' s =
     (if now - al_loadedAt s > ALLOWLIST_TTL_MS then
        (case allowlist_reload rows now' s of
           Inl e \<Rightarrow> (s, Inl e)
         | Inr s' \<Rightarrow> (s', Inr (pubkey \<in> set (al_set s'))))
      else (s, Inr (pubkey \<in> set (al_set s))))"

section \<open>Endpoint registry\<close>

record endpoint_row =
  er_slug :: string
  er_network :: string
  er_flatPremiumLamports :: int
  er_percentBps :: int
  er_slaLatencyMs :: int
  er_imputedCostLamports :: int
  er_exposureCapPerHourLamports :: int
  er_paused :: bool
  er_upstreamBase :: string
  er_displayName :: string

text \<open>A database row: bigint columns arrive as decimal strings, the network may be null.\<close>

record endpoint_db_row =
  db_slug :: string
  db_network :: "string option"
  db_flatPremiumLamports :: string
  db_percentBps :: int
  db_slaLatencyMs :: int
  db_imputedCostLamports :: string
  db_exposureCapPerHourLamports :: string
  db_paused :: bool
  db_upstreamBase :: string
  db_displayName :: string

record registry =
  rg_cache :: "(string \<times> endpoint_row) list"
  rg_loadedAt :: int

definition REGISTRY_TTL_MS :: int where
  "REGISTRY_TTL_MS = 60000"

definition registry_init :: registry where
  "registry_init = \<lparr>rg_cache = [], rg_loadedAt = 0\<rparr>"

definition row_network :: "endpoint_db_row \<Rightarrow> string" where
  "row_network r = (case db_network r of None \<Rightarrow> ''solana-devnet'' | Some n \<Rightarrow> n)"

definition registry_key :: "string \<Rightarrow> string \<Rightarrow> string" where
  "registry_key slug network = slug @ ''::'' @ network"

definition project_row :: "endpoint_db_row \<Rightarrow> endpoint_row option" where
  "project_row r =
     (case (bigint_of_string (db_flatPremiumLamports r), bigint_of_string (db_imputedCostLamports r),
            bigint_of_string (db_exposureCapPerHourLamports r)) of
        (Some flat, Some imputed, Some cap) \<Rightarrow>
          Some \<lparr>er_slug = db_slug r, er_network = row_network r, er_flatPremiumLamports = flat,
                er_percentBps = db_percentBps r, er_slaLatencyMs = db_slaLatencyMs r,
                er_imputedCostLamports = imputed, er_exposureCapPerHourLamports = cap,
                er_paused = db_paused r, er_upstreamBase = db_upstreamBase r,
                er_displayName = db_displayName r\<rparr>
      | _ \<Rightarrow> None)"

text \<open>
  \<open>reload\<close> clears the cache and fills it row by row; a row whose bigint does not parse throws with
  the rows before it already in place and the load time unchanged.
\<close>

fun fill_cache :: "endpoint_db_row list \<Rightarrow> (string \<times> endpoint_row) list \<Rightarrow> (string \<times> endpoint_row) list \<times> bool" where
  "fill_cache [] cache = (cache, True)"
| "fill_cache (r # rs) cache =
     (case project_row r of
        None \<Rightarrow> (cache, False)
      | Some row \<Rightarrow> fill_cache rs (AList.update (registry_key (db_slug r) (row_network r)) row cache))"

definition registry_reload :: "string + endpoint_db_row list \<Rightarrow> int \<Rightarrow> registry \<Rightarrow> registry \<times> string option" where
  "registry_reload rows now s =
     (case rows of
        Inl e \<Rightarrow> (s, Some e)
      | Inr rs \<Rightarrow> (case fill_cache rs [] of
          (cache, True) \<Rightarrow> (\<lparr>rg_cache = cache, rg_loadedAt = now\<rparr>, None)
        | (cache, False) \<Rightarrow> (s\<lparr>rg_cache := cache\<rparr>, Some ''SyntaxError'')))"

definition registry_refresh :: "int \<Rightarrow> string + endpoint_db_row list \<Rightarrow> int \<Rightarrow> registry \<Rightarrow> registry \<times> string option" where
  "registry_refresh now rows now' s =
     (if now - rg_loadedAt s > REGISTRY_TTL_MS then registry_reload rows now' s else (s, None))"

definition slug_matches :: "string \<Rightarrow> (string \<times> endpoint_row) list \<Rightarrow> (string \<times> endpoint_row) list" where
  "slug_matches slug cache = filter (\<lambda>(key, _). starts_with (slug @ ''::'') key) cache"

text \<open>The lookup of \<open>get\<close> after the refresh; an empty network header counts as none.\<close>

definition registry_lookup :: "string \<Rightarrow> string option \<Rightarrow> registry \<Rightarrow> endpoint_row option" where
  "registry_lookup slug network s =
     (case network of
        Some (c # n) \<Rightarrow> map_of (rg_cache s) (registry_key slug (c # n))
      | _ \<Rightarrow> (case slug_matches slug (rg_cache s) of [(_, row)] \<Rightarrow> Some row | _ \<Rightarrow> None))"

definition registry_get ::
    "string \<Rightarrow> string option \<Rightarrow> int \<Rightarrow> string + endpoint_db_row list \<Rightarrow> int \<Rightarrow> registry \<Rightarrow>
     registry \<times> (string + endpoint_row option)" where
  "registry_get slug network now rows now' s =
     (case registry_refresh now rows now' s of
        (s', Some e) \<Rightarrow> (s', Inl e)
      | (s', None) \<Rightarrow> (s', Inr (registry_lookup slug network s')))"

text \<open>\<open>key.split("::")[1]\<close>: the text between the first and the second separator.\<close>

fun before_sep :: "string \<Rightarrow> string" where
  "before_sep (c # d # cs) = (if c = CHR '':'' \<and> d = CHR '':'' then [] else c # before_sep (d # cs))"
| "before_sep cs = cs"

fun after_sep :: "string \<Rightarrow> string" where
  "after_sep (c # d # cs) = (if c = CHR '':'' \<and> d = CHR '':'' then cs else after_sep (d # cs))"
| "after_sep cs = []"

definition networks_of :: "string \<Rightarrow> registry \<Rightarrow> string list" where
  "networks_of slug s = map (\<lambda>(key, _). before_sep (after_sep key)) (slug_matches slug (rg_cache s))"

definition getNetworksForSlug ::
    "string \<Rightarrow> int \<Rightarrow> string + endpoint_db_row list \<Rightarrow> int \<Rightarrow> registry \<Rightarrow> registry \<times> (string + string list)" where
  "getNetworksForSlug slug now rows now' s =
     (case registry_refresh now rows now' s of
        (s', Some e) \<Rightarrow> (s', Inl e)
      | (s', None) \<Rightarrow> (s', Inr (networks_of slug s')))"

definition registry_getAll ::
    "int \<Rightarrow> string + endpoint_db_row list \<Rightarrow> int \<Rightarrow> registry \<Rightarrow> registry \<times> (string + endpoint_row list)" where
  "registry_getAll now rows now' s =
     (case registry_refresh now rows now' s of
        (s', Some e) \<Rightarrow> (s', Inl e)
      | (s', None) \<Rightarrow> (s', Inr (map snd (rg_cache s'))))"

section \<open>Discovery\<close>

definition PROVIDER_HOSTNAMES :: "(string \<times> string list) list" where
  "PROVIDER_HOSTNAMES =
     [(''helius'', [''api.helius.xyz'', ''mainnet.helius-rpc.com'']), (''birdeye'', [''public-api.birdeye.so'']),
      (''jupiter'', [''api.jup.ag'', ''lite-api.jup.ag'', ''quote-api.jup.ag'']), (''elfa'', [''api.elfa.ai'']),
      (''fal'', [''fal.run'', ''queue.fal.run'']), (''moralis'', [''deep-index.moralis.io'']),
      (''covalent'', [''api.covalenthq.com'', ''api.goldrush.dev'']), (''dummy'', [''dummy.pactnetwork.io''])]"

definition hostnamesForSlug :: "string \<Rightarrow> string list" where
  "hostnamesForSlug slug = (case map_of PROVIDER_HOSTNAMES slug of None \<Rightarrow> [] | Some hs \<Rightarrow> hs)"

record discovery_endpoint =
  de_slug :: string
  de_network :: string
  de_hostnames :: "string list"
  de_premiumBps :: int
  de_paused :: bool

definition wellKnownEndpoints :: "endpoint_row list \<Rightarrow> int \<times> discovery_endpoint list" where
  "wellKnownEndpoints rows =
     (3600, filter (\<lambda>e. de_hostnames e \<noteq> [])
        (map (\<lambda>r. \<lparr>de_slug = er_slug r, de_network = er_network r, de_hostnames = hostnamesForSlug (er_slug r),
                   de_premiumBps = er_percentBps r, de_paused = er_paused r\<rparr>) rows))"

section \<open>Beta-gate flag\<close>

text \<open>
  The reader answers from its cache while it is fresh; otherwise the first caller starts the one
  reload in flight and later callers share it. A request is a call step that may answer at once,
  and the reload's completion answers everyone waiting.
\<close>

record flag_reader =
  fr_ttlMs :: int
  fr_envFallback :: bool
  fr_cached :: "bool option"
  fr_loadedAt :: int
  fr_inflight :: bool
  fr_queries :: nat

datatype flag_event =
    FlagAsk int
  | FlagLoaded "string + bool list" "string option" int
  | FlagBust

text \<open>The reload: rows of \<open>enabled\<close> values or an error, the environment value, the clock after it.\<close>

definition flag_reload :: "string + bool list \<Rightarrow> string option \<Rightarrow> int \<Rightarrow> flag_reader \<Rightarrow> flag_reader \<times> (string + bool)" where
  "flag_reload rows env now s =
     (case rows of
        Inr rs \<Rightarrow> (let v = (rs \<noteq> [] \<and> hd rs) in (s\<lparr>fr_cached := Some v, fr_loadedAt := now\<rparr>, Inr v))
      | Inl e \<Rightarrow>
          if fr_envFallback s then
            (let v = (env = Some ''true'') in (s\<lparr>fr_cached := Some v, fr_loadedAt := now\<rparr>, Inr v))
          else (s, Inl e))"

text \<open>The answer to a request: \<open>None\<close> while it waits for the reload.\<close>

fun flag_step :: "flag_reader \<Rightarrow> flag_event \<Rightarrow> flag_reader \<times> (string + bool) option" where
  "flag_step s (FlagAsk now) =
     (case fr_cached s of
        Some v \<Rightarrow>
          if now - fr_loadedAt s \<le> fr_ttlMs s then (s, Some (Inr v))
          else if fr_inflight s then (s, None)
          else (s\<lparr>fr_inflight := True, fr_queries := fr_queries s + 1\<rparr>, None)
      | None \<Rightarrow>
          if fr_inflight s then (s, None)
          else (s\<lparr>fr_inflight := True, fr_queries := fr_queries s + 1\<rparr>, None))"
| "flag_step s (FlagLoaded rows env now) =
     (if fr_inflight s then
        (case flag_reload rows env now s of (s', r) \<Rightarrow> (s'\<lparr>fr_inflight := False\<rparr>, Some r))
      else (s, None))"
| "flag_step s FlagBust = (s\<lparr>fr_cached := None, fr_loadedAt := 0\<rparr>, None)"

definition flag_run :: "flag_reader \<Rightarrow> flag_event list \<Rightarrow> flag_reader" where
  "flag_run s evs = foldl (\<lambda>s e. fst (flag_step s e)) s evs"

definition loads_completed :: "flag_event list \<Rightarrow> nat" where
  "loads_completed evs = length (filter (\<lambda>e. case e of FlagLoaded _ _ _ \<Rightarrow> True | _ \<Rightarrow> False) evs)"

section \<open>Lemmas\<close>

lemma registry_key_inj:
  assumes "CHR '':'' \<notin> set s1" "CHR '':'' \<notin> set s2" "registry_key s1 n1 = registry_key s2 n2"
  shows "s1 = s2 \<and> n1 = n2"
  using assms unfolding registry_key_def
  by (induction s1 arbitrary: s2) (case_tac s2; auto)+

lemma registry_key_prefix:
  assumes "CHR '':'' \<notin> set s1" "CHR '':'' \<notin> set s2"
  shows "starts_with (s1 @ ''::'') (registry_key s2 n) \<longleftrightarrow> s1 = s2"
  using assms unfolding registry_key_def starts_with_iff
  by (induction s1 arbitrary: s2) (case_tac s2; auto)+

abbreviation row_key :: "endpoint_db_row \<Rightarrow> string" where
  "row_key r \<equiv> registry_key (db_slug r) (row_network r)"

definition rows_ok :: "endpoint_db_row list \<Rightarrow> bool" where
  "rows_ok rs \<longleftrightarrow> distinct (map (\<lambda>r. (db_slug r, row_network r)) rs) \<and>
     (\<forall>r \<in> set rs. project_row r \<noteq> None \<and> CHR '':'' \<notin> set (db_slug r))"

lemma distinct_keys:
  assumes "rows_ok rs"
  shows "distinct (map row_key rs)"
  using assms
proof (induction rs)
  case (Cons r rs)
  have "row_key r \<noteq> row_key r'" if "r' \<in> set rs" for r'
    using registry_key_inj [of "db_slug r" "db_slug r'" "row_network r" "row_network r'"] that Cons.prems
    by (force simp: rows_ok_def)
  with Cons show ?case by (auto simp: rows_ok_def)
qed simp

lemma update_append_new: "k \<notin> fst ` set m \<Longrightarrow> AList.update k v m = m @ [(k, v)]"
  by (induction m) auto

lemma fill_cache_exact:
  assumes "\<forall>r \<in> set rs. project_row r \<noteq> None" "distinct (map fst m @ map row_key rs)"
  shows "fill_cache rs m = (m @ map (\<lambda>r. (row_key r, the (project_row r))) rs, True)"
  using assms
proof (induction rs arbitrary: m)
  case (Cons r rs)
  then obtain row where "project_row r = Some row" by auto
  moreover have "row_key r \<notin> fst ` set m" using Cons.prems(2) by auto
  ultimately show ?case
    using Cons.IH [of "m @ [(row_key r, row)]"] Cons.prems by (simp add: update_append_new)
qed simp

lemma reload_exact:
  assumes "rows_ok rs"
  shows "registry_reload (Inr rs) now s =
     (\<lparr>rg_cache = map (\<lambda>r. (row_key r, the (project_row r))) rs, rg_loadedAt = now\<rparr>, None)"
  using assms distinct_keys [OF assms] fill_cache_exact [of rs "[]"]
  by (simp add: registry_reload_def rows_ok_def)

lemma row_key_eq:
  assumes "rows_ok rs" "r \<in> set rs" "CHR '':'' \<notin> set slug"
  shows "row_key r = registry_key slug net \<longleftrightarrow> db_slug r = slug \<and> row_network r = net"
  using registry_key_inj [of "db_slug r" slug "row_network r" net] assms by (auto simp: rows_ok_def)

lemma lookup_network:
  assumes "rows_ok rs" "net \<noteq> []" "CHR '':'' \<notin> set slug"
  shows "registry_lookup slug (Some net) (fst (registry_reload (Inr rs) now s)) = Some row \<longleftrightarrow>
    (\<exists>r \<in> set rs. db_slug r = slug \<and> row_network r = net \<and> project_row r = Some row)"
proof -
  let ?kvs = "map (\<lambda>r. (row_key r, the (project_row r))) rs"
  have "distinct (map fst ?kvs)" using distinct_keys [OF assms(1)] by (simp add: comp_def)
  then have "map_of ?kvs (registry_key slug net) = Some row \<longleftrightarrow> (registry_key slug net, row) \<in> set ?kvs"
    by (rule map_of_eq_Some_iff)
  also have "\<dots> \<longleftrightarrow> (\<exists>r \<in> set rs. db_slug r = slug \<and> row_network r = net \<and> project_row r = Some row)"
  proof -
    have "(registry_key slug net, row) \<in> set ?kvs \<longleftrightarrow>
        (\<exists>r \<in> set rs. row_key r = registry_key slug net \<and> row = the (project_row r))"
      by (auto simp: image_iff intro: sym)
    moreover have "\<forall>r \<in> set rs. project_row r \<noteq> None" using assms(1) by (simp add: rows_ok_def)
    ultimately show ?thesis using row_key_eq [OF assms(1) _ assms(3)] by force
  qed
  finally show ?thesis
    using assms(2) by (cases net) (simp_all add: registry_lookup_def reload_exact [OF assms(1)])
qed

lemma slug_matches_reload:
  assumes "rows_ok rs" "CHR '':'' \<notin> set slug"
  shows "slug_matches slug (map (\<lambda>r. (row_key r, the (project_row r))) rs) =
    map (\<lambda>r. (row_key r, the (project_row r))) (filter (\<lambda>r. db_slug r = slug) rs)"
  using assms by (induction rs) (auto simp: slug_matches_def rows_ok_def registry_key_prefix)

lemma lookup_unspecified:
  assumes "rows_ok rs" "CHR '':'' \<notin> set slug"
  shows "registry_lookup slug None (fst (registry_reload (Inr rs) now s)) =
    (case filter (\<lambda>r. db_slug r = slug) rs of [r] \<Rightarrow> project_row r | _ \<Rightarrow> None)"
proof -
  have "project_row r = Some (the (project_row r))" if "filter (\<lambda>r. db_slug r = slug) rs = [r]" for r
  proof -
    have "r \<in> set (filter (\<lambda>r. db_slug r = slug) rs)" using that by simp
    then show ?thesis using assms(1) by (auto simp: rows_ok_def)
  qed
  then show ?thesis
    by (auto simp: registry_lookup_def reload_exact [OF assms(1)] slug_matches_reload [OF assms]
        split: list.split)
qed

lemma flag_step_flight:
  "int (fr_queries (fst (flag_step s e))) - (if fr_inflight (fst (flag_step s e)) then 1 else 0) \<le>
     int (fr_queries s) - (if fr_inflight s then 1 else 0) + int (loads_completed [e])"
  by (cases e) (auto simp: loads_completed_def flag_reload_def Let_def split: option.splits sum.splits)

lemma flag_run_Cons: "flag_run s (e # evs) = flag_run (fst (flag_step s e)) evs"
  by (simp add: flag_run_def)

lemma loads_completed_Cons: "loads_completed (e # evs) = loads_completed [e] + loads_completed evs"
  by (simp add: loads_completed_def)

section \<open>Properties\<close>

text \<open>
  The registry answers exactly what the table says. After a reload of well-formed rows (slug
  and network pairs distinct, slugs without a colon, amounts that parse), a lookup with a network
  finds a row exactly when the table has it, and a lookup without one finds the slug's row exactly
  when it is the only one: an ambiguous slug is never resolved silently.
\<close>

theorem registry_get_exact:
  assumes "rows_ok rs" and "CHR '':'' \<notin> set slug" and "net \<noteq> []"
    and "now - rg_loadedAt s > REGISTRY_TTL_MS"
  shows "registry_get slug (Some net) now (Inr rs) now' s =
      (fst (registry_reload (Inr rs) now' s),
       Inr (map_option (\<lambda>r. the (project_row r))
              (find (\<lambda>r. db_slug r = slug \<and> row_network r = net) rs))) \<and>
    snd (registry_get slug None now (Inr rs) now' s) =
      Inr (case filter (\<lambda>r. db_slug r = slug) rs of [r] \<Rightarrow> project_row r | _ \<Rightarrow> None)"
proof -
  have "registry_lookup slug (Some net) (fst (registry_reload (Inr rs) now' s)) =
      map_option (\<lambda>r. the (project_row r)) (find (\<lambda>r. db_slug r = slug \<and> row_network r = net) rs)"
  proof (cases "find (\<lambda>r. db_slug r = slug \<and> row_network r = net) rs")
    case None
    then have "\<not> (\<exists>row. registry_lookup slug (Some net) (fst (registry_reload (Inr rs) now' s)) = Some row)"
      unfolding lookup_network [OF assms(1,3,2)] by (auto simp: find_None_iff)
    with None show ?thesis by auto
  next
    case (Some r)
    then have r: "r \<in> set rs" "db_slug r = slug" "row_network r = net"
      by (auto simp: find_Some_iff)
    then obtain row where row: "project_row r = Some row" using assms(1) by (auto simp: rows_ok_def)
    with r have "registry_lookup slug (Some net) (fst (registry_reload (Inr rs) now' s)) = Some row"
      unfolding lookup_network [OF assms(1,3,2)] by blast
    with Some row show ?thesis by simp
  qed
  moreover have "snd (registry_reload (Inr rs) now' s) = None" by (simp add: reload_exact [OF assms(1)])
  ultimately show ?thesis
    using assms(4) lookup_unspecified [OF assms(1,2), of now' s]
    by (auto simp: registry_get_def registry_refresh_def split: prod.split)
qed

theorem registry_get_exact_witness:
  "let r = \<lparr>db_slug = ''fal'', db_network = None, db_flatPremiumLamports = ''10'', db_percentBps = 0, db_slaLatencyMs = 8000,
        db_imputedCostLamports = ''50'', db_exposureCapPerHourLamports = ''9'', db_paused = False,
        db_upstreamBase = ''u'', db_displayName = ''d''\<rparr>
   in snd (registry_get ''fal'' None 60001 (Inr [r, r\<lparr>db_network := Some ''arc''\<rparr>]) 60002 registry_init) = Inr None"
proof -
  let ?r = "\<lparr>db_slug = ''fal'', db_network = None, db_flatPremiumLamports = string_of_int 10, db_percentBps = 0, db_slaLatencyMs = 8000,
        db_imputedCostLamports = string_of_int 50, db_exposureCapPerHourLamports = string_of_int 9, db_paused = False,
        db_upstreamBase = ''u'', db_displayName = ''d''\<rparr>"
  have "string_of_int 10 = ''10''" "string_of_int 50 = ''50''" "string_of_int 9 = ''9''" by code_simp+
  then show ?thesis
    using registry_get_exact [of "[?r, ?r\<lparr>db_network := Some ''arc''\<rparr>]" "''fal''" "''arc''" 60001 registry_init 60002]
    by (simp add: rows_ok_def project_row_def row_network_def registry_init_def REGISTRY_TTL_MS_def Let_def
        flip: \<open>string_of_int 10 = ''10''\<close> \<open>string_of_int 50 = ''50''\<close> \<open>string_of_int 9 = ''9''\<close>)
qed

text \<open>
  The flag reader is single-flight. From a state with no reload in flight, after any
  interleaving of requests, completions and busts, the queries issued exceed the completed ones by
  at most one, and only while a reload is in flight.
\<close>

theorem flag_reader_single_flight:
  assumes "\<not> fr_inflight s"
  shows "fr_queries (flag_run s evs) \<le>
    fr_queries s + loads_completed evs + (if fr_inflight (flag_run s evs) then 1 else 0)"
proof -
  have "int (fr_queries (flag_run s evs)) - (if fr_inflight (flag_run s evs) then 1 else 0) \<le>
     int (fr_queries s) - (if fr_inflight s then 1 else 0) + int (loads_completed evs)"
  proof (induction evs arbitrary: s)
    case (Cons e evs)
    show ?case
      using Cons.IH [of "fst (flag_step s e)"] flag_step_flight [of s e]
      by (simp add: flag_run_Cons loads_completed_Cons [of e evs])
  qed (simp add: flag_run_def loads_completed_def)
  with assms show ?thesis by (auto split: if_splits)
qed

theorem flag_reader_single_flight_witness:
  "fr_queries (flag_run \<lparr>fr_ttlMs = 30000, fr_envFallback = True, fr_cached = None, fr_loadedAt = 0,
      fr_inflight = False, fr_queries = 0\<rparr> [FlagAsk 5, FlagAsk 6, FlagBust, FlagAsk 7]) \<le> 1"
  using flag_reader_single_flight [of "\<lparr>fr_ttlMs = 30000, fr_envFallback = True, fr_cached = None, fr_loadedAt = 0,
      fr_inflight = False, fr_queries = 0\<rparr>" "[FlagAsk 5, FlagAsk 6, FlagBust, FlagAsk 7]"]
  by (simp add: loads_completed_def split: if_splits)

end
