(* ===== verification/BalanceCheck.thy ===== *)
theory BalanceCheck
  imports Http
begin

text \<open>
  The agent balance and allowance check of \<open>packages/wrap/src/balanceCheck.ts\<close>: two JSON-RPC
  reads, a TTL cache with decrement-on-admit, and the adapters that present other chains through
  the same interface (\<open>market-proxy/src/lib/balance.ts\<close>, \<open>shared/src/adapters\<close>).
  The code awaits its RPC reads, so a check is a call step and a later resume step, and any
  interleaving of them is a list of \<open>bc_event\<close>s. The answers of the RPC node and the clock
  readings are inputs. A thrown error is \<open>Inl\<close> of its message; messages the engine itself
  composes are represented by the name of the error class.
\<close>

section \<open>JSON-RPC\<close>

datatype http_result = FetchThrows string | HttpReply int "json option"

text \<open>\<open>v?.k\<close>, \<open>v ?? d\<close> and the interpolation of a value into a template string.\<close>

definition opt_member :: "json option \<Rightarrow> string \<Rightarrow> json option" where
  "opt_member v k = (if v = Some JNull then None else js_member v k)"

definition nullish :: "json option \<Rightarrow> json \<Rightarrow> json" where
  "nullish v d = (case v of None \<Rightarrow> d | Some JNull \<Rightarrow> d | Some j \<Rightarrow> j)"

fun template :: "json option \<Rightarrow> string" where
  "template None = ''undefined''"
| "template (Some JNull) = ''null''"
| "template (Some (JBool b)) = (if b then ''true'' else ''false'')"
| "template (Some (JNum n)) = string_of_int n"
| "template (Some (JStr s)) = s"
| "template (Some (JArr _)) = ''[array]''"
| "template (Some (JObj _)) = ''[object Object]''"

fun rpc :: "string \<Rightarrow> http_result \<Rightarrow> string + json" where
  "rpc method (FetchThrows e) = Inl e"
| "rpc method (HttpReply st body) =
     (if \<not> (200 \<le> st \<and> st \<le> 299)
      then Inl (''wrap.balanceCheck: RPC '' @ method @ '' returned '' @ string_of_int st)
      else case body of None \<Rightarrow> Inl ''SyntaxError'' | Some j \<Rightarrow> Inr j)"

section \<open>Loading an entry\<close>

record cache_entry =
  expiresAt :: int
  ce_ataBalance :: int
  ce_allowance :: int
  noAta :: bool

abbreviation "no_ata_entry t \<equiv> \<lparr>expiresAt = t, ce_ataBalance = 0, ce_allowance = 0, noAta = True\<rparr>"

definition DEFAULT_CACHE_TTL_MS :: int where
  "DEFAULT_CACHE_TTL_MS = 3000"

definition missing_ata_error :: "json option \<Rightarrow> string \<Rightarrow> bool" where
  "missing_ata_error err msg \<longleftrightarrow>
     js_member err ''code'' = Some (JNum (-32602)) \<or> has_substring ''could not find'' msg \<or>
     has_substring ''not found'' msg \<or> has_substring ''invalid'' msg"

text \<open>
  \<open>load\<close>: the outcome of \<open>resolveAta\<close>, the two HTTP exchanges and the clock reading that stamps
  the entry are its inputs; the second exchange is only read when the code gets there.
\<close>

definition load :: "int \<Rightarrow> string option \<Rightarrow> http_result \<Rightarrow> http_result \<Rightarrow> int \<Rightarrow> string + cache_entry" where
  "load ttl ata balanceHttp accountHttp now =
     (case ata of Some e \<Rightarrow> Inl e
      | None \<Rightarrow> case rpc ''getTokenAccountBalance'' balanceHttp of
          Inl e \<Rightarrow> Inl e
        | Inr JNull \<Rightarrow> Inl ''TypeError''
        | Inr br \<Rightarrow>
            let err = js_member (Some br) ''error'' in
            if js_truthy err then
              (case nullish (js_member err ''message'') (JStr []) of
                 JStr m \<Rightarrow>
                   if missing_ata_error err (to_lower m) then Inr (no_ata_entry (now + ttl))
                   else Inl (''wrap.balanceCheck: getTokenAccountBalance failed: '' @
                             template (js_member err ''message''))
               | _ \<Rightarrow> Inl ''TypeError'')
            else case bigint_of_json (Some (nullish
                   (opt_member (opt_member (js_member (Some br) ''result'') ''value'') ''amount'') (JStr ''0''))) of
              None \<Rightarrow> Inl ''SyntaxError''
            | Some ataBalance \<Rightarrow>
                case rpc ''getAccountInfo'' accountHttp of
                  Inl e \<Rightarrow> Inl e
                | Inr JNull \<Rightarrow> Inl ''TypeError''
                | Inr ar \<Rightarrow>
                    let err2 = js_member (Some ar) ''error''; v = opt_member (js_member (Some ar) ''result'') ''value'' in
                    if js_truthy err2 then
                      Inl (''wrap.balanceCheck: getAccountInfo failed: '' @ template (js_member err2 ''message''))
                    else if \<not> js_truthy v then Inr (no_ata_entry (now + ttl))
                    else case bigint_of_json (Some (nullish
                        (opt_member (opt_member (opt_member (opt_member (opt_member v ''data'') ''parsed'') ''info'')
                           ''delegatedAmount'') ''amount'') (JStr ''0''))) of
                      None \<Rightarrow> Inl ''SyntaxError''
                    | Some allowance \<Rightarrow>
                        Inr \<lparr>expiresAt = now + ttl, ce_ataBalance = ataBalance,
                             ce_allowance = allowance, noAta = False\<rparr>)"

section \<open>The check\<close>

datatype reject_reason = Insufficient_balance | Insufficient_allowance | No_ata

fun reason_str :: "reject_reason \<Rightarrow> string" where
  "reason_str Insufficient_balance = ''insufficient_balance''"
| "reason_str Insufficient_allowance = ''insufficient_allowance''"
| "reason_str No_ata = ''no_ata''"

datatype balance_result =
    Eligible int int
  | Ineligible reject_reason "int option" "int option"

type_synonym balance_cache = "(string \<times> cache_entry) list"

definition admit :: "balance_cache \<Rightarrow> string \<Rightarrow> cache_entry \<Rightarrow> int \<Rightarrow> balance_cache \<times> balance_result" where
  "admit cache wallet entry required =
     (if noAta entry then (cache, Ineligible No_ata None None)
      else if ce_ataBalance entry < required then
        (cache, Ineligible Insufficient_balance (Some (ce_ataBalance entry)) (Some (ce_allowance entry)))
      else if ce_allowance entry < required then
        (cache, Ineligible Insufficient_allowance (Some (ce_ataBalance entry)) (Some (ce_allowance entry)))
      else
        (AList.update wallet
           (entry\<lparr>ce_ataBalance := ce_ataBalance entry - required,
                  ce_allowance := ce_allowance entry - required\<rparr>) cache,
         Eligible (ce_ataBalance entry) (ce_allowance entry)))"

definition cached_entry :: "balance_cache \<Rightarrow> string \<Rightarrow> int \<Rightarrow> cache_entry option" where
  "cached_entry cache wallet now =
     (case map_of cache wallet of
        Some e \<Rightarrow> if expiresAt e > now then Some e else None
      | None \<Rightarrow> None)"

text \<open>
  One \<open>check\<close> is in flight from its call to its resume. A call that hits the cache finishes at
  once; one that misses waits for \<open>load\<close>, and its resume writes the loaded entry over whatever
  the cache holds by then.
\<close>

record bc_state =
  bc_cache :: balance_cache
  bc_waiting :: "(nat \<times> string \<times> int) list"
  bc_log :: "(nat \<times> string \<times> int \<times> (string + balance_result)) list"

datatype bc_event =
    CheckCall nat string int int
  | CheckResume nat "string + cache_entry"

definition bc_finish :: "bc_state \<Rightarrow> nat \<Rightarrow> string \<Rightarrow> int \<Rightarrow> cache_entry \<Rightarrow> bc_state" where
  "bc_finish s i wallet required entry =
     (case admit (bc_cache s) wallet entry required of
        (cache, res) \<Rightarrow> s\<lparr>bc_cache := cache, bc_log := bc_log s @ [(i, wallet, required, Inr res)]\<rparr>)"

fun check :: "bc_state \<Rightarrow> bc_event \<Rightarrow> bc_state" where
  "check s (CheckCall i wallet required now) =
     (case cached_entry (bc_cache s) wallet now of
        Some entry \<Rightarrow> bc_finish s i wallet required entry
      | None \<Rightarrow> s\<lparr>bc_waiting := (i, wallet, required) # bc_waiting s\<rparr>)"
| "check s (CheckResume i loaded) =
     (case map_of (bc_waiting s) i of
        None \<Rightarrow> s
      | Some (wallet, required) \<Rightarrow>
          let s' = s\<lparr>bc_waiting := AList.delete i (bc_waiting s)\<rparr> in
          case loaded of
            Inl e \<Rightarrow> s'\<lparr>bc_log := bc_log s' @ [(i, wallet, required, Inl e)]\<rparr>
          | Inr entry \<Rightarrow>
              bc_finish (s'\<lparr>bc_cache := AList.update wallet entry (bc_cache s')\<rparr>) i wallet required entry)"

definition bc_run :: "bc_state \<Rightarrow> bc_event list \<Rightarrow> bc_state" where
  "bc_run s evs = foldl check s evs"

text \<open>The premiums admitted for a wallet so far.\<close>

fun admitted_entry :: "string \<Rightarrow> nat \<times> string \<times> int \<times> (string + balance_result) \<Rightarrow> int" where
  "admitted_entry w (i, w', r, res) =
     (if w' = w then (case res of Inr (Eligible _ _) \<Rightarrow> r | _ \<Rightarrow> 0) else 0)"

definition admitted :: "string \<Rightarrow> bc_state \<Rightarrow> int" where
  "admitted w s = sum_list (map (admitted_entry w) (bc_log s))"

section \<open>Other balance checks\<close>

datatype eligibility_reason = El_balance | El_allowance | El_no_account

datatype eligibility =
    ElEligible int int
  | ElIneligible eligibility_reason "int option" "int option"

fun solana_checkAgentEligibility :: "balance_result \<Rightarrow> eligibility" where
  "solana_checkAgentEligibility (Eligible b a) = ElEligible b a"
| "solana_checkAgentEligibility (Ineligible r b a) =
     ElIneligible (case r of No_ata \<Rightarrow> El_no_account | Insufficient_balance \<Rightarrow> El_balance
                   | Insufficient_allowance \<Rightarrow> El_allowance) b a"

text \<open>\<open>settler\<close> is the deployment's settler address, the multicall answer the two token reads.\<close>

definition evm_checkAgentEligibility :: "int \<Rightarrow> string option \<Rightarrow> int \<times> int \<Rightarrow> int \<Rightarrow> string + eligibility" where
  "evm_checkAgentEligibility chainId settler reads required =
     (case settler of
        None \<Rightarrow> Inl (''EvmAdapter.checkAgentEligibility: no settler address for chain '' @ string_of_int chainId)
      | Some addr \<Rightarrow>
          if addr = [] then Inl (''EvmAdapter.checkAgentEligibility: no settler address for chain '' @ string_of_int chainId)
          else case reads of (balance, allowance) \<Rightarrow>
            if balance < required then Inr (ElIneligible El_balance (Some balance) (Some allowance))
            else if allowance < required then Inr (ElIneligible El_allowance (Some balance) (Some allowance))
            else Inr (ElEligible balance allowance))"

fun adapterToBalanceCheck :: "eligibility \<Rightarrow> balance_result" where
  "adapterToBalanceCheck (ElEligible b a) = Eligible b a"
| "adapterToBalanceCheck (ElIneligible r b a) =
     Ineligible (case r of El_no_account \<Rightarrow> No_ata | El_balance \<Rightarrow> Insufficient_balance
                 | El_allowance \<Rightarrow> Insufficient_allowance) b a"

lemma adapter_of_solana [simp]: "adapterToBalanceCheck (solana_checkAgentEligibility r) = r"
  by (cases r) (auto split: reject_reason.splits)

section \<open>The contract of a balance check\<close>

text \<open>
  What \<open>wrapFetch\<close> relies on: an eligible answer covers the required premium in both the balance
  and the delegated allowance, and a refusal names a shortfall that is really there.
\<close>

locale balance_oracle =
  fixes answer :: "'a \<Rightarrow> int \<Rightarrow> balance_result"
  assumes eligible_covers: "answer a r = Eligible bal alw \<Longrightarrow> r \<le> bal \<and> r \<le> alw"
    and balance_short: "answer a r = Ineligible Insufficient_balance b al \<Longrightarrow> \<exists>x. b = Some x \<and> x < r"
    and allowance_short: "answer a r = Ineligible Insufficient_allowance b al \<Longrightarrow> \<exists>x. al = Some x \<and> x < r"
begin

lemma free_call_not_short:
  assumes "answer a 0 = Ineligible reason b al" and "\<And>x. b = Some x \<Longrightarrow> 0 \<le> x" and "\<And>x. al = Some x \<Longrightarrow> 0 \<le> x"
  shows "reason = No_ata"
proof (cases reason)
  case Insufficient_balance
  then show ?thesis using assms balance_short [of a 0 b al] by fastforce
next
  case Insufficient_allowance
  then show ?thesis using assms allowance_short [of a 0 b al] by fastforce
qed

end

interpretation default_bc: balance_oracle "\<lambda>(cache, wallet, entry) r. snd (admit cache wallet entry r)"
  by unfold_locales (auto simp: admit_def split: if_splits)

interpretation evm_bc: balance_oracle "\<lambda>(chain, settler, reads) r.
    case evm_checkAgentEligibility chain settler reads r of Inl e \<Rightarrow> Ineligible No_ata None None
    | Inr el \<Rightarrow> adapterToBalanceCheck el"
  by unfold_locales (auto simp: evm_checkAgentEligibility_def split: if_splits option.splits)

section \<open>Lemmas\<close>

lemma admitted_finish:
  "admitted w (bc_finish s i w' r e) =
     admitted w s + (if w' = w \<and> \<not> noAta e \<and> r \<le> ce_ataBalance e \<and> r \<le> ce_allowance e then r else 0)"
  by (auto simp: bc_finish_def admit_def admitted_def)

lemma finish_cache:
  "map_of (bc_cache (bc_finish s i w' r e)) w =
     (if w' = w \<and> \<not> noAta e \<and> r \<le> ce_ataBalance e \<and> r \<le> ce_allowance e
      then Some (e\<lparr>ce_ataBalance := ce_ataBalance e - r, ce_allowance := ce_allowance e - r\<rparr>)
      else map_of (bc_cache s) w)"
  by (auto simp: bc_finish_def admit_def update_conv')

lemma finish_waiting [simp]: "bc_waiting (bc_finish s i w r e) = bc_waiting s"
  by (auto simp: bc_finish_def split: prod.splits)

lemma admitted_waiting [simp]: "admitted w (s\<lparr>bc_waiting := x\<rparr>) = admitted w s"
  by (simp add: admitted_def)

lemma admitted_cache [simp]: "admitted w (s\<lparr>bc_cache := x\<rparr>) = admitted w s"
  by (simp add: admitted_def)

text \<open>What is left in a cached entry: the tighter of the balance and the allowance.\<close>

definition budget :: "cache_entry \<Rightarrow> int" where
  "budget e = min (ce_ataBalance e) (ce_allowance e)"

text \<open>A step that does not reload the wallet \<open>w\<close>, and reads the clock before \<open>deadline\<close>.\<close>

fun warm_event :: "string \<Rightarrow> int \<Rightarrow> bc_event \<Rightarrow> bool" where
  "warm_event w deadline (CheckCall i w' r now) = (0 \<le> r \<and> (w' = w \<longrightarrow> now < deadline))"
| "warm_event w deadline (CheckResume i l) = True"

text \<open>The wallet's entry is live and nothing admitted under it exceeds what it started with.\<close>

definition warm_inv :: "string \<Rightarrow> int \<Rightarrow> int \<Rightarrow> bc_state \<Rightarrow> bool" where
  "warm_inv w deadline tot s \<longleftrightarrow>
     (\<exists>e. map_of (bc_cache s) w = Some e \<and> expiresAt e = deadline \<and> 0 \<le> budget e \<and>
          admitted w s + budget e \<le> tot) \<and>
     (\<forall>i w' r. (i, w', r) \<in> set (bc_waiting s) \<longrightarrow> w' \<noteq> w)"

lemma warm_inv_finish_other:
  assumes "warm_inv w d t s" "w' \<noteq> w"
  shows "warm_inv w d t (bc_finish s i w' r e)"
  using assms by (simp add: warm_inv_def admitted_finish finish_cache)

lemma warm_inv_step:
  assumes inv: "warm_inv w d t s" and ev: "warm_event w d ev"
  shows "warm_inv w d t (check s ev)"
proof (cases ev)
  case (CheckCall i w' r now)
  show ?thesis
  proof (cases "cached_entry (bc_cache s) w' now")
    case None
    with inv ev CheckCall show ?thesis
      by (auto simp: warm_inv_def cached_entry_def split: if_splits option.splits)
  next
    case (Some e)
    show ?thesis
    proof (cases "w' = w")
      case False
      with warm_inv_finish_other [OF inv] Some CheckCall show ?thesis by simp
    next
      case True
      with Some inv ev CheckCall show ?thesis
        by (auto simp: warm_inv_def cached_entry_def admitted_finish finish_cache budget_def
            split: if_splits option.splits)
    qed
  qed
next
  case (CheckResume i l)
  show ?thesis
  proof (cases "map_of (bc_waiting s) i")
    case None with CheckResume inv show ?thesis by simp
  next
    case (Some wr)
    obtain w' r where wr: "wr = (w', r)" by force
    with Some inv have "w' \<noteq> w" by (auto simp: warm_inv_def dest!: map_of_SomeD)
    let ?s = "s\<lparr>bc_waiting := AList.delete i (bc_waiting s)\<rparr>"
    have base: "warm_inv w d t ?s"
      using inv by (auto simp: warm_inv_def set_delete)
    have failed: "warm_inv w d t (?s\<lparr>bc_log := bc_log s @ [(i, w', r, Inl e)]\<rparr>)" for e
      using base by (simp add: warm_inv_def admitted_def)
    have loaded: "warm_inv w d t (?s\<lparr>bc_cache := AList.update w' e (bc_cache s)\<rparr>)" for e
      using base \<open>w' \<noteq> w\<close> by (simp add: warm_inv_def update_conv')
    show ?thesis
      using CheckResume Some wr failed warm_inv_finish_other [OF loaded \<open>w' \<noteq> w\<close>]
      by (cases l) simp_all
  qed
qed

lemma warm_inv_run: "warm_inv w d t s \<Longrightarrow> list_all (warm_event w d) evs \<Longrightarrow> warm_inv w d t (bc_run s evs)"
  unfolding bc_run_def by (induction evs arbitrary: s) (auto simp: warm_inv_step)

lemma cold_calls:
  assumes "cached_entry (bc_cache s) w now = None"
  shows "foldl check s (map (\<lambda>i. CheckCall i w r now) ids) =
     s\<lparr>bc_waiting := rev (map (\<lambda>i. (i, w, r)) ids) @ bc_waiting s\<rparr>"
  using assms by (induction ids arbitrary: s) simp_all

lemma cold_resumes:
  assumes "distinct ids" "\<forall>i \<in> set ids. map_of (bc_waiting s) i = Some (w, r)"
    and "\<not> noAta e" "r \<le> budget e"
  shows "admitted w (foldl check s (map (\<lambda>i. CheckResume i (Inr e)) ids)) =
           admitted w s + int (length ids) * r"
  using assms
proof (induction ids arbitrary: s)
  case (Cons i ids)
  let ?s = "check s (CheckResume i (Inr e))"
  have "\<forall>j \<in> set ids. map_of (bc_waiting ?s) j = Some (w, r)"
    using Cons.prems by (auto simp: delete_conv' Let_def)
  moreover have "admitted w ?s = admitted w s + r"
    using Cons.prems by (simp add: Let_def admitted_finish budget_def)
  ultimately show ?case using Cons by (simp add: algebra_simps)
qed simp

section \<open>Properties\<close>

text \<open>
  C3: decrement-on-admit bounds a burst. As long as a wallet's cache entry is live and no reload
  of that wallet is in flight, every interleaving of checks (for it and for other wallets) admits
  at most the smaller of its cached balance and allowance.
\<close>

theorem warm_burst_bounded:
  assumes "map_of (bc_cache s) w = Some e" and "0 \<le> budget e"
    and "\<forall>i w' r. (i, w', r) \<in> set (bc_waiting s) \<longrightarrow> w' \<noteq> w"
    and "list_all (warm_event w (expiresAt e)) evs"
  shows "admitted w (bc_run s evs) \<le> admitted w s + min (ce_ataBalance e) (ce_allowance e)"
proof -
  have "warm_inv w (expiresAt e) (admitted w s + budget e) s"
    using assms(1-3) by (simp add: warm_inv_def)
  from warm_inv_run [OF this assms(4)] show ?thesis
    by (auto simp: warm_inv_def budget_def)
qed

theorem warm_burst_bounded_witness:
  "admitted ''A'' (bc_run
     \<lparr>bc_cache = [(''A'', \<lparr>expiresAt = 3000, ce_ataBalance = 25, ce_allowance = 40, noAta = False\<rparr>)],
      bc_waiting = [(7, ''B'', 5)], bc_log = []\<rparr>
     [CheckCall 0 ''A'' 10 100, CheckCall 1 ''A'' 10 200, CheckResume 7 (Inl ''down''), CheckCall 2 ''A'' 10 300]) \<le> 25"
  using warm_burst_bounded [of
     "\<lparr>bc_cache = [(''A'', \<lparr>expiresAt = 3000, ce_ataBalance = 25, ce_allowance = 40, noAta = False\<rparr>)],
      bc_waiting = [(7, ''B'', 5)], bc_log = []\<rparr>" "''A''"
     "\<lparr>expiresAt = 3000, ce_ataBalance = 25, ce_allowance = 40, noAta = False\<rparr>"
     "[CheckCall 0 ''A'' 10 100, CheckCall 1 ''A'' 10 200, CheckResume 7 (Inl ''down''), CheckCall 2 ''A'' 10 300]"]
  by (simp add: budget_def admitted_def)

text \<open>
  The bound fails on a cold cache. When any number of checks for one wallet are called before
  the first of them resumes, each resume overwrites the others' debits with its freshly loaded
  entry, so all of them are admitted however small the budget is (each premium fits on its own).
\<close>

theorem cold_cache_over_admits:
  assumes "cached_entry (bc_cache s) w now = None" and "distinct ids"
    and "\<not> noAta e" and "r \<le> ce_ataBalance e" and "r \<le> ce_allowance e"
  shows "admitted w (bc_run s (map (\<lambda>i. CheckCall i w r now) ids @
                               map (\<lambda>i. CheckResume i (Inr e)) ids)) =
           admitted w s + int (length ids) * r"
proof -
  let ?s = "s\<lparr>bc_waiting := rev (map (\<lambda>i. (i, w, r)) ids) @ bc_waiting s\<rparr>"
  have "\<forall>i \<in> set ids. map_of (bc_waiting ?s) i = Some (w, r)"
    using map_of_const_pairs [of _ "rev ids" "(w, r)"] by (simp add: rev_map del: map_of_append)
  from cold_resumes [OF assms(2) this assms(3)] show ?thesis
    using assms(4,5) by (simp add: bc_run_def cold_calls [OF assms(1)] budget_def)
qed

theorem cold_cache_over_admits_witness:
  "admitted ''A'' (bc_run \<lparr>bc_cache = [], bc_waiting = [], bc_log = []\<rparr>
     (map (\<lambda>i. CheckCall i ''A'' 10 0) [0, 1, 2] @
      map (\<lambda>i. CheckResume i (Inr \<lparr>expiresAt = 3000, ce_ataBalance = 10, ce_allowance = 10, noAta = False\<rparr>)) [0, 1, 2])) = 30"
  using cold_cache_over_admits [of "\<lparr>bc_cache = [], bc_waiting = [], bc_log = []\<rparr>" "''A''" 0 "[0, 1, 2]"
      "\<lparr>expiresAt = 3000, ce_ataBalance = 10, ce_allowance = 10, noAta = False\<rparr>" 10]
  by (simp add: cached_entry_def admitted_def)

end
