(* ===== verification/Classifier.thy ===== *)
theory Classifier
  imports Http
begin

text \<open>
  What kind of outcome was this API call, and what does it cost? The neutral decision tree of
  \<open>packages/classifier/src/classify.ts\<close>, the premium and refund arithmetic of
  \<open>packages/wrap/src/economics.ts\<close>, the default classifier of \<open>packages/wrap/src/classifier.ts\<close>
  and the per-endpoint plugins of \<open>packages/market-proxy/src/lib/classifiers.ts\<close>. The locale
  \<open>classifier_contract\<close> states what \<open>wrapFetch\<close> relies on; it is interpreted on both classifiers.
\<close>

section \<open>The decision tree\<close>

datatype core_category =
    Cat_success | Cat_slow | Cat_client_error | Cat_server_error | Cat_network_error | Cat_other

record http_outcome_input =
  hi_statusCode :: "int option"
  hi_latencyMs :: int
  hi_latencyThresholdMs :: int
  hi_networkError :: "bool option"

definition classifyHttpOutcome :: "http_outcome_input \<Rightarrow> core_category" where
  "classifyHttpOutcome inp =
     (if hi_networkError inp = Some True then Cat_network_error
      else case hi_statusCode inp of
        None \<Rightarrow> Cat_network_error
      | Some st \<Rightarrow>
          if st = 0 then Cat_network_error
          else if 500 \<le> st \<and> st \<le> 599 then Cat_server_error
          else if 400 \<le> st \<and> st \<le> 499 then Cat_client_error
          else if 200 \<le> st \<and> st \<le> 299 then
            (if hi_latencyMs inp > hi_latencyThresholdMs inp then Cat_slow else Cat_success)
          else Cat_other)"

section \<open>Outcomes and economics\<close>

datatype outcome = Ok | LatencyBreach | ServerError | ClientError | NetworkError

fun outcome_str :: "outcome \<Rightarrow> string" where
  "outcome_str Ok = ''ok''"
| "outcome_str LatencyBreach = ''latency_breach''"
| "outcome_str ServerError = ''server_error''"
| "outcome_str ClientError = ''client_error''"
| "outcome_str NetworkError = ''network_error''"

lemma outcome_str_inj: "outcome_str a = outcome_str b \<longleftrightarrow> a = b"
  by (cases a; cases b) simp_all

datatype verdict_source = PactObserved | ClientAttested | Oracle

fun verdict_str :: "verdict_source \<Rightarrow> string" where
  "verdict_str PactObserved = ''pact_observed''"
| "verdict_str ClientAttested = ''client_attested''"
| "verdict_str Oracle = ''oracle''"

record economics_pool =
  flatPremiumLamports :: int
  imputedCostLamports :: int

record economics =
  ec_outcome :: outcome
  ec_premiumLamports :: int
  ec_refundLamports :: int
  ec_covered :: bool

definition isCoveredBreach :: "outcome \<Rightarrow> bool" where
  "isCoveredBreach oc \<longleftrightarrow> oc = LatencyBreach \<or> oc = ServerError \<or> oc = NetworkError"

definition computeEconomics :: "outcome \<Rightarrow> economics_pool \<Rightarrow> int option \<Rightarrow> economics" where
  "computeEconomics oc pool amountPaid =
     (if oc = ClientError then
        \<lparr>ec_outcome = oc, ec_premiumLamports = 0, ec_refundLamports = 0, ec_covered = False\<rparr>
      else
        (let refund =
           (if isCoveredBreach oc then
              (let requested = (case amountPaid of None \<Rightarrow> imputedCostLamports pool | Some a \<Rightarrow> a);
                   principal = (if requested < 0 then 0
                                else if requested > imputedCostLamports pool then imputedCostLamports pool
                                else requested)
               in principal + flatPremiumLamports pool)
            else 0)
         in \<lparr>ec_outcome = oc, ec_premiumLamports = flatPremiumLamports pool,
             ec_refundLamports = refund, ec_covered = True\<rparr>))"

section \<open>Classifiers\<close>

record endpoint_terms =
  sla_latency_ms :: int
  flat_premium_lamports :: int
  imputed_cost_lamports :: int

record classifier_input =
  ci_response :: "response option"
  ci_latencyMs :: int
  ci_endpointConfig :: endpoint_terms

record classifier_result =
  cr_outcome :: outcome
  cr_premium :: int
  cr_refund :: int

fun category_outcome :: "core_category \<Rightarrow> outcome" where
  "category_outcome Cat_network_error = NetworkError"
| "category_outcome Cat_server_error = ServerError"
| "category_outcome Cat_client_error = ClientError"
| "category_outcome Cat_slow = LatencyBreach"
| "category_outcome Cat_success = Ok"
| "category_outcome Cat_other = Ok"

definition defaultClassifier :: "classifier_input \<Rightarrow> classifier_result" where
  "defaultClassifier inp =
     (let category = classifyHttpOutcome
            \<lparr>hi_statusCode = map_option r_status (ci_response inp),
             hi_latencyMs = ci_latencyMs inp,
             hi_latencyThresholdMs = sla_latency_ms (ci_endpointConfig inp),
             hi_networkError = Some (ci_response inp = None)\<rparr>;
          econ = computeEconomics (category_outcome category)
            \<lparr>flatPremiumLamports = flat_premium_lamports (ci_endpointConfig inp),
             imputedCostLamports = imputed_cost_lamports (ci_endpointConfig inp)\<rparr> None
      in \<lparr>cr_outcome = ec_outcome econ, cr_premium = ec_premiumLamports econ,
          cr_refund = ec_refundLamports econ\<rparr>)"

definition composeWithDefault ::
  "(classifier_input \<Rightarrow> classifier_result option) \<Rightarrow> classifier_input \<Rightarrow> classifier_result" where
  "composeWithDefault pluginFn inp =
     (case pluginFn inp of Some r \<Rightarrow> r | None \<Rightarrow> defaultClassifier inp)"

definition heliusPlugin :: "json option \<Rightarrow> classifier_input \<Rightarrow> classifier_result option" where
  "heliusPlugin body inp =
     (case ci_response inp of
        None \<Rightarrow> None
      | Some resp \<Rightarrow>
          (let status = r_status resp;
               flat = flat_premium_lamports (ci_endpointConfig inp);
               imputed = imputed_cost_lamports (ci_endpointConfig inp)
           in
           if 200 \<le> status \<and> status \<le> 299 then
             (if ci_latencyMs inp > sla_latency_ms (ci_endpointConfig inp)
              then Some \<lparr>cr_outcome = LatencyBreach, cr_premium = flat, cr_refund = imputed\<rparr>
              else if \<not> js_truthy body \<or> \<not> js_is_object body \<or> \<not> js_truthy (js_member body ''error'')
              then None
              else
                (let code = js_member (js_member body ''error'') ''code''
                 in case code of
                      Some (JNum c) \<Rightarrow>
                        if c = -32603 \<or> (c \<le> -32000 \<and> c \<ge> -32099)
                        then Some \<lparr>cr_outcome = ServerError, cr_premium = flat, cr_refund = imputed\<rparr>
                        else Some \<lparr>cr_outcome = ClientError, cr_premium = 0, cr_refund = 0\<rparr>
                    | _ \<Rightarrow> Some \<lparr>cr_outcome = ClientError, cr_premium = 0, cr_refund = 0\<rparr>))
           else None))"

definition buildHeliusClassifier :: "json option \<Rightarrow> classifier_input \<Rightarrow> classifier_result" where
  "buildHeliusClassifier body = composeWithDefault (heliusPlugin body)"

datatype classifier_factory = Static | NeedsBody

text \<open>\<open>classifierRegistry\<close>: the classifier of a slug, a factory over the parsed body for Helius.\<close>

definition classifierRegistry :: "string \<Rightarrow> classifier_factory option" where
  "classifierRegistry slug =
     (if slug = ''helius'' then Some NeedsBody
      else if slug \<in> {''birdeye'', ''jupiter'', ''elfa'', ''fal'', ''moralis'', ''covalent'', ''dummy''}
      then Some Static else None)"

fun run_classifier :: "classifier_factory \<Rightarrow> json option \<Rightarrow> classifier_input \<Rightarrow> classifier_result" where
  "run_classifier Static body inp = defaultClassifier inp"
| "run_classifier NeedsBody body inp = buildHeliusClassifier body inp"

section \<open>The contract of a classifier\<close>

text \<open>
  What \<open>wrapFetch\<close> and the settlement rails rely on: a client error is free, every other outcome
  is charged the flat premium, only a covered breach is refunded, and a refund never exceeds the
  imputed cost plus the premium just paid.
\<close>

abbreviation terms_ok :: "endpoint_terms \<Rightarrow> bool" where
  "terms_ok t \<equiv> 0 \<le> flat_premium_lamports t \<and> 0 \<le> imputed_cost_lamports t"

locale classifier_contract =
  fixes classify :: "classifier_input \<Rightarrow> classifier_result"
  assumes client_error_free:
      "cr_outcome (classify inp) = ClientError \<Longrightarrow> cr_premium (classify inp) = 0"
    and charged_flat:
      "cr_outcome (classify inp) \<noteq> ClientError \<Longrightarrow>
         cr_premium (classify inp) = flat_premium_lamports (ci_endpointConfig inp)"
    and uncovered_no_refund:
      "\<not> isCoveredBreach (cr_outcome (classify inp)) \<Longrightarrow> cr_refund (classify inp) = 0"
    and refund_bounds:
      "terms_ok (ci_endpointConfig inp) \<Longrightarrow> 0 \<le> cr_refund (classify inp) \<and>
         cr_refund (classify inp) \<le>
           imputed_cost_lamports (ci_endpointConfig inp) + flat_premium_lamports (ci_endpointConfig inp)"
    and no_response: "ci_response inp = None \<Longrightarrow> cr_outcome (classify inp) = NetworkError"
begin

lemma refund_needs_premium:
  assumes "cr_refund (classify inp) \<noteq> 0"
  shows "cr_premium (classify inp) = flat_premium_lamports (ci_endpointConfig inp)"
  using assms uncovered_no_refund [of inp] by (intro charged_flat) (auto simp: isCoveredBreach_def)

lemma pool_loss_bounded:
  assumes "terms_ok (ci_endpointConfig inp)"
  shows "- imputed_cost_lamports (ci_endpointConfig inp) \<le>
           cr_premium (classify inp) - cr_refund (classify inp)"
proof (cases "cr_refund (classify inp) = 0")
  case True
  then show ?thesis
    using assms client_error_free [of inp] charged_flat [of inp]
    by (cases "cr_outcome (classify inp) = ClientError") auto
next
  case False
  then show ?thesis using refund_needs_premium [OF False] refund_bounds [OF assms] by simp
qed

lemma call_loss_bounded:
  assumes "terms_ok (ci_endpointConfig inp)"
  shows "cr_refund (classify inp) \<le> cr_premium (classify inp) +
    (if isCoveredBreach (cr_outcome (classify inp)) then imputed_cost_lamports (ci_endpointConfig inp) else 0)"
proof (cases "isCoveredBreach (cr_outcome (classify inp))")
  case True
  then show ?thesis using pool_loss_bounded [OF assms] by simp
next
  case False
  then show ?thesis
    using uncovered_no_refund [OF False] client_error_free [of inp] charged_flat [of inp] assms
    by (cases "cr_outcome (classify inp) = ClientError") auto
qed

end

lemmas classifier_defs = classifyHttpOutcome_def computeEconomics_def isCoveredBreach_def
  defaultClassifier_def

lemma category_no_response [simp]: "hi_networkError i = Some True \<Longrightarrow> classifyHttpOutcome i = Cat_network_error"
  by (simp add: classifyHttpOutcome_def)

lemma category_outcome_cases:
  "category_outcome c = ClientError \<longleftrightarrow> c = Cat_client_error"
  by (cases c) auto

lemma economics_bounds:
  assumes "0 \<le> flatPremiumLamports pool" "0 \<le> imputedCostLamports pool"
  shows "0 \<le> ec_refundLamports (computeEconomics oc pool amt)"
    and "ec_refundLamports (computeEconomics oc pool amt) \<le> imputedCostLamports pool + flatPremiumLamports pool"
  using assms by (auto simp: computeEconomics_def Let_def)

lemma economics_outcome [simp]: "ec_outcome (computeEconomics oc pool amt) = oc"
  by (simp add: computeEconomics_def Let_def)

lemma economics_premium [simp]:
  "ec_premiumLamports (computeEconomics oc pool amt) = (if oc = ClientError then 0 else flatPremiumLamports pool)"
  by (simp add: computeEconomics_def Let_def)

lemma economics_uncovered [simp]:
  "\<not> isCoveredBreach oc \<Longrightarrow> ec_refundLamports (computeEconomics oc pool amt) = 0"
  by (simp add: computeEconomics_def Let_def)

interpretation default_c: classifier_contract defaultClassifier
proof
  fix inp :: classifier_input
  show "terms_ok (ci_endpointConfig inp) \<Longrightarrow> 0 \<le> cr_refund (defaultClassifier inp) \<and>
         cr_refund (defaultClassifier inp) \<le>
           imputed_cost_lamports (ci_endpointConfig inp) + flat_premium_lamports (ci_endpointConfig inp)"
    by (simp add: defaultClassifier_def Let_def economics_bounds [where pool = "\<lparr>flatPremiumLamports = f, imputedCostLamports = i\<rparr>" for f i, simplified])
qed (auto simp: defaultClassifier_def Let_def)

lemma helius_plugin_cases:
  assumes "heliusPlugin body inp = Some r"
  obtains (breach) "isCoveredBreach (cr_outcome r)" "ci_response inp \<noteq> None"
      "cr_premium r = flat_premium_lamports (ci_endpointConfig inp)"
      "cr_refund r = imputed_cost_lamports (ci_endpointConfig inp)"
    | (client) "ci_response inp \<noteq> None" "r = \<lparr>cr_outcome = ClientError, cr_premium = 0, cr_refund = 0\<rparr>"
  using assms
  by (auto simp: heliusPlugin_def isCoveredBreach_def Let_def
      split: option.splits if_splits json.splits)

interpretation helius_c: classifier_contract "buildHeliusClassifier body"
proof
  fix inp :: classifier_input
  let ?r = "buildHeliusClassifier body inp"
  show "cr_outcome ?r = ClientError \<Longrightarrow> cr_premium ?r = 0"
    unfolding buildHeliusClassifier_def composeWithDefault_def
    by (auto split: option.splits elim: helius_plugin_cases
        simp: isCoveredBreach_def default_c.client_error_free)
  show "cr_outcome ?r \<noteq> ClientError \<Longrightarrow> cr_premium ?r = flat_premium_lamports (ci_endpointConfig inp)"
    unfolding buildHeliusClassifier_def composeWithDefault_def
    by (auto split: option.splits elim: helius_plugin_cases simp: default_c.charged_flat)
  show "\<not> isCoveredBreach (cr_outcome ?r) \<Longrightarrow> cr_refund ?r = 0"
    unfolding buildHeliusClassifier_def composeWithDefault_def
    by (auto split: option.splits elim: helius_plugin_cases simp: default_c.uncovered_no_refund)
  show "terms_ok (ci_endpointConfig inp) \<Longrightarrow> 0 \<le> cr_refund ?r \<and>
         cr_refund ?r \<le>
           imputed_cost_lamports (ci_endpointConfig inp) + flat_premium_lamports (ci_endpointConfig inp)"
    unfolding buildHeliusClassifier_def composeWithDefault_def
    using default_c.refund_bounds [of inp]
    by (auto split: option.splits elim: helius_plugin_cases)
  show "ci_response inp = None \<Longrightarrow> cr_outcome ?r = NetworkError"
    by (simp add: buildHeliusClassifier_def composeWithDefault_def heliusPlugin_def default_c.no_response)
qed

interpretation market_c: classifier_contract "run_classifier fac body"
proof (cases fac)
  case Static
  then have "run_classifier fac body = defaultClassifier" by (simp add: fun_eq_iff)
  then show "classifier_contract (run_classifier fac body)"
    by (simp add: default_c.classifier_contract_axioms)
next
  case NeedsBody
  then have "run_classifier fac body = buildHeliusClassifier body" by (simp add: fun_eq_iff)
  then show "classifier_contract (run_classifier fac body)"
    by (simp add: helius_c.classifier_contract_axioms)
qed

section \<open>Properties\<close>

text \<open>
  The default classifier's complete table. No response is a network error; 5xx a server error;
  4xx a free client error; a 2xx slower than the SLA a latency breach; everything else is \<open>ok\<close>.
  Covered breaches are charged the flat premium and refunded the imputed cost plus that premium,
  for every status code and latency.
\<close>

theorem default_classifier_table:
  "defaultClassifier \<lparr>ci_response = resp, ci_latencyMs = lat, ci_endpointConfig = t\<rparr> =
     (let flat = flat_premium_lamports t;
          full = (if imputed_cost_lamports t < 0 then 0 else imputed_cost_lamports t) + flat;
          breach = (\<lambda>oc. \<lparr>cr_outcome = oc, cr_premium = flat, cr_refund = full\<rparr>)
      in case map_option r_status resp of
           None \<Rightarrow> breach NetworkError
         | Some st \<Rightarrow>
             if st = 0 then breach NetworkError
             else if st \<in> {500..599} then breach ServerError
             else if st \<in> {400..499} then \<lparr>cr_outcome = ClientError, cr_premium = 0, cr_refund = 0\<rparr>
             else if st \<in> {200..299} \<and> sla_latency_ms t < lat then breach LatencyBreach
             else \<lparr>cr_outcome = Ok, cr_premium = flat, cr_refund = 0\<rparr>)"
  by (cases resp) (auto simp: classifier_defs Let_def)

text \<open>
  C1: the per-call refund ceiling. Whatever \<open>amountPaid\<close> a client supplies (negative, huge or
  absent), the refund of a covered breach lies between the flat premium and the gateway's own
  refund, and it grows with the amount paid only up to the imputed cost.
\<close>

theorem economics_refund_cap:
  assumes "0 \<le> imputedCostLamports pool" and "isCoveredBreach oc"
  shows "flatPremiumLamports pool \<le> ec_refundLamports (computeEconomics oc pool (Some amt)) \<and>
    ec_refundLamports (computeEconomics oc pool (Some amt)) \<le> ec_refundLamports (computeEconomics oc pool None) \<and>
    ec_refundLamports (computeEconomics oc pool (Some amt)) =
      max 0 (min amt (imputedCostLamports pool)) + flatPremiumLamports pool"
  using assms by (auto simp: computeEconomics_def isCoveredBreach_def Let_def)

theorem economics_refund_cap_witness:
  "(0 :: int) \<le> 5000 \<and> isCoveredBreach ServerError \<and>
   ec_refundLamports (computeEconomics ServerError \<lparr>flatPremiumLamports = 1000, imputedCostLamports = 5000\<rparr> (Some 999999)) = 6000"
  using economics_refund_cap [of "\<lparr>flatPremiumLamports = 1000, imputedCostLamports = 5000\<rparr>" ServerError 999999]
  by (simp add: isCoveredBreach_def)

text \<open>
  C2: bounded pool loss. Over any batch of calls to one endpoint with non-negative terms, each call
  with an answer and a decoded body of its own, through the classifier the registry selects for the
  endpoint, what the pool pays out in refunds beyond the premiums it takes in is at most the
  imputed cost times the number of covered breaches.
\<close>

theorem market_batch_loss_bounded:
  assumes "\<forall>(body, inp) \<in> set calls. ci_endpointConfig inp = t" and "terms_ok t"
  shows "(\<Sum>(body, inp) \<leftarrow> calls. cr_refund (run_classifier fac body inp))
     \<le> (\<Sum>(body, inp) \<leftarrow> calls. cr_premium (run_classifier fac body inp)) +
        int (length (filter (\<lambda>(body, inp). isCoveredBreach (cr_outcome (run_classifier fac body inp))) calls))
          * imputed_cost_lamports t"
  using assms(1)
proof (induction calls)
  case (Cons c calls)
  obtain body inp where c: "c = (body, inp)" by (cases c)
  have t: "ci_endpointConfig inp = t" using Cons.prems c by simp
  have "cr_refund (run_classifier fac body inp) \<le> cr_premium (run_classifier fac body inp) +
      (if isCoveredBreach (cr_outcome (run_classifier fac body inp)) then imputed_cost_lamports t else 0)"
    using market_c.call_loss_bounded [of inp fac body] assms(2) unfolding t by blast
  then show ?case using Cons c by (simp add: algebra_simps split: if_split_asm)
qed simp

theorem market_batch_loss_bounded_witness:
  "(\<Sum>(body, inp) \<leftarrow> [(None, \<lparr>ci_response = None, ci_latencyMs = 7, ci_endpointConfig =
        \<lparr>sla_latency_ms = 100, flat_premium_lamports = 10, imputed_cost_lamports = 50\<rparr>\<rparr>),
      (Some (JObj [(''error'', JObj [(''code'', JNum (-32603))])]),
        \<lparr>ci_response = Some \<lparr>r_status = 200, r_statusText = [], r_headers = [], r_body = []\<rparr>,
         ci_latencyMs = 5, ci_endpointConfig =
        \<lparr>sla_latency_ms = 100, flat_premium_lamports = 10, imputed_cost_lamports = 50\<rparr>\<rparr>)].
        cr_refund (run_classifier NeedsBody body inp)) \<le> 120"
  using market_batch_loss_bounded [of "[(None, \<lparr>ci_response = None, ci_latencyMs = 7, ci_endpointConfig =
        \<lparr>sla_latency_ms = 100, flat_premium_lamports = 10, imputed_cost_lamports = 50\<rparr>\<rparr>),
      (Some (JObj [(''error'', JObj [(''code'', JNum (-32603))])]),
        \<lparr>ci_response = Some \<lparr>r_status = 200, r_statusText = [], r_headers = [], r_body = []\<rparr>,
         ci_latencyMs = 5, ci_endpointConfig =
        \<lparr>sla_latency_ms = 100, flat_premium_lamports = 10, imputed_cost_lamports = 50\<rparr>\<rparr>)]"
      "\<lparr>sla_latency_ms = 100, flat_premium_lamports = 10, imputed_cost_lamports = 50\<rparr>" NeedsBody]
  by (simp add: classifier_defs buildHeliusClassifier_def composeWithDefault_def heliusPlugin_def Let_def)

text \<open>
  The Helius plugin does not pay the canonical refund. Whenever the plugin itself decides a
  covered breach (a 2xx answer over the SLA, or a JSON-RPC server error inside a 2xx), it refunds
  the imputed cost only: exactly one flat premium less than \<open>computeEconomics\<close> gives for the same
  outcome and pool, which the economics module calls the single source of truth.
\<close>

theorem helius_breach_underpays:
  assumes "heliusPlugin body inp = Some r" and "isCoveredBreach (cr_outcome r)"
    and "0 \<le> imputed_cost_lamports (ci_endpointConfig inp)"
  shows "buildHeliusClassifier body inp = r \<and>
    cr_refund r = ec_refundLamports (computeEconomics (cr_outcome r)
        \<lparr>flatPremiumLamports = flat_premium_lamports (ci_endpointConfig inp),
         imputedCostLamports = imputed_cost_lamports (ci_endpointConfig inp)\<rparr> None)
      - flat_premium_lamports (ci_endpointConfig inp)"
  using assms
  by (auto simp: buildHeliusClassifier_def composeWithDefault_def computeEconomics_def isCoveredBreach_def
      elim!: helius_plugin_cases)

theorem helius_breach_underpays_witness:
  "cr_refund (buildHeliusClassifier (Some (JObj [(''error'', JObj [(''code'', JNum (-32603))])]))
     \<lparr>ci_response = Some \<lparr>r_status = 200, r_statusText = [], r_headers = [], r_body = []\<rparr>, ci_latencyMs = 5,
      ci_endpointConfig = \<lparr>sla_latency_ms = 100, flat_premium_lamports = 10, imputed_cost_lamports = 50\<rparr>\<rparr>) = 50"
proof -
  let ?inp = "\<lparr>ci_response = Some \<lparr>r_status = 200, r_statusText = [], r_headers = [], r_body = []\<rparr>, ci_latencyMs = 5,
      ci_endpointConfig = \<lparr>sla_latency_ms = 100, flat_premium_lamports = 10, imputed_cost_lamports = 50\<rparr>\<rparr>"
  let ?b = "Some (JObj [(''error'', JObj [(''code'', JNum (-32603))])])"
  have "heliusPlugin ?b ?inp = Some \<lparr>cr_outcome = ServerError, cr_premium = 10, cr_refund = 50\<rparr>"
    by (simp add: heliusPlugin_def)
  from helius_breach_underpays [OF this] show ?thesis by (simp add: isCoveredBreach_def)
qed

end
