(* ===== verification/JsText.thy ===== *)
theory JsText
  imports Http
begin

text \<open>
  The text the services put on the wire: \<open>JSON.stringify\<close> and \<open>Date.prototype.toISOString\<close>.
  \<open>JSON.stringify\<close> omits the properties that are \<open>undefined\<close>; \<open>obj_of\<close> builds such an object.
\<close>

fun obj_of :: "(string \<times> json option) list \<Rightarrow> payload" where
  "obj_of [] = []"
| "obj_of ((k, None) # kvs) = obj_of kvs"
| "obj_of ((k, Some v) # kvs) = (k, v) # obj_of kvs"

lemma map_of_obj_of_None: "k \<notin> fst ` set kvs \<Longrightarrow> map_of (obj_of kvs) k = None"
  by (induction kvs rule: obj_of.induct) auto

lemma map_of_obj_of [simp]:
  "distinct (map fst kvs) \<Longrightarrow> map_of (obj_of kvs) k = (case map_of kvs k of None \<Rightarrow> None | Some v \<Rightarrow> v)"
  by (induction kvs rule: obj_of.induct) (auto simp: map_of_obj_of_None image_iff split: option.splits)

lemma get_prop_obj_of [simp]:
  "distinct (map fst kvs) \<Longrightarrow> get_prop (obj_of kvs) k = (case map_of kvs k of None \<Rightarrow> None | Some v \<Rightarrow> v)"
  by (simp add: get_prop_def)

definition escape_char :: "char \<Rightarrow> string" where
  "escape_char c = (let n = (of_char c :: nat) in
     if n = 34 \<or> n = 92 then [CHR 0x5C, c]
     else if n = 8 then [CHR 0x5C, CHR ''b''] else if n = 9 then [CHR 0x5C, CHR ''t'']
     else if n = 10 then [CHR 0x5C, CHR ''n''] else if n = 12 then [CHR 0x5C, CHR ''f'']
     else if n = 13 then [CHR 0x5C, CHR ''r'']
     else if n < 32 then [CHR 0x5C, CHR ''u'', CHR ''0'', CHR ''0'', hex_char (n div 16), hex_char (n mod 16)]
     else [c])"

definition quote :: "string \<Rightarrow> string" where
  "quote s = [CHR 0x22] @ concat (map escape_char s) @ [CHR 0x22]"

fun stringify :: "json \<Rightarrow> string" where
  "stringify JNull = ''null''"
| "stringify (JBool b) = (if b then ''true'' else ''false'')"
| "stringify (JNum n) = string_of_int n"
| "stringify (JStr s) = quote s"
| "stringify (JArr vs) = ''['' @ join_with '','' (map stringify vs) @ '']''"
| "stringify (JObj kvs) =
     ''{'' @ join_with '','' (map (\<lambda>(k, v). quote k @ '':'' @ stringify v) kvs) @ ''}''"

text \<open>
  The proleptic Gregorian date of a day number counted from 1970-01-01, by 400-year eras.
\<close>

definition civil_of_days :: "int \<Rightarrow> int \<times> int \<times> int" where
  "civil_of_days z0 = (let
     z = z0 + 719468; era = z div 146097; doe = z mod 146097;
     yoe = (doe - doe div 1460 + doe div 36524 - doe div 146096) div 365;
     doy = doe - (365 * yoe + yoe div 4 - yoe div 100);
     mp = (5 * doy + 2) div 153;
     d = doy - (153 * mp + 2) div 5 + 1;
     m = (if mp < 10 then mp + 3 else mp - 9);
     y = yoe + era * 400 + (if m \<le> 2 then 1 else 0)
   in (y, m, d))"

definition pad :: "nat \<Rightarrow> int \<Rightarrow> string" where
  "pad w n = (let s = string_of_int n in replicate (w - length s) (CHR ''0'') @ s)"

text \<open>\<open>new Date(ms).toISOString()\<close> for the years 0 to 9999.\<close>

definition toISOString :: "int \<Rightarrow> string" where
  "toISOString ms = (case civil_of_days (ms div 86400000) of (y, m, d) \<Rightarrow>
     let t = ms mod 86400000 in
     pad 4 y @ ''-'' @ pad 2 m @ ''-'' @ pad 2 d @ ''T'' @
     pad 2 (t div 3600000) @ '':'' @ pad 2 (t div 60000 mod 60) @ '':'' @
     pad 2 (t div 1000 mod 60) @ ''.'' @ pad 3 (t mod 1000) @ ''Z'')"

lemma iso_examples:
  "toISOString 0 = ''1970-01-01T00:00:00.000Z''"
  "toISOString 951782400123 = ''2000-02-29T00:00:00.123Z''"
  by code_simp+

end
