(* ===== verification/WrapFetch.thy ===== *)
theory WrapFetch
  imports BalanceCheck Classifier JsText
begin

text \<open>
  \<open>packages/wrap\<close>: the response headers (\<open>headers.ts\<close>), the event sinks (\<open>eventSink.ts\<close>) and
  \<open>wrapFetch\<close> itself. \<open>wrapFetch\<close> is a function of what its awaits return: the balance check's
  answer, the upstream response (\<open>None\<close> when \<open>fetch\<close> throws) and the two clock readings; its
  second result is the list of events it hands to the sink.
\<close>

section \<open>Response headers\<close>

record pact_header_inputs =
  ph_callId :: string
  ph_outcome :: outcome
  ph_premiumLamports :: int
  ph_refundLamports :: int
  ph_latencyMs :: int
  ph_pool :: "string option"
  ph_settlementPending :: bool

definition attachPactHeaders :: "response \<Rightarrow> pact_header_inputs \<Rightarrow> response" where
  "attachPactHeaders resp inputs = (let
     h = hset ''X-Pact-Premium'' (string_of_int (ph_premiumLamports inputs)) (r_headers resp);
     h = hset ''X-Pact-Refund'' (string_of_int (ph_refundLamports inputs)) h;
     h = hset ''X-Pact-Latency-Ms'' (string_of_int (ph_latencyMs inputs)) h;
     h = hset ''X-Pact-Outcome'' (outcome_str (ph_outcome inputs)) h;
     h = (case ph_pool inputs of None \<Rightarrow> h | Some p \<Rightarrow> hset ''X-Pact-Pool'' p h);
     h = (if ph_settlementPending inputs then hset ''X-Pact-Settlement-Pending'' ''1'' h else h);
     h = hset ''X-Pact-Call-Id'' (ph_callId inputs) h
   in resp\<lparr>r_headers := h\<rparr>)"

section \<open>Settlement events\<close>

record settlement_event =
  se_callId :: string
  se_agentPubkey :: string
  se_endpointSlug :: string
  se_premiumLamports :: string
  se_refundLamports :: string
  se_latencyMs :: int
  se_outcome :: outcome
  se_ts :: string
  se_network :: "string option"
  se_verdictSource :: "verdict_source option"

text \<open>The event as the JSON object the sinks serialise and the settler receives.\<close>

definition event_payload :: "settlement_event \<Rightarrow> payload" where
  "event_payload e = obj_of
     [(''callId'', Some (JStr (se_callId e))), (''agentPubkey'', Some (JStr (se_agentPubkey e))),
      (''endpointSlug'', Some (JStr (se_endpointSlug e))),
      (''premiumLamports'', Some (JStr (se_premiumLamports e))),
      (''refundLamports'', Some (JStr (se_refundLamports e))),
      (''latencyMs'', Some (JNum (se_latencyMs e))),
      (''outcome'', Some (JStr (outcome_str (se_outcome e)))), (''ts'', Some (JStr (se_ts e))),
      (''network'', map_option JStr (se_network e)),
      (''verdictSource'', map_option (\<lambda>v. JStr (verdict_str v)) (se_verdictSource e))]"

section \<open>Event sinks\<close>

text \<open>
  Each sink records what it handed over and the errors it reported to \<open>onError\<close>; the answer of
  the transport is an input. No sink has an error result: \<open>publish\<close> never throws.
\<close>

definition memory_publish :: "settlement_event \<Rightarrow> settlement_event list \<Rightarrow> settlement_event list" where
  "memory_publish event events = events @ [event]"

record http_request =
  rq_url :: string
  rq_method :: string
  rq_headers :: headers
  rq_body :: "string option"

record http_sink =
  hs_url :: string
  hs_secret :: "string option"
  hs_sent :: "(http_request \<times> bool) list"
  hs_errors :: "string list"

definition http_event_request :: "http_sink \<Rightarrow> settlement_event \<Rightarrow> http_request" where
  "http_event_request s event =
     \<lparr>rq_url = hs_url s, rq_method = ''POST'',
      rq_headers = [(''content-type'', ''application/json'')] @
        (case hs_secret s of None \<Rightarrow> [] | Some k \<Rightarrow> if k = [] then [] else [(''authorization'', ''Bearer '' @ k)]),
      rq_body = Some (stringify (JObj (event_payload event)))\<rparr>"

definition http_publish :: "http_result \<Rightarrow> settlement_event \<Rightarrow> http_sink \<Rightarrow> http_sink" where
  "http_publish answer event s =
     (case answer of
        FetchThrows e \<Rightarrow> s\<lparr>hs_sent := hs_sent s @ [(http_event_request s event, False)],
                           hs_errors := hs_errors s @ [e]\<rparr>
      | HttpReply st _ \<Rightarrow>
          if 200 \<le> st \<and> st \<le> 299 then s\<lparr>hs_sent := hs_sent s @ [(http_event_request s event, True)]\<rparr>
          else s\<lparr>hs_sent := hs_sent s @ [(http_event_request s event, False)],
                 hs_errors := hs_errors s @
                   [''wrap.HttpEventSink: '' @ hs_url s @ '' returned '' @ string_of_int st]\<rparr>)"

text \<open>
  The Pub/Sub and the Redis Streams sinks await one publisher call, which resolves (\<open>None\<close>) or
  rejects with an error.
\<close>

record pubsub_sink =
  ps_published :: "(settlement_event \<times> (string \<times> string) list option) list"
  ps_errors :: "string list"

definition pubsub_attributes :: "settlement_event \<Rightarrow> (string \<times> string) list option" where
  "pubsub_attributes event =
     (case se_network event of None \<Rightarrow> None
      | Some n \<Rightarrow> if n = [] then None else Some [(''network'', n)])"

definition pubsub_publish :: "string option \<Rightarrow> settlement_event \<Rightarrow> pubsub_sink \<Rightarrow> pubsub_sink" where
  "pubsub_publish rejected event s =
     (case rejected of
        None \<Rightarrow> s\<lparr>ps_published := ps_published s @ [(event, pubsub_attributes event)]\<rparr>
      | Some e \<Rightarrow> s\<lparr>ps_errors := ps_errors s @ [e]\<rparr>)"

record redis_sink =
  rs_stream :: string
  rs_published :: "(string \<times> settlement_event) list"
  rs_errors :: "string list"

definition redis_sink_init :: "string option \<Rightarrow> redis_sink" where
  "redis_sink_init stream = \<lparr>rs_stream = (case stream of None \<Rightarrow> ''pact-settle-events'' | Some s \<Rightarrow> s),
     rs_published = [], rs_errors = []\<rparr>"

definition redis_publish :: "string option \<Rightarrow> settlement_event \<Rightarrow> redis_sink \<Rightarrow> redis_sink" where
  "redis_publish rejected event s =
     (case rejected of
        None \<Rightarrow> s\<lparr>rs_published := rs_published s @ [(rs_stream s, event)]\<rparr>
      | Some e \<Rightarrow> s\<lparr>rs_errors := rs_errors s @ [e]\<rparr>)"

text \<open>
  The contract of a sink: a publish either delivers exactly its event, after those delivered
  before, or reports exactly one error and delivers nothing.
\<close>

locale event_sink =
  fixes publish :: "'answer \<Rightarrow> 'event \<Rightarrow> 's \<Rightarrow> 's"
    and accepted :: "'answer \<Rightarrow> bool"
    and delivered :: "'s \<Rightarrow> 'event list"
    and failures :: "'s \<Rightarrow> nat"
  assumes publish_ok: "accepted a \<Longrightarrow> delivered (publish a e s) = delivered s @ [e] \<and>
            failures (publish a e s) = failures s"
    and publish_fail: "\<not> accepted a \<Longrightarrow> delivered (publish a e s) = delivered s \<and>
            failures (publish a e s) = failures s + 1"
begin

definition publish_all :: "('answer \<times> 'event) list \<Rightarrow> 's \<Rightarrow> 's" where
  "publish_all aes s = foldl (\<lambda>s (a, e). publish a e s) s aes"

lemma delivered_publish_all:
  "delivered (publish_all aes s) = delivered s @ map snd (filter (\<lambda>(a, e). accepted a) aes)"
  unfolding publish_all_def
proof (induction aes arbitrary: s)
  case (Cons ae aes)
  then show ?case using publish_ok publish_fail by (cases ae; cases "accepted (fst ae)") auto
qed simp

lemma nothing_lost_silently:
  "length (delivered (publish_all aes s)) + failures (publish_all aes s) =
     length (delivered s) + failures s + length aes"
  unfolding publish_all_def
proof (induction aes arbitrary: s)
  case (Cons ae aes)
  then show ?case using publish_ok publish_fail by (cases ae; cases "accepted (fst ae)") auto
qed simp

end

interpretation memory_sink: event_sink "\<lambda>_::unit. memory_publish" "\<lambda>_. True" "\<lambda>s. s" "\<lambda>_. 0"
  by unfold_locales (auto simp: memory_publish_def)

interpretation pubsub: event_sink pubsub_publish "\<lambda>r. r = None" "\<lambda>s. map fst (ps_published s)" "\<lambda>s. length (ps_errors s)"
  by unfold_locales (auto simp: pubsub_publish_def)

interpretation redis: event_sink redis_publish "\<lambda>r. r = None" "\<lambda>s. map snd (rs_published s)" "\<lambda>s. length (rs_errors s)"
  by unfold_locales (auto simp: redis_publish_def)

section \<open>wrapFetch\<close>

record endpoint_config =
  ep_slug :: string
  ep_terms :: endpoint_terms

record wrap_options =
  wo_endpointSlug :: string
  wo_walletPubkey :: string
  wo_classifier :: "classifier_input \<Rightarrow> classifier_result"
  wo_endpointConfig :: endpoint_config
  wo_callId :: string
  wo_pool :: "string option"
  wo_network :: "string option"

record wrap_result =
  wr_response :: response
  wr_outcome :: outcome
  wr_premiumLamports :: int
  wr_refundLamports :: int
  wr_latencyMs :: int
  wr_callId :: string

definition json_response :: "int \<Rightarrow> payload \<Rightarrow> response" where
  "json_response st body =
     \<lparr>r_status = st, r_statusText = [], r_headers = [(''content-type'', ''application/json'')],
      r_body = stringify (JObj body)\<rparr>"

text \<open>The early return of a call that is refused before the upstream is contacted.\<close>

definition refused_result :: "wrap_options \<Rightarrow> int \<Rightarrow> payload \<Rightarrow> outcome \<Rightarrow> wrap_result" where
  "refused_result opts st body oc =
     \<lparr>wr_response = attachPactHeaders (json_response st body)
        \<lparr>ph_callId = wo_callId opts, ph_outcome = oc, ph_premiumLamports = 0, ph_refundLamports = 0,
         ph_latencyMs = 0, ph_pool = wo_pool opts, ph_settlementPending = False\<rparr>,
      wr_outcome = oc, wr_premiumLamports = 0, wr_refundLamports = 0, wr_latencyMs = 0,
      wr_callId = wo_callId opts\<rparr>"

definition required_premium :: "wrap_options \<Rightarrow> int" where
  "required_premium opts = flat_premium_lamports (ep_terms (wo_endpointConfig opts))"

definition wrap_event :: "wrap_options \<Rightarrow> classifier_result \<Rightarrow> int \<Rightarrow> int \<Rightarrow> settlement_event" where
  "wrap_event opts classified latencyMs tEnd =
     \<lparr>se_callId = wo_callId opts, se_agentPubkey = wo_walletPubkey opts,
      se_endpointSlug = wo_endpointSlug opts,
      se_premiumLamports = string_of_int (cr_premium classified),
      se_refundLamports = string_of_int (cr_refund classified),
      se_latencyMs = latencyMs, se_outcome = cr_outcome classified, se_ts = toISOString tEnd,
      se_network = Some (case wo_network opts of None \<Rightarrow> ''solana-devnet'' | Some n \<Rightarrow> n),
      se_verdictSource = Some PactObserved\<rparr>"

definition forward_upstream ::
    "wrap_options \<Rightarrow> response option \<Rightarrow> int \<Rightarrow> int \<Rightarrow> wrap_result \<times> settlement_event list" where
  "forward_upstream opts upstream tStart tEnd =
     (let latencyMs = max 0 (tEnd - tStart);
          classified = wo_classifier opts \<lparr>ci_response = upstream, ci_latencyMs = latencyMs,
             ci_endpointConfig = ep_terms (wo_endpointConfig opts)\<rparr>;
          baseResponse = (case upstream of Some r \<Rightarrow> r
             | None \<Rightarrow> json_response 502 [(''error'', JStr ''upstream_unreachable''),
                                          (''callId'', JStr (wo_callId opts))])
      in (\<lparr>wr_response = attachPactHeaders baseResponse
             \<lparr>ph_callId = wo_callId opts, ph_outcome = cr_outcome classified,
              ph_premiumLamports = cr_premium classified, ph_refundLamports = cr_refund classified,
              ph_latencyMs = latencyMs, ph_pool = wo_pool opts, ph_settlementPending = True\<rparr>,
           wr_outcome = cr_outcome classified, wr_premiumLamports = cr_premium classified,
           wr_refundLamports = cr_refund classified, wr_latencyMs = latencyMs,
           wr_callId = wo_callId opts\<rparr>,
          [wrap_event opts classified latencyMs tEnd]))"

definition wrapFetch ::
    "wrap_options \<Rightarrow> (string + balance_result) option \<Rightarrow> response option \<Rightarrow> int \<Rightarrow> int \<Rightarrow>
     wrap_result \<times> settlement_event list" where
  "wrapFetch opts balance upstream tStart tEnd =
     (case balance of
        Some (Inl err) \<Rightarrow>
          (refused_result opts 503
             [(''error'', JStr ''balance_check_failed''), (''message'', JStr err),
              (''callId'', JStr (wo_callId opts))] ServerError, [])
      | Some (Inr (Ineligible reason ataBalance allowance)) \<Rightarrow>
          (refused_result opts 402 (obj_of
             [(''error'', Some (JStr ''payment_required'')), (''reason'', Some (JStr (reason_str reason))),
              (''callId'', Some (JStr (wo_callId opts))),
              (''ataBalance'', map_option (\<lambda>b. JStr (string_of_int b)) ataBalance),
              (''allowance'', map_option (\<lambda>a. JStr (string_of_int a)) allowance),
              (''requiredLamports'', Some (JStr (string_of_int (required_premium opts))))]) ClientError, [])
      | _ \<Rightarrow> forward_upstream opts upstream tStart tEnd)"

section \<open>Lemmas\<close>

lemma to_lower_headers [simp]:
  "to_lower ''X-Pact-Premium'' = ''x-pact-premium''" "to_lower ''X-Pact-Refund'' = ''x-pact-refund''"
  "to_lower ''X-Pact-Latency-Ms'' = ''x-pact-latency-ms''" "to_lower ''X-Pact-Outcome'' = ''x-pact-outcome''"
  "to_lower ''X-Pact-Pool'' = ''x-pact-pool''" "to_lower ''X-Pact-Call-Id'' = ''x-pact-call-id''"
  "to_lower ''X-Pact-Settlement-Pending'' = ''x-pact-settlement-pending''"
  "to_lower ''content-type'' = ''content-type''"
  by code_simp+

lemma attach_status [simp]:
  "r_status (attachPactHeaders r i) = r_status r" "r_body (attachPactHeaders r i) = r_body r"
  "r_statusText (attachPactHeaders r i) = r_statusText r"
  by (simp_all add: attachPactHeaders_def Let_def)

lemma attach_values [simp]:
  "hget (r_headers (attachPactHeaders r i)) ''X-Pact-Premium'' = Some (string_of_int (ph_premiumLamports i))"
  "hget (r_headers (attachPactHeaders r i)) ''X-Pact-Refund'' = Some (string_of_int (ph_refundLamports i))"
  "hget (r_headers (attachPactHeaders r i)) ''X-Pact-Latency-Ms'' = Some (string_of_int (ph_latencyMs i))"
  "hget (r_headers (attachPactHeaders r i)) ''X-Pact-Outcome'' = Some (outcome_str (ph_outcome i))"
  "hget (r_headers (attachPactHeaders r i)) ''X-Pact-Call-Id'' = Some (ph_callId i)"
  "hget (r_headers (attachPactHeaders r i)) ''X-Pact-Settlement-Pending'' =
     (if ph_settlementPending i then Some ''1'' else hget (r_headers r) ''X-Pact-Settlement-Pending'')"
  by (simp_all add: attachPactHeaders_def Let_def split: option.split)

definition pact_header_names :: "string set" where
  "pact_header_names = {''x-pact-premium'', ''x-pact-refund'', ''x-pact-latency-ms'', ''x-pact-outcome'',
     ''x-pact-pool'', ''x-pact-settlement-pending'', ''x-pact-call-id''}"

lemma attach_frame:
  "to_lower n \<notin> pact_header_names \<Longrightarrow> hget (r_headers (attachPactHeaders r i)) n = hget (r_headers r) n"
  by (simp add: attachPactHeaders_def pact_header_names_def Let_def split: option.split)

definition balance_admits :: "(string + balance_result) option \<Rightarrow> bool" where
  "balance_admits bal = (case bal of None \<Rightarrow> True | Some (Inr (Eligible _ _)) \<Rightarrow> True | _ \<Rightarrow> False)"

lemma wrapFetch_admitted:
  "balance_admits bal \<Longrightarrow> wrapFetch opts bal up t0 t1 = forward_upstream opts up t0 t1"
  by (auto simp: balance_admits_def wrapFetch_def split: option.splits sum.splits balance_result.splits)

lemma wrapFetch_refused:
  assumes "\<not> balance_admits bal"
  obtains st body oc where "wrapFetch opts bal up t0 t1 = (refused_result opts st body oc, [])" "st \<in> {402, 503}"
  using assms that
  by (fastforce simp: balance_admits_def wrapFetch_def split: option.splits sum.splits balance_result.splits)

lemma wrapFetch_refused_events: "\<not> balance_admits bal \<Longrightarrow> snd (wrapFetch opts bal up t0 t1) = []"
  by (erule wrapFetch_refused [where opts = opts and up = up and ?t0.0 = t0 and ?t1.0 = t1]) simp

section \<open>Properties\<close>

text \<open>
  A call is billed exactly when it was attempted. Without a balance check, or when it says
  eligible, one event is published; its amounts, outcome and call id are those of the returned
  result and of the \<open>X-Pact-*\<close> headers, in decimal forms that parse back. When the check refuses
  or fails nothing is published, both amounts are zero, the status is 402 or 503 and the response
  does not announce a pending settlement.
\<close>

theorem wrapFetch_bills_attempts_only:
  "case wrapFetch opts bal up t0 t1 of (res, evs) \<Rightarrow>
     wr_callId res = wo_callId opts \<and>
     hget (r_headers (wr_response res)) ''X-Pact-Outcome'' = Some (outcome_str (wr_outcome res)) \<and>
     (if balance_admits bal
      then \<exists>e. evs = [e] \<and> se_callId e = wo_callId opts \<and> se_agentPubkey e = wo_walletPubkey opts \<and>
         bigint_of_string (se_premiumLamports e) = Some (wr_premiumLamports res) \<and>
         bigint_of_string (se_refundLamports e) = Some (wr_refundLamports res) \<and>
         se_outcome e = wr_outcome res \<and> se_verdictSource e = Some PactObserved \<and>
         hget (r_headers (wr_response res)) ''X-Pact-Premium'' = Some (se_premiumLamports e) \<and>
         hget (r_headers (wr_response res)) ''X-Pact-Refund'' = Some (se_refundLamports e) \<and>
         hget (r_headers (wr_response res)) ''X-Pact-Settlement-Pending'' = Some ''1'' \<and>
         r_status (wr_response res) = (case up of Some r \<Rightarrow> r_status r | None \<Rightarrow> 502)
      else evs = [] \<and> wr_premiumLamports res = 0 \<and> wr_refundLamports res = 0 \<and>
         r_status (wr_response res) \<in> {402, 503} \<and>
         hget (r_headers (wr_response res)) ''X-Pact-Settlement-Pending'' = None)"
proof (cases "balance_admits bal")
  case True
  then show ?thesis
    by (simp add: wrapFetch_admitted forward_upstream_def wrap_event_def json_response_def Let_def
        split: option.split)
next
  case False
  then obtain st body oc where r: "wrapFetch opts bal up t0 t1 = (refused_result opts st body oc, [])"
    and "st \<in> {402, 503}" by (rule wrapFetch_refused)
  with False show ?thesis
    by (auto simp: refused_result_def json_response_def hget_def [of "[(''content-type'', v)]" for v])
qed

text \<open>
  C4: what is billed was collectable. When the call went through the default balance check, for
  any classifier of the registry and any upstream behaviour, the premium of a published event is
  non-negative and covered by both the balance and the delegated allowance the check saw.
\<close>

theorem billed_premium_was_collectable:
  assumes "wo_classifier opts = run_classifier fac body"
    and "terms_ok (ep_terms (wo_endpointConfig opts))"
    and "e \<in> set (snd (wrapFetch opts
           (Some (Inr (snd (admit cache (wo_walletPubkey opts) entry (required_premium opts))))) up t0 t1))"
  shows "\<exists>p. bigint_of_string (se_premiumLamports e) = Some p \<and> 0 \<le> p \<and>
           p \<le> ce_ataBalance entry \<and> p \<le> ce_allowance entry"
proof -
  let ?ans = "snd (admit cache (wo_walletPubkey opts) entry (required_premium opts))"
  have adm: "balance_admits (Some (Inr ?ans))"
    using assms(3) by (rule_tac ccontr) (simp add: wrapFetch_refused_events)
  then obtain b al where "?ans = Eligible b al"
    by (auto simp: balance_admits_def split: balance_result.splits)
  then have cover: "required_premium opts \<le> ce_ataBalance entry" "required_premium opts \<le> ce_allowance entry"
    by (auto simp: admit_def split: if_splits)
  let ?inp = "\<lparr>ci_response = up, ci_latencyMs = max 0 (t1 - t0), ci_endpointConfig = ep_terms (wo_endpointConfig opts)\<rparr>"
  have "cr_premium (run_classifier fac body ?inp) \<in> {0, required_premium opts}"
    using market_c.client_error_free [of fac body ?inp] market_c.charged_flat [of fac body ?inp]
    by (auto simp: required_premium_def)
  with cover assms adm show ?thesis
    by (auto simp: wrapFetch_admitted forward_upstream_def wrap_event_def Let_def required_premium_def)
qed

theorem billed_premium_was_collectable_witness:
  "let opts = \<lparr>wo_endpointSlug = ''helius'', wo_walletPubkey = ''A'', wo_classifier = run_classifier Static None,
        wo_endpointConfig = \<lparr>ep_slug = ''helius'', ep_terms =
          \<lparr>sla_latency_ms = 100, flat_premium_lamports = 10, imputed_cost_lamports = 50\<rparr>\<rparr>,
        wo_callId = ''c'', wo_pool = None, wo_network = None\<rparr>;
       entry = \<lparr>expiresAt = 3000, ce_ataBalance = 25, ce_allowance = 12, noAta = False\<rparr>
   in \<exists>e. snd (wrapFetch opts (Some (Inr (snd (admit [] ''A'' entry (required_premium opts))))) None 5 17) = [e] \<and>
        (\<exists>p. bigint_of_string (se_premiumLamports e) = Some p \<and> 0 \<le> p \<and> p \<le> 25 \<and> p \<le> 12)"
proof -
  let ?opts = "\<lparr>wo_endpointSlug = ''helius'', wo_walletPubkey = ''A'', wo_classifier = run_classifier Static None,
        wo_endpointConfig = \<lparr>ep_slug = ''helius'', ep_terms =
          \<lparr>sla_latency_ms = 100, flat_premium_lamports = 10, imputed_cost_lamports = 50\<rparr>\<rparr>,
        wo_callId = ''c'', wo_pool = None, wo_network = None\<rparr>"
  let ?entry = "\<lparr>expiresAt = 3000, ce_ataBalance = 25, ce_allowance = 12, noAta = False\<rparr>"
  have "balance_admits (Some (Inr (snd (admit [] ''A'' ?entry (required_premium ?opts)))))"
    by (simp add: balance_admits_def admit_def required_premium_def)
  then obtain e where e: "snd (wrapFetch ?opts (Some (Inr (snd (admit [] ''A'' ?entry (required_premium ?opts))))) None 5 17) = [e]"
    by (auto simp: wrapFetch_admitted forward_upstream_def Let_def)
  with billed_premium_was_collectable [of ?opts Static None e "[]" ?entry None 5 17]
  show ?thesis by (simp add: Let_def)
qed

end
