(* ===== verification/ProxyHttp.thy ===== *)
theory ProxyHttp
  imports ProxyCaches WrapFetch
begin

text \<open>
  The request and response plumbing of \<open>packages/market-proxy\<close>: header sanitising in both
  directions, the per-endpoint handlers, the buffered fetch shim, demo-breach delays, the beta
  gate, the call lookup's id check, the sink factory and network parsing. A URL is its scheme,
  host, path and decoded query pairs; percent-encoding is not modelled.
\<close>

section \<open>Headers\<close>

definition STRIPPED_HEADERS :: "string list" where
  "STRIPPED_HEADERS =
     [''set-cookie'', ''server'', ''via'', ''x-powered-by'', ''x-aspnet-version'', ''x-aspnetmvc-version'',
      ''access-control-allow-origin'', ''access-control-allow-credentials'', ''access-control-allow-methods'',
      ''access-control-allow-headers'', ''access-control-expose-headers'', ''access-control-max-age'']"

fun copy_headers :: "(string \<Rightarrow> bool) \<Rightarrow> headers \<Rightarrow> headers \<Rightarrow> headers" where
  "copy_headers keep [] out = out"
| "copy_headers keep ((n, v) # hs) out =
     copy_headers keep hs (if keep (to_lower n) then hset n v out else out)"

definition sanitiseUpstreamResponseHeaders :: "bool option \<Rightarrow> headers \<Rightarrow> headers" where
  "sanitiseUpstreamResponseHeaders applyCors upstream =
     (let out = copy_headers (\<lambda>n. n \<notin> set STRIPPED_HEADERS) upstream []
      in if applyCors \<noteq> Some False then hset ''Access-Control-Allow-Origin'' ''*'' out else out)"

definition buildSanitisedResponse :: "response \<Rightarrow> headers \<Rightarrow> bool option \<Rightarrow> response" where
  "buildSanitisedResponse source extraHeaders applyCors =
     source\<lparr>r_headers := copy_headers (\<lambda>_. True) extraHeaders
       (sanitiseUpstreamResponseHeaders applyCors (r_headers source))\<rparr>"

definition BASE_ALLOWED :: "string list" where
  "BASE_ALLOWED = [''content-type'', ''accept'', ''accept-encoding'', ''user-agent'']"

definition ALWAYS_DENIED :: "string list" where
  "ALWAYS_DENIED = [''authorization'', ''cookie'', ''set-cookie'', ''proxy-authorization'', ''x-forwarded-for'',
     ''x-forwarded-host'', ''x-forwarded-proto'', ''x-real-ip'', ''host'']"

definition forwards :: "string list \<Rightarrow> string \<Rightarrow> bool" where
  "forwards extraAllowed n \<longleftrightarrow>
     n \<notin> set ALWAYS_DENIED \<and> (n \<in> set BASE_ALLOWED \<or> n \<in> set extraAllowed)"

definition buildUpstreamHeaders :: "headers \<Rightarrow> string list \<Rightarrow> headers" where
  "buildUpstreamHeaders incoming extraAllowed = copy_headers (forwards extraAllowed) incoming []"

section \<open>Requests and URLs\<close>

record url =
  u_scheme :: string
  u_host :: string
  u_path :: string
  u_query :: "(string \<times> string) list"

record request =
  q_method :: string
  q_url :: url
  q_headers :: headers
  q_body :: "string option"
  q_json :: "json option"

text \<open>\<open>q_json\<close> is the parse of the body, \<open>None\<close> when it is not JSON.\<close>

text \<open>
  \<open>new URL(path + search, base)\<close> for a path that begins with a slash: two leading slashes make
  it a scheme-relative reference, whose next component is a host (further slashes are skipped, an
  empty host throws).
\<close>

definition resolve_url :: "string \<Rightarrow> (string \<times> string) list \<Rightarrow> url \<Rightarrow> string + url" where
  "resolve_url path query base =
     (if starts_with ''//'' path then
        (let rest = dropWhile (\<lambda>c. c = CHR ''/'') path;
             host = takeWhile (\<lambda>c. c \<noteq> CHR ''/'') rest;
             p = dropWhile (\<lambda>c. c \<noteq> CHR ''/'') rest
         in if host = [] then Inl ''TypeError''
            else Inr \<lparr>u_scheme = u_scheme base, u_host = host, u_path = (if p = [] then ''/'' else p), u_query = query\<rparr>)
      else Inr \<lparr>u_scheme = u_scheme base, u_host = u_host base, u_path = path, u_query = query\<rparr>)"

text \<open>\<open>scheme://host/...\<close> of a configured base; its own path is dropped by an absolute path.\<close>

definition parse_base :: "string \<Rightarrow> string + url" where
  "parse_base s =
     (let scheme = takeWhile (\<lambda>c. c \<noteq> CHR '':'') s; rest = drop (length scheme) s in
      if starts_with ''://'' rest then
        (let host = takeWhile (\<lambda>c. c \<noteq> CHR ''/'' \<and> c \<noteq> CHR ''?'' \<and> c \<noteq> CHR ''#'') (drop 3 rest) in
         if host = [] then Inl ''TypeError''
         else Inr \<lparr>u_scheme = scheme, u_host = host, u_path = ''/'', u_query = []\<rparr>)
      else Inl ''TypeError'')"

definition query_delete :: "string \<Rightarrow> (string \<times> string) list \<Rightarrow> (string \<times> string) list" where
  "query_delete k q = filter (\<lambda>(k', _). k' \<noteq> k) q"

definition strip_pact_params :: "url \<Rightarrow> url" where
  "strip_pact_params u = u\<lparr>u_query := query_delete ''demo_breach'' (query_delete ''pact_wallet'' (u_query u))\<rparr>"

section \<open>Endpoint handlers\<close>

datatype handler = Helius | Birdeye | Jupiter | Elfa | Fal | Moralis | Covalent | Dummy

definition handlerRegistry :: "string \<Rightarrow> handler option" where
  "handlerRegistry slug = map_of
     [(''helius'', Helius), (''birdeye'', Birdeye), (''jupiter'', Jupiter), (''elfa'', Elfa), (''fal'', Fal),
      (''moralis'', Moralis), (''covalent'', Covalent), (''dummy'', Dummy)] slug"

fun EXTRA_ALLOWED :: "handler \<Rightarrow> string list" where
  "EXTRA_ALLOWED Birdeye = [''x-api-key'']"
| "EXTRA_ALLOWED Moralis = [''x-api-key'']"
| "EXTRA_ALLOWED Covalent = [''authorization'']"
| "EXTRA_ALLOWED _ = []"

text \<open>\<open>url.pathname.replace(/^\/v1\/[^/]+/, "") || "/"\<close>.\<close>

definition strip_gateway_prefix :: "string \<Rightarrow> string" where
  "strip_gateway_prefix path =
     (if starts_with ''/v1/'' path \<and> takeWhile (\<lambda>c. c \<noteq> CHR ''/'') (drop 4 path) \<noteq> [] then
        (let rest = dropWhile (\<lambda>c. c \<noteq> CHR ''/'') (drop 4 path) in if rest = [] then ''/'' else rest)
      else if path = [] then ''/'' else path)"

definition forward_to :: "handler \<Rightarrow> request \<Rightarrow> url \<Rightarrow> request" where
  "forward_to h req u =
     req\<lparr>q_url := u, q_headers := buildUpstreamHeaders (q_headers req) (EXTRA_ALLOWED h)\<rparr>"

definition inject_api_key :: "string option \<Rightarrow> url \<Rightarrow> url" where
  "inject_api_key key u =
     (if (\<exists>p \<in> set (u_query u). fst p = ''api-key'') then u
      else case key of None \<Rightarrow> u
        | Some k \<Rightarrow> if k = [] then u else u\<lparr>u_query := u_query u @ [(''api-key'', k)]\<rparr>)"

text \<open>\<open>buildRequest\<close> of each handler; \<open>heliusKey\<close> is \<open>PACT_HELIUS_API_KEY\<close>.\<close>

definition buildRequest :: "handler \<Rightarrow> string option \<Rightarrow> request \<Rightarrow> string \<Rightarrow> string + request" where
  "buildRequest h heliusKey req upstreamBase =
     (case parse_base upstreamBase of Inl e \<Rightarrow> Inl e
      | Inr base \<Rightarrow>
          let path = (if h = Dummy then strip_gateway_prefix (u_path (q_url req)) else u_path (q_url req)) in
          case resolve_url path (u_query (q_url req)) base of Inl e \<Rightarrow> Inl e
          | Inr u \<Rightarrow>
              let u' = strip_pact_params u;
                  u'' = (if h = Helius then inject_api_key heliusKey u' else u')
              in Inr (forward_to h req u''))"

definition INSURABLE_METHODS :: "string list" where
  "INSURABLE_METHODS = [''getAccountInfo'', ''sendTransaction'', ''getTransaction'', ''getBalance'',
     ''getSignatureStatuses'', ''getProgramAccounts'']"

definition isInsurableMethod :: "handler \<Rightarrow> request \<Rightarrow> bool" where
  "isInsurableMethod h req =
     (if h = Helius then
        (case js_member (q_json req) ''method'' of
           Some (JStr m) \<Rightarrow> m \<in> set INSURABLE_METHODS | _ \<Rightarrow> False)
      else True)"

section \<open>Buffered fetch and demo breach\<close>

record buffered_state =
  bf_parsed :: "json option"
  bf_raw :: "string option"

text \<open>
  The shim's \<open>fetchImpl\<close>: \<open>reply\<close> is the upstream response with the parse of its text, \<open>None\<close> when
  the fetch throws. \<open>JSON.parse\<close> is only tried on a JSON content type.
\<close>

definition buffered_fetch ::
    "(response \<times> json option) option \<Rightarrow> buffered_state \<Rightarrow> buffered_state \<times> response option" where
  "buffered_fetch reply s =
     (case reply of None \<Rightarrow> (s, None)
      | Some (resp, parsed) \<Rightarrow>
          let ct = (case hget (r_headers resp) ''content-type'' of None \<Rightarrow> [] | Some v \<Rightarrow> v);
              s' = s\<lparr>bf_raw := Some (r_body resp)\<rparr>
          in (if has_substring ''application/json'' ct then s'\<lparr>bf_parsed := parsed\<rparr> else s', Some resp))"

definition buffered_init :: buffered_state where
  "buffered_init = \<lparr>bf_parsed = None, bf_raw = None\<rparr>"

definition computeDemoBreachDelayMs ::
    "bool \<Rightarrow> string option \<Rightarrow> int \<Rightarrow> string + string list \<Rightarrow> int \<Rightarrow> allowlist \<Rightarrow> endpoint_row \<Rightarrow>
     allowlist \<times> (string + int)" where
  "computeDemoBreachDelayMs demoBreach wallet now rows now' al endpoint =
     (case wallet of
        Some (c # w) \<Rightarrow>
          if demoBreach then
            (case allowlist_has (c # w) now rows now' al of
               (al', Inl e) \<Rightarrow> (al', Inl e)
             | (al', Inr allowed) \<Rightarrow> (al', Inr (if allowed then er_slaLatencyMs endpoint + 300 else 0)))
          else (al, Inr 0)
      | _ \<Rightarrow> (al, Inr 0))"

section \<open>Beta gate, call ids, sinks, networks\<close>

record api_key_row =
  ak_id :: string
  ak_betaApplicantId :: "string option"
  ak_status :: string

datatype gate_result =
    GatePass
  | GateIdentified string "string option"
  | GateDenied string
  | GateThrows string

text \<open>
  \<open>requireBetaKey\<close>: \<open>flag\<close> is the reader's answer, \<open>sha256\<close> the hash, \<open>lookup\<close> the row query on
  \<open>api_keys\<close> (an exception is \<open>Inl\<close>).
\<close>

definition requireBetaKey ::
    "string + bool \<Rightarrow> (string \<Rightarrow> string) \<Rightarrow> (string \<Rightarrow> string + api_key_row list) \<Rightarrow> headers \<Rightarrow> gate_result" where
  "requireBetaKey flag sha256 lookup hs =
     (case flag of Inl e \<Rightarrow> GateThrows e
      | Inr False \<Rightarrow> GatePass
      | Inr True \<Rightarrow>
          (case hget hs ''authorization'' of
             None \<Rightarrow> GateDenied ''missing_bearer''
           | Some auth \<Rightarrow>
               if \<not> starts_with ''Bearer '' auth then GateDenied ''missing_bearer''
               else let plaintext = trim (drop 7 auth) in
                 if plaintext = [] then GateDenied ''empty_bearer''
                 else case lookup (sha256 plaintext) of
                   Inl e \<Rightarrow> GateDenied ''db_error''
                 | Inr [] \<Rightarrow> GateDenied ''unknown_key''
                 | Inr (row # _) \<Rightarrow>
                     if ak_status row \<noteq> ''active'' then GateDenied ''inactive_key''
                     else GateIdentified (ak_id row) (ak_betaApplicantId row)))"

definition is_hex :: "char \<Rightarrow> bool" where
  "is_hex c \<longleftrightarrow> hex_val c \<noteq> None"

definition hex_group :: "nat \<Rightarrow> string \<Rightarrow> bool" where
  "hex_group n s \<longleftrightarrow> length s = n \<and> list_all is_hex s"

text \<open>\<open>CALL_ID_RE\<close>: a version 4 UUID, in either case.\<close>

definition CALL_ID_RE :: "string \<Rightarrow> bool" where
  "CALL_ID_RE s =
     (case split_on (CHR ''-'') s of
        [a, b, c, d, e] \<Rightarrow>
          hex_group 8 a \<and> hex_group 4 b \<and> hex_group 4 c \<and> take 1 c = ''4'' \<and> hex_group 4 d \<and>
          hd d \<in> set ''89abAB'' \<and> hex_group 12 e
      | _ \<Rightarrow> False)"

datatype sink_kind = PubSubSink string string | RedisSink string string

definition nonempty :: "string option \<Rightarrow> bool" where
  "nonempty v \<longleftrightarrow> v \<noteq> None \<and> v \<noteq> Some []"

definition createEventSink ::
    "string option \<Rightarrow> string option \<Rightarrow> string option \<Rightarrow> string option \<Rightarrow> string option \<Rightarrow> string + sink_kind" where
  "createEventSink backend0 project topic redisUrl redisStream =
     (let backend = (case backend0 of None \<Rightarrow> ''pubsub'' | Some b \<Rightarrow> b) in
      if backend = ''redis-streams'' then
        (if nonempty redisUrl \<and> nonempty redisStream then Inr (RedisSink (the redisUrl) (the redisStream))
         else Inl ''createEventSink: QUEUE_BACKEND=redis-streams requires REDIS_URL and REDIS_STREAM'')
      else if backend = ''pubsub'' then
        (if nonempty project \<and> nonempty topic then Inr (PubSubSink (the project) (the topic))
         else Inl ''createEventSink: QUEUE_BACKEND=pubsub requires PUBSUB_PROJECT and PUBSUB_TOPIC'')
      else Inl (''createEventSink: unknown QUEUE_BACKEND='' @ [CHR 0x22] @ backend @ [CHR 0x22]))"

definition parseEnabledNetworks :: "string option \<Rightarrow> string list" where
  "parseEnabledNetworks raw =
     filter (\<lambda>s. s \<noteq> []) (map trim (split_on (CHR '','') (case raw of None \<Rightarrow> ''solana-devnet'' | Some s \<Rightarrow> s)))"

definition hasSolanaNetwork :: "string option \<Rightarrow> bool" where
  "hasSolanaNetwork raw \<longleftrightarrow> list_ex (starts_with ''solana'') (parseEnabledNetworks raw)"

section \<open>Lemmas\<close>

lemma hget_copy_denied:
  "\<not> keep (to_lower n) \<Longrightarrow> hget (copy_headers keep hs out) n = hget out n"
  by (induction keep hs out rule: copy_headers.induct) auto

lemma copy_headers_sound:
  "hget (copy_headers keep hs out) n = Some v \<Longrightarrow>
     hget out n = Some v \<or> (keep (to_lower n) \<and> (\<exists>k. (k, v) \<in> set hs \<and> to_lower k = to_lower n))"
  by (induction keep hs out rule: copy_headers.induct) (auto split: if_splits)

lemma copy_all_extra:
  "distinct (map (\<lambda>p. to_lower (fst p)) hs) \<Longrightarrow> (k, v) \<in> set hs \<Longrightarrow> hget (copy_headers (\<lambda>_. True) hs out) k = Some v"
proof (induction hs arbitrary: out)
  case (Cons p hs)
  have other: "hget (copy_headers (\<lambda>_. True) hs out') k = hget out' k" if "to_lower k \<notin> (\<lambda>p. to_lower (fst p)) ` set hs" for out' hs
    using that by (induction hs arbitrary: out') (auto split: if_splits)
  show ?case
    using Cons other [of hs] by (cases p) (auto simp: image_iff split: if_splits)
qed simp

lemma resolve_same_host:
  assumes "resolve_url path q base = Inr u" "\<not> starts_with ''//'' path"
  shows "u_host u = u_host base" "u_scheme u = u_scheme base" "u_path u = path"
  using assms by (auto simp: resolve_url_def)

lemma strip_params_host [simp]:
  "u_host (strip_pact_params u) = u_host u" "u_scheme (strip_pact_params u) = u_scheme u"
  "u_path (strip_pact_params u) = u_path u"
  by (simp_all add: strip_pact_params_def)

lemma inject_host [simp]:
  "u_host (inject_api_key k u) = u_host u" "u_scheme (inject_api_key k u) = u_scheme u"
  "u_path (inject_api_key k u) = u_path u"
  by (simp_all add: inject_api_key_def split: option.split)

lemma v1_path_single_slash: "starts_with ''/v1/'' p \<Longrightarrow> \<not> starts_with ''//'' p"
  by (auto simp: starts_with_iff)

lemma build_request_headers:
  assumes "buildRequest h key req base = Inr r"
  shows "q_headers r = buildUpstreamHeaders (q_headers req) (EXTRA_ALLOWED h)"
    and "q_method r = q_method req" and "q_body r = q_body req"
  using assms by (auto simp: buildRequest_def forward_to_def Let_def split: sum.splits)

section \<open>Properties\<close>

text \<open>
  C5: caller identity never reaches an upstream. Whatever the handler, a request it builds carries
  none of the denied headers (so Covalent's own allowance of \<open>authorization\<close> has no effect), and
  every header it carries was sent by the caller under a name the handler forwards.
\<close>

theorem caller_identity_not_forwarded:
  assumes "buildRequest h key req base = Inr r"
  shows "(to_lower n \<in> set ALWAYS_DENIED \<longrightarrow> hget (q_headers r) n = None) \<and>
    (hget (q_headers r) n = Some v \<longrightarrow> forwards (EXTRA_ALLOWED h) (to_lower n) \<and>
       (\<exists>k. (k, v) \<in> set (q_headers req) \<and> to_lower k = to_lower n))"
proof -
  have hs: "q_headers r = copy_headers (forwards (EXTRA_ALLOWED h)) (q_headers req) []"
    by (simp add: build_request_headers [OF assms] buildUpstreamHeaders_def)
  have "hget (q_headers r) n = None" if "to_lower n \<in> set ALWAYS_DENIED"
    unfolding hs by (subst hget_copy_denied) (use that in \<open>simp_all add: forwards_def\<close>)
  moreover have "forwards (EXTRA_ALLOWED h) (to_lower n) \<and> (\<exists>k. (k, v) \<in> set (q_headers req) \<and> to_lower k = to_lower n)"
    if "hget (q_headers r) n = Some v"
    using copy_headers_sound [OF that [unfolded hs]] by simp
  ultimately show ?thesis by blast
qed

abbreviation sample_request :: "string \<Rightarrow> request" where
  "sample_request path \<equiv> \<lparr>q_method = ''GET'', q_url = \<lparr>u_scheme = ''https'', u_host = ''p'', u_path = path, u_query = []\<rparr>,
     q_headers = [(''authorization'', ''secret''), (''accept'', ''*'')], q_body = None, q_json = None\<rparr>"

theorem caller_identity_not_forwarded_witness:
  "\<exists>r. buildRequest Covalent None (sample_request ''/v1/covalent/x'') ''https://c'' = Inr r \<and>
     hget (q_headers r) ''authorization'' = None"
proof -
  obtain r where r: "buildRequest Covalent None (sample_request ''/v1/covalent/x'') ''https://c'' = Inr r"
    by (simp add: buildRequest_def parse_base_def resolve_url_def starts_with_def Let_def)
  have "to_lower ''authorization'' \<in> set ALWAYS_DENIED" by code_simp
  with caller_identity_not_forwarded [OF r] r show ?thesis by blast
qed

text \<open>
  C6: requests stay on the configured host. For a request routed under \<open>/v1/\<close>, every handler
  except the dummy one sends it to the scheme and host of the endpoint's upstream base, with the
  path unchanged, without the two pact query parameters.
\<close>

theorem upstream_host_pinned:
  assumes "buildRequest h key req base = Inr r" and "h \<noteq> Dummy" and "starts_with ''/v1/'' (u_path (q_url req))"
  shows "\<exists>b. parse_base base = Inr b \<and> u_host (q_url r) = u_host b \<and> u_scheme (q_url r) = u_scheme b \<and>
    u_path (q_url r) = u_path (q_url req) \<and>
    (\<forall>v. (''pact_wallet'', v) \<notin> set (u_query (q_url r)) \<and> (''demo_breach'', v) \<notin> set (u_query (q_url r)))"
  using assms v1_path_single_slash [OF assms(3)]
  by (auto simp: buildRequest_def forward_to_def Let_def resolve_same_host inject_api_key_def
      strip_pact_params_def query_delete_def split: sum.splits if_splits option.splits)

theorem upstream_host_pinned_witness:
  "\<exists>r. buildRequest Jupiter None (sample_request ''/v1/jupiter//evil.com/x'') ''https://j'' = Inr r \<and>
     u_host (q_url r) = ''j''"
proof -
  obtain r where r: "buildRequest Jupiter None (sample_request ''/v1/jupiter//evil.com/x'') ''https://j'' = Inr r"
    by (simp add: buildRequest_def parse_base_def resolve_url_def starts_with_def Let_def)
  from upstream_host_pinned [OF r] r show ?thesis
    by (auto simp: starts_with_def parse_base_def)
qed

text \<open>
  The dummy handler lets the caller choose the upstream host. Removing the gateway prefix from
  \<open>/v1/dummy//host/...\<close> leaves a scheme-relative reference, so the request goes to that host
  whatever the endpoint's upstream base is.
\<close>

theorem dummy_upstream_host_escape:
  assumes "parse_base base = Inr b" and "host \<noteq> []" and "CHR ''/'' \<notin> set host"
    and "u_path (q_url req) = ''/v1/dummy//'' @ host @ ''/'' @ tail"
  shows "\<exists>r. buildRequest Dummy key req base = Inr r \<and> u_host (q_url r) = host \<and> u_path (q_url r) = CHR ''/'' # tail"
proof -
  have p: "strip_gateway_prefix (u_path (q_url req)) = ''//'' @ host @ ''/'' @ tail"
    by (simp add: assms(4) strip_gateway_prefix_def starts_with_def)
  have d: "dropWhile (\<lambda>c. c = CHR ''/'') (''//'' @ host @ ''/'' @ tail) = host @ CHR ''/'' # tail"
    using assms(2,3) by (cases host) auto
  have "resolve_url (''//'' @ host @ ''/'' @ tail) q b =
      Inr \<lparr>u_scheme = u_scheme b, u_host = host, u_path = CHR ''/'' # tail, u_query = q\<rparr>" for q
  proof -
    have "takeWhile (\<lambda>c. c \<noteq> CHR ''/'') (host @ CHR ''/'' # tail) = host"
      "dropWhile (\<lambda>c. c \<noteq> CHR ''/'') (host @ CHR ''/'' # tail) = CHR ''/'' # tail"
      using assms(3) by (induction host) auto
    with d assms(2) show ?thesis by (simp add: resolve_url_def starts_with_def Let_def)
  qed
  then show ?thesis
    by (simp add: buildRequest_def assms(1) p forward_to_def Let_def)
qed

theorem dummy_upstream_host_escape_witness:
  "\<exists>r. buildRequest Dummy None (sample_request ''/v1/dummy//evil.com/fail'') ''https://dummy.pactnetwork.io'' = Inr r \<and>
     u_host (q_url r) = ''evil.com''"
  using dummy_upstream_host_escape [of "''https://dummy.pactnetwork.io''"
      "\<lparr>u_scheme = ''https'', u_host = ''dummy.pactnetwork.io'', u_path = ''/'', u_query = []\<rparr>" "''evil.com''"
      "sample_request ''/v1/dummy//evil.com/fail''" "''fail''" None]
  by (auto simp: parse_base_def starts_with_def)

end
