(* ===== verification/ProxyAuth.thy ===== *)
theory ProxyAuth
  imports ProxyHttp
begin

text \<open>
  Request authentication: the signature middleware of
  \<open>packages/market-proxy/src/middleware/verify-signature.ts\<close> and the agent guard of
  \<open>packages/indexer/src/refund-delivery/agent-signature.guard.ts\<close>. Both keep a nonce cache; the
  locale \<open>replay_guard\<close> states its contract and is interpreted on both. The cryptographic
  libraries (viem, tweetnacl, bs58, SHA-256) are the fields of \<open>crypto\<close>; a call that may throw
  returns an option. The clock is read twice per request: for the skew and for the replay check.
\<close>

section \<open>Canonical payload\<close>

abbreviation nl :: string where "nl \<equiv> [CHR 0x0A]"

definition buildSignaturePayload ::
    "string \<Rightarrow> string \<Rightarrow> int \<Rightarrow> string \<Rightarrow> string \<Rightarrow> string option \<Rightarrow> string" where
  "buildSignaturePayload meth path timestampMs nonce bodyHash network =
     (case network of
        None \<Rightarrow> ''v1'' @ nl @ to_upper meth @ nl @ path @ nl @ string_of_int timestampMs @ nl @ nonce @ nl @ bodyHash
      | Some n \<Rightarrow> ''v2'' @ nl @ to_upper meth @ nl @ path @ nl @ n @ nl @ string_of_int timestampMs @ nl @ nonce @ nl @ bodyHash)"

section \<open>Replay cache\<close>

type_synonym replay_store = "(string \<times> int) list"

definition sweep :: "int \<Rightarrow> replay_store \<Rightarrow> replay_store" where
  "sweep now store = (if length store > 1024 then filter (\<lambda>(_, expires). \<not> expires \<le> now) store else store)"

text \<open>\<open>seen(key, nowMs)\<close> of \<open>createInMemoryReplayCache\<close>: the new store and whether the key is live.\<close>

definition replay_seen :: "int \<Rightarrow> replay_store \<Rightarrow> string \<Rightarrow> int \<Rightarrow> replay_store \<times> bool" where
  "replay_seen ttlMs store0 key nowMs =
     (let store = sweep nowMs store0 in
      case map_of store key of
        Some expires \<Rightarrow>
          if expires > nowMs then (store, True) else (AList.update key (nowMs + ttlMs) store, False)
      | None \<Rightarrow> (AList.update key (nowMs + ttlMs) store, False))"

locale replay_guard =
  fixes seen :: "'s \<Rightarrow> 'k \<Rightarrow> int \<Rightarrow> 's \<times> bool"
    and expiry :: "'s \<Rightarrow> 'k \<Rightarrow> int option"
    and ok :: "'s \<Rightarrow> bool"
    and ttl :: int
  assumes ok_seen: "ok s \<Longrightarrow> ok (fst (seen s k now))"
    and reject_iff: "ok s \<Longrightarrow> snd (seen s k now) \<longleftrightarrow> (\<exists>e. expiry s k = Some e \<and> now < e)"
    and accept_marks: "ok s \<Longrightarrow> \<not> snd (seen s k now) \<Longrightarrow> expiry (fst (seen s k now)) k = Some (now + ttl)"
    and keep_live: "ok s \<Longrightarrow> expiry s k = Some e \<Longrightarrow> now < e \<Longrightarrow> expiry (fst (seen s k' now)) k = Some e"
begin

definition seen_all :: "('k \<times> int) list \<Rightarrow> 's \<Rightarrow> 's" where
  "seen_all qs s = foldl (\<lambda>s (k, now). fst (seen s k now)) s qs"

lemma keep_live_all:
  "ok s \<Longrightarrow> expiry s k = Some e \<Longrightarrow> \<forall>(k', now) \<in> set qs. now < e \<Longrightarrow>
     ok (seen_all qs s) \<and> expiry (seen_all qs s) k = Some e"
  unfolding seen_all_def
  by (induction qs arbitrary: s) (auto simp: keep_live ok_seen)

lemma single_use:
  assumes "ok s" and "\<not> snd (seen s k t1)" and "\<forall>(k', now) \<in> set qs. now < t1 + ttl" and "t2 < t1 + ttl"
  shows "snd (seen (seen_all qs (fst (seen s k t1))) k t2)"
  using keep_live_all [OF ok_seen [OF assms(1)] accept_marks [OF assms(1,2)] assms(3)] assms(4) reject_iff by blast

end

definition store_ok :: "replay_store \<Rightarrow> bool" where
  "store_ok s \<longleftrightarrow> distinct (map fst s)"

lemma sweep_live:
  assumes "store_ok s" "now < e"
  shows "map_of (sweep now s) k = Some e \<longleftrightarrow> map_of s k = Some e"
proof -
  have "distinct (map fst (filter (\<lambda>(_, e). \<not> e \<le> now) s))"
    using assms by (simp add: store_ok_def distinct_map_filter)
  then show ?thesis using assms by (auto simp: sweep_def store_ok_def map_of_eq_Some_iff)
qed

lemma sweep_ok: "store_ok s \<Longrightarrow> store_ok (sweep now s)"
  by (simp add: store_ok_def sweep_def distinct_map_filter)

lemma replay_seen_ok: "store_ok s \<Longrightarrow> store_ok (fst (replay_seen ttl s k now))"
  using sweep_ok [of s now]
  by (auto simp: replay_seen_def store_ok_def distinct_update Let_def split: option.splits)

lemma replay_seen_reject:
  assumes "store_ok s"
  shows "snd (replay_seen ttl s k now) \<longleftrightarrow> (\<exists>e. map_of s k = Some e \<and> now < e)"
proof -
  have "(\<exists>e. map_of (sweep now s) k = Some e \<and> now < e) \<longleftrightarrow> (\<exists>e. map_of s k = Some e \<and> now < e)"
    using sweep_live [OF assms] by blast
  then show ?thesis by (auto simp: replay_seen_def Let_def split: option.splits)
qed

interpretation market_replay: replay_guard "replay_seen ttl" map_of store_ok ttl
proof
  fix s :: replay_store and k k' :: string and now e :: int
  assume ok: "store_ok s"
  show "store_ok (fst (replay_seen ttl s k now))" by (rule replay_seen_ok [OF ok])
  show "snd (replay_seen ttl s k now) \<longleftrightarrow> (\<exists>e. map_of s k = Some e \<and> now < e)"
    by (rule replay_seen_reject [OF ok])
  show "map_of (fst (replay_seen ttl s k now)) k = Some (now + ttl)" if "\<not> snd (replay_seen ttl s k now)"
    using that by (auto simp: replay_seen_def Let_def update_conv' split: option.splits if_splits)
  show "map_of (fst (replay_seen ttl s k' now)) k = Some e" if "map_of s k = Some e" "now < e"
    using that sweep_live [OF ok that(2), of k]
    by (auto simp: replay_seen_def Let_def update_conv' split: option.splits)
qed

section \<open>The middleware\<close>

record crypto =
  isAddress :: "string \<Rightarrow> bool"
  getAddress :: "string \<Rightarrow> string"
  verifyMessage :: "string \<Rightarrow> string \<Rightarrow> string \<Rightarrow> bool option"
  bs58_decode :: "string \<Rightarrow> nat list option"
  nacl_verify :: "string \<Rightarrow> nat list \<Rightarrow> nat list \<Rightarrow> bool option"
  sha256Hex :: "string \<Rightarrow> string"

datatype auth_vm = EVM | SOLANA

definition networkToVm :: "string \<Rightarrow> auth_vm" where
  "networkToVm network = (if starts_with ''solana'' network then SOLANA else EVM)"

datatype auth_error = Auth_missing | Auth_stale | Auth_replay | Auth_bad_sig

text \<open>\<open>Next None\<close> passes an unsigned request on; \<open>Next (Some a)\<close> stashes the verified agent.\<close>

datatype auth_result =
    Next "string option"
  | Reject auth_error string
  | AuthThrows string

record verify_options =
  vo_skewMs :: int
  vo_replayTtlMs :: int

definition DEFAULT_SKEW_MS :: int where "DEFAULT_SKEW_MS = 30000"
definition DEFAULT_REPLAY_TTL_MS :: int where "DEFAULT_REPLAY_TTL_MS = 60000"

definition truthy_header :: "headers \<Rightarrow> string \<Rightarrow> string option" where
  "truthy_header hs n = (case hget hs n of Some (c # cs) \<Rightarrow> Some (c # cs) | _ \<Rightarrow> None)"

text \<open>\<open>Number.parseInt(s, 10)\<close>: white space, a sign and the longest run of digits; \<open>None\<close> is NaN.\<close>

definition parseInt :: "string \<Rightarrow> int option" where
  "parseInt s0 =
     (let s = dropWhile is_space s0;
          neg = starts_with ''-'' s;
          t = (if neg \<or> starts_with ''+'' s then tl s else s);
          ds = takeWhile (\<lambda>c. digit_val c \<noteq> None) t
      in if ds = [] then None
         else map_option (\<lambda>n. if neg then - int n else int n) (parse_digits 0 ds))"

record auth_request =
  aq_method :: string
  aq_path :: string
  aq_headers :: headers
  aq_body :: "string option"

text \<open>\<open>aq_path\<close> is pathname and search; \<open>aq_body\<close> is \<open>None\<close> when the body cannot be read.\<close>

definition agent_vm :: "crypto \<Rightarrow> string \<Rightarrow> auth_vm" where
  "agent_vm c agent = (if isAddress c agent then EVM else SOLANA)"

definition normalizedAgent :: "crypto \<Rightarrow> string \<Rightarrow> string" where
  "normalizedAgent c agent = (if agent_vm c agent = EVM then to_lower (getAddress c agent) else agent)"

definition auth_payloads :: "crypto \<Rightarrow> auth_request \<Rightarrow> int \<Rightarrow> string \<Rightarrow> string \<Rightarrow> string list" where
  "auth_payloads c req tsMs nonce body =
     (let bodyHash = (if body = [] then [] else sha256Hex c body);
          networkHeader = (case hget (aq_headers req) ''x-pact-network'' of None \<Rightarrow> [] | Some n \<Rightarrow> n)
      in [buildSignaturePayload (aq_method req) (aq_path req) tsMs nonce bodyHash (Some networkHeader),
          buildSignaturePayload (aq_method req) (aq_path req) tsMs nonce bodyHash None])"

text \<open>The signature check of either mode over the candidate payloads.\<close>

definition verify_evm :: "crypto \<Rightarrow> string \<Rightarrow> string \<Rightarrow> string list \<Rightarrow> bool" where
  "verify_evm c agent signature payloads =
     list_ex (\<lambda>p. verifyMessage c agent p signature = Some True) payloads"

definition verify_solana :: "crypto \<Rightarrow> string \<Rightarrow> string \<Rightarrow> string list \<Rightarrow> auth_result option" where
  "verify_solana c agent signature payloads =
     (case (bs58_decode c agent, bs58_decode c signature) of
        (Some pubkey, Some sig) \<Rightarrow>
          if length pubkey \<noteq> 32 \<or> length sig \<noteq> 64 then
            Some (Reject Auth_bad_sig ''wrong signature or pubkey length'')
          else if list_ex (\<lambda>p. nacl_verify c p sig pubkey = Some True) payloads then None
          else Some (Reject Auth_bad_sig ''signature verification failed'')
      | _ \<Rightarrow> Some (Reject Auth_bad_sig ''malformed signature or pubkey''))"

definition check_signature ::
    "crypto \<Rightarrow> auth_request \<Rightarrow> string \<Rightarrow> int \<Rightarrow> string \<Rightarrow> string \<Rightarrow> string + string option \<Rightarrow> auth_result" where
  "check_signature c req agent tsMs nonce signature endpointNetwork =
     (case aq_body req of
        None \<Rightarrow> Reject Auth_bad_sig ''could not read request body''
      | Some body \<Rightarrow>
          let payloads = auth_payloads c req tsMs nonce body; vm = agent_vm c agent in
          case endpointNetwork of
            Inl e \<Rightarrow> AuthThrows e
          | Inr net \<Rightarrow>
              if nonempty net \<and> networkToVm (the net) \<noteq> vm then
                Reject Auth_bad_sig (''agent key type ('' @ (if vm = EVM then ''evm'' else ''solana'') @
                  '') does not match endpoint network '' @ the net)
              else if vm = EVM then
                (if verify_evm c (normalizedAgent c agent) signature payloads
                 then Next (Some (normalizedAgent c agent))
                 else Reject Auth_bad_sig ''signature verification failed'')
              else (case verify_solana c agent signature payloads of
                      Some r \<Rightarrow> r
                    | None \<Rightarrow> Next (Some (normalizedAgent c agent))))"

text \<open>\<open>now1\<close> is the reading for the skew check, \<open>now2\<close> the one for the replay check.\<close>

definition verifyPactSignature ::
    "verify_options \<Rightarrow> crypto \<Rightarrow> replay_store \<Rightarrow> int \<Rightarrow> int \<Rightarrow> auth_request \<Rightarrow> string + string option \<Rightarrow>
     replay_store \<times> auth_result" where
  "verifyPactSignature opts c store now1 now2 req endpointNetwork =
     (let hs = aq_headers req in
      case truthy_header hs ''x-pact-agent'' of
        None \<Rightarrow> (store, Next None)
      | Some agent \<Rightarrow>
          (case (truthy_header hs ''x-pact-timestamp'', truthy_header hs ''x-pact-nonce'',
                 truthy_header hs ''x-pact-signature'', truthy_header hs ''x-pact-project'') of
             (Some timestamp, Some nonce, Some signature, Some project) \<Rightarrow>
               (case parseInt timestamp of
                  None \<Rightarrow> (store, Reject Auth_stale ''malformed x-pact-timestamp'')
                | Some tsMs \<Rightarrow>
                    if \<bar>now1 - tsMs\<bar> > vo_skewMs opts then
                      (store, Reject Auth_stale ''timestamp outside skew window'')
                    else (case replay_seen (vo_replayTtlMs opts) store
                                 (normalizedAgent c agent @ '':'' @ nonce) now2 of
                        (store', True) \<Rightarrow> (store', Reject Auth_replay ''nonce already seen'')
                      | (store', False) \<Rightarrow>
                          (store', check_signature c req agent tsMs nonce signature endpointNetwork)))
           | _ \<Rightarrow> (store, Reject Auth_missing ''missing pact auth header'')))"

section \<open>The webhook guard\<close>

record guard_request =
  gq_method :: string
  gq_path :: string
  gq_pubkey :: string
  gq_headers :: headers
  gq_rawBody :: "string option"

definition SKEW_MS :: int where "SKEW_MS = 30000"
definition REPLAY_TTL_MS :: int where "REPLAY_TTL_MS = 60000"

text \<open>
  \<open>canActivate\<close>: \<open>Inl\<close> is the \<open>UnauthorizedException\<close>. The guard keeps its own nonce map with
  the same discipline, written out in its body.
\<close>

definition guard_seen :: "replay_store \<Rightarrow> string \<Rightarrow> int \<Rightarrow> replay_store \<times> bool" where
  "guard_seen seen0 replayKey now =
     (let seen = (if length seen0 > 1024 then filter (\<lambda>(_, exp). \<not> exp \<le> now) seen0 else seen0) in
      case map_of seen replayKey of
        Some exp \<Rightarrow> if exp > now then (seen, True)
                    else (AList.update replayKey (now + REPLAY_TTL_MS) seen, False)
      | None \<Rightarrow> (AList.update replayKey (now + REPLAY_TTL_MS) seen, False))"

definition canActivate ::
    "crypto \<Rightarrow> replay_store \<Rightarrow> int \<Rightarrow> int \<Rightarrow> guard_request \<Rightarrow> replay_store \<times> (string + bool)" where
  "canActivate c seen now1 now2 req =
     (let hs = gq_headers req in
      case (truthy_header hs ''x-pact-agent'', truthy_header hs ''x-pact-timestamp'',
            truthy_header hs ''x-pact-nonce'', truthy_header hs ''x-pact-signature'') of
        (Some agent, Some ts, Some nonce, Some signature) \<Rightarrow>
          if agent \<noteq> gq_pubkey req then (seen, Inl ''pact_auth_agent_mismatch'')
          else (case parseInt ts of
              None \<Rightarrow> (seen, Inl ''pact_auth_stale'')
            | Some tsMs \<Rightarrow>
                if \<bar>now1 - tsMs\<bar> > SKEW_MS then (seen, Inl ''pact_auth_stale'')
                else (case guard_seen seen (agent @ '':'' @ nonce) now2 of
                    (seen', True) \<Rightarrow> (seen', Inl ''pact_auth_replay'')
                  | (seen', False) \<Rightarrow>
                      let body = (case gq_rawBody req of None \<Rightarrow> [] | Some b \<Rightarrow> b);
                          bodyHash = (if body = [] then [] else sha256Hex c body);
                          payload = ''v1'' @ nl @ to_upper (gq_method req) @ nl @ gq_path req @ nl @
                            string_of_int tsMs @ nl @ nonce @ nl @ bodyHash;
                          ok = (case (bs58_decode c agent, bs58_decode c signature) of
                              (Some pk, Some sig) \<Rightarrow> length pk = 32 \<and> length sig = 64 \<and>
                                 nacl_verify c payload sig pk = Some True
                            | _ \<Rightarrow> False)
                      in (seen', if ok then Inr True else Inl ''pact_auth_bad_sig'')))
      | _ \<Rightarrow> (seen, Inl ''pact_auth_missing''))"

lemma guard_seen_replay: "guard_seen s k now = replay_seen REPLAY_TTL_MS s k now"
  by (simp add: guard_seen_def replay_seen_def sweep_def Let_def)

interpretation agent_guard: replay_guard guard_seen map_of store_ok REPLAY_TTL_MS
  unfolding guard_seen_replay [abs_def] by (rule market_replay.replay_guard_axioms)

section \<open>Lemmas\<close>

lemma parseInt_string_of_int: "parseInt (string_of_int i) = Some i"
proof -
  have ds: "takeWhile (\<lambda>c. \<exists>y. digit_val c = Some y) (dec_digits n) = dec_digits n" for n
    using dec_digits_chars [of _ n] by (simp add: takeWhile_eq_all_conv)
  have ns: "dropWhile is_space (dec_digits n) = dec_digits n" for n
    using dec_digits_not_space by (simp add: dropWhile_none)
  show ?thesis
    by (cases "i < 0")
      (simp_all add: parseInt_def string_of_int_def Let_def ds ns dec_digits_no_sign is_space_def starts_with_def
        dec_digits_no_sign [unfolded starts_with_def, simplified])
qed

lemma upper_char_newline: "upper_char c = CHR 0x0A \<longleftrightarrow> c = CHR 0x0A"
proof (cases "97 \<le> (of_char c :: nat) \<and> (of_char c :: nat) \<le> 122")
  case True
  then have "of_char c - 32 < (256 :: nat)" "of_char c - 32 \<noteq> (10 :: nat)" by linarith+
  with True have "(of_char (upper_char c) :: nat) \<noteq> 10" by (simp add: upper_char_def)
  moreover have "(of_char c :: nat) \<noteq> 10" using True by simp
  ultimately show ?thesis by auto
next
  case False
  then show ?thesis by (auto simp: upper_char_def)
qed

lemma line_cancel:
  "CHR 0x0A \<notin> set xs \<Longrightarrow> CHR 0x0A \<notin> set ys \<Longrightarrow>
     xs @ CHR 0x0A # xs' = ys @ CHR 0x0A # ys' \<longleftrightarrow> xs = ys \<and> xs' = ys'"
proof (induction xs arbitrary: ys)
  case Nil then show ?case by (cases ys) auto
next
  case (Cons x xs) then show ?case by (cases ys) auto
qed

definition line_safe :: "string \<Rightarrow> bool" where
  "line_safe s \<longleftrightarrow> CHR 0x0A \<notin> set s"

lemma line_safe_upper: "line_safe m \<Longrightarrow> CHR 0x0A \<notin> set (to_upper m)"
  using upper_char_newline by (force simp: line_safe_def to_upper_def)

lemma payload_lines:
  assumes "line_safe m" "line_safe p" "line_safe n" "\<forall>x. net = Some x \<longrightarrow> line_safe x"
    and "line_safe m'" "line_safe p'" "line_safe n'" "\<forall>x. net' = Some x \<longrightarrow> line_safe x"
  shows "buildSignaturePayload m p t n b net = buildSignaturePayload m' p' t' n' b' net' \<longleftrightarrow>
     to_upper m = to_upper m' \<and> p = p' \<and> t = t' \<and> n = n' \<and> b = b' \<and> net = net'"
  using assms line_safe_upper [OF assms(1)] line_safe_upper [OF assms(5)] string_of_int_inj [of t t']
    string_of_int_no_newline [of t] string_of_int_no_newline [of t']
  unfolding line_safe_def buildSignaturePayload_def
  by (cases net; cases net') (auto simp: line_cancel)

lemma verify_cases:
  assumes "verifyPactSignature opts c store now1 now2 req net = (store', Next (Some a))"
  obtains agent timestamp nonce signature project tsMs where
    "truthy_header (aq_headers req) ''x-pact-agent'' = Some agent"
    "truthy_header (aq_headers req) ''x-pact-timestamp'' = Some timestamp"
    "truthy_header (aq_headers req) ''x-pact-nonce'' = Some nonce"
    "truthy_header (aq_headers req) ''x-pact-signature'' = Some signature"
    "parseInt timestamp = Some tsMs" "\<bar>now1 - tsMs\<bar> \<le> vo_skewMs opts"
    "replay_seen (vo_replayTtlMs opts) store (normalizedAgent c agent @ '':'' @ nonce) now2 = (store', False)"
    "check_signature c req agent tsMs nonce signature net = Next (Some a)"
  using assms
  by (auto simp: verifyPactSignature_def Let_def split: option.splits if_splits prod.splits bool.splits)

lemma check_signature_identifies: "check_signature c req agent tsMs nonce signature net \<noteq> Next None"
  by (auto simp: check_signature_def verify_solana_def Let_def split: option.split sum.split if_splits)

lemma verify_identifies:
  assumes "verifyPactSignature opts c store now1 now2 req net = (store', Next a)"
    and "truthy_header (aq_headers req) ''x-pact-agent'' = Some agent"
  shows "a \<noteq> None"
proof
  assume "a = None"
  with assms check_signature_identifies show False
    by (auto simp: verifyPactSignature_def Let_def split: option.splits if_splits prod.splits bool.splits)
qed

lemma check_signature_cases:
  assumes "check_signature c req agent tsMs nonce signature net = Next (Some a)"
  obtains (evm) body m where "aq_body req = Some body" "isAddress c agent" "a = to_lower (getAddress c agent)"
      "m \<in> set (auth_payloads c req tsMs nonce body)" "verifyMessage c a m signature = Some True"
    | (solana) body m pk sig where "aq_body req = Some body" "\<not> isAddress c agent" "a = agent"
      "m \<in> set (auth_payloads c req tsMs nonce body)"
      "bs58_decode c agent = Some pk" "length pk = 32" "bs58_decode c signature = Some sig" "nacl_verify c m sig pk = Some True"
  using assms
  by (auto simp: check_signature_def verify_evm_def verify_solana_def agent_vm_def normalizedAgent_def Let_def
      list_ex_iff split: option.splits if_splits sum.splits)

text \<open>What the middleware remembers of a request: its nonce key and the timestamp it claims.\<close>

definition request_key :: "crypto \<Rightarrow> auth_request \<Rightarrow> string option" where
  "request_key c req =
     (case (truthy_header (aq_headers req) ''x-pact-agent'', truthy_header (aq_headers req) ''x-pact-nonce'') of
        (Some agent, Some nonce) \<Rightarrow> Some (normalizedAgent c agent @ '':'' @ nonce) | _ \<Rightarrow> None)"

definition request_time :: "auth_request \<Rightarrow> int option" where
  "request_time req = (case truthy_header (aq_headers req) ''x-pact-timestamp'' of
     None \<Rightarrow> None | Some t \<Rightarrow> parseInt t)"

lemma verify_store:
  "fst (verifyPactSignature opts c store now1 now2 req net) = store \<or>
   (\<exists>k. fst (verifyPactSignature opts c store now1 now2 req net) =
      fst (replay_seen (vo_replayTtlMs opts) store k now2))"
  by (auto simp: verifyPactSignature_def Let_def split: option.splits prod.splits bool.splits) (metis fst_conv)+

type_synonym auth_call = "int \<times> int \<times> auth_request \<times> (string + string option)"

definition verify_all :: "verify_options \<Rightarrow> crypto \<Rightarrow> auth_call list \<Rightarrow> replay_store \<Rightarrow> replay_store" where
  "verify_all opts c qs store =
     foldl (\<lambda>s (n1, n2, req, net). fst (verifyPactSignature opts c s n1 n2 req net)) store qs"

lemma verify_all_keeps:
  assumes "store_ok s" "map_of s k = Some e" "\<forall>(n1, n2, r, net) \<in> set qs. n2 < e"
  shows "store_ok (verify_all opts c qs s) \<and> map_of (verify_all opts c qs s) k = Some e"
  using assms unfolding verify_all_def
proof (induction qs arbitrary: s)
  case (Cons q qs)
  obtain n1 n2 r net where q: "q = (n1, n2, r, net)" by (cases q)
  let ?s = "fst (verifyPactSignature opts c s n1 n2 r net)"
  have "n2 < e" using Cons.prems(3) q by auto
  then have "store_ok ?s \<and> map_of ?s k = Some e"
    using verify_store [of opts c s n1 n2 r net] Cons.prems(1,2) replay_seen_ok market_replay.keep_live
    by (elim disjE exE) auto
  with Cons q show ?case by simp
qed simp

section \<open>Properties\<close>

text \<open>
  C7: the signed bytes determine the request. For fields without line breaks, two payloads are
  equal only if method (up to case), path, timestamp, nonce, body hash and network agree, and a v1
  payload never equals a v2 one: no signature can be read under two interpretations.
\<close>

theorem signature_payload_injective:
  assumes "line_safe m" "line_safe p" "line_safe n" "\<forall>x. net = Some x \<longrightarrow> line_safe x"
    and "line_safe m'" "line_safe p'" "line_safe n'" "\<forall>x. net' = Some x \<longrightarrow> line_safe x"
    and "buildSignaturePayload m p t n b net = buildSignaturePayload m' p' t' n' b' net'"
  shows "to_upper m = to_upper m' \<and> p = p' \<and> t = t' \<and> n = n' \<and> b = b' \<and> net = net'"
  using payload_lines [OF assms(1-8)] assms(9) by blast

theorem signature_payload_injective_witness:
  "to_upper ''get'' = to_upper ''GET'' \<and>
   buildSignaturePayload ''get'' ''/v1/fal/x'' 5 ''n'' [] None = buildSignaturePayload ''GET'' ''/v1/fal/x'' 5 ''n'' [] None"
proof -
  have up: "to_upper ''get'' = ''GET''" "to_upper ''GET'' = ''GET''" by code_simp+
  then have "buildSignaturePayload ''get'' ''/v1/fal/x'' 5 ''n'' [] None = buildSignaturePayload ''GET'' ''/v1/fal/x'' 5 ''n'' [] None"
    by (simp add: buildSignaturePayload_def)
  with signature_payload_injective [OF _ _ _ _ _ _ _ _ this] show ?thesis by (simp add: line_safe_def)
qed

text \<open>
  C8: an identity is only stashed for a request its key signed. When the middleware reports a
  verified agent, the timestamp header is within the skew, the signature header verifies under that
  agent's key over the v2 or v1 payload of this request's method, path, network header, timestamp
  header, nonce header and body hash, and a known endpoint network has the agent's key type.
\<close>

theorem verified_agent_signed_request:
  assumes "verifyPactSignature opts c store now1 now2 req (Inr net) = (store', Next (Some a))"
  shows "\<exists>agent timestamp nonce signature ts body m.
    hget (aq_headers req) ''x-pact-agent'' = Some agent \<and> a = normalizedAgent c agent \<and>
    hget (aq_headers req) ''x-pact-timestamp'' = Some timestamp \<and> parseInt timestamp = Some ts \<and>
    \<bar>now1 - ts\<bar> \<le> vo_skewMs opts \<and>
    hget (aq_headers req) ''x-pact-nonce'' = Some nonce \<and> nonce \<noteq> [] \<and>
    hget (aq_headers req) ''x-pact-signature'' = Some signature \<and> aq_body req = Some body \<and>
    m \<in> set (auth_payloads c req ts nonce body) \<and>
    (if isAddress c agent then verifyMessage c a m signature = Some True
     else \<exists>pk sig. bs58_decode c a = Some pk \<and> length pk = 32 \<and>
       bs58_decode c signature = Some sig \<and> nacl_verify c m sig pk = Some True) \<and>
    (nonempty net \<longrightarrow> networkToVm (the net) = agent_vm c agent)"
proof -
  obtain agent timestamp nonce signature project tsMs where v:
    "truthy_header (aq_headers req) ''x-pact-agent'' = Some agent"
    "truthy_header (aq_headers req) ''x-pact-timestamp'' = Some timestamp"
    "truthy_header (aq_headers req) ''x-pact-nonce'' = Some nonce"
    "truthy_header (aq_headers req) ''x-pact-signature'' = Some signature"
    "parseInt timestamp = Some tsMs" "\<bar>now1 - tsMs\<bar> \<le> vo_skewMs opts"
    and chk: "check_signature c req agent tsMs nonce signature (Inr net) = Next (Some a)"
    by (rule verify_cases [OF assms])
  have hd: "hget (aq_headers req) ''x-pact-agent'' = Some agent"
    "hget (aq_headers req) ''x-pact-timestamp'' = Some timestamp"
    "hget (aq_headers req) ''x-pact-nonce'' = Some nonce" "nonce \<noteq> []"
    "hget (aq_headers req) ''x-pact-signature'' = Some signature"
    using v by (auto simp: truthy_header_def split: option.splits list.splits)
  have net: "nonempty net \<longrightarrow> networkToVm (the net) = agent_vm c agent"
    using chk by (auto simp: check_signature_def Let_def split: option.splits if_splits)
  from chk show ?thesis
  proof (cases rule: check_signature_cases)
    case (evm body m)
    then have "a = normalizedAgent c agent" by (simp add: normalizedAgent_def agent_vm_def)
    with evm hd v(5,6) net show ?thesis by auto
  next
    case (solana body m pk sig)
    then have "a = normalizedAgent c agent" by (simp add: normalizedAgent_def agent_vm_def)
    with solana hd v(5,6) net show ?thesis by auto
  qed
qed

text \<open>A stand-in for the libraries, for the witnesses: one key each of both kinds, one signature.\<close>

definition toy_crypto :: crypto where
  "toy_crypto = \<lparr>isAddress = (\<lambda>a. starts_with ''0x'' a), getAddress = (\<lambda>a. a),
     verifyMessage = (\<lambda>a m s. Some (s = ''good'')), bs58_decode = (\<lambda>a. Some (replicate (if a = ''good'' then 64 else 32) 7)),
     nacl_verify = (\<lambda>m s k. Some (length s = 64)), sha256Hex = (\<lambda>b. b)\<rparr>"

definition toy_request :: auth_request where
  "toy_request = \<lparr>aq_method = ''GET'', aq_path = ''/v1/fal/x'', aq_headers =
     [(''x-pact-agent'', ''A''), (''x-pact-timestamp'', ''50000''), (''x-pact-nonce'', ''n''),
      (''x-pact-signature'', ''good''), (''x-pact-project'', ''p'')], aq_body = Some []\<rparr>"

definition default_opts :: verify_options where
  "default_opts = \<lparr>vo_skewMs = DEFAULT_SKEW_MS, vo_replayTtlMs = DEFAULT_REPLAY_TTL_MS\<rparr>"

lemma toy_headers:
  "truthy_header (aq_headers toy_request) ''x-pact-agent'' = Some ''A''"
  "truthy_header (aq_headers toy_request) ''x-pact-timestamp'' = Some ''50000''"
  "truthy_header (aq_headers toy_request) ''x-pact-nonce'' = Some ''n''"
  "truthy_header (aq_headers toy_request) ''x-pact-signature'' = Some ''good''"
  "truthy_header (aq_headers toy_request) ''x-pact-project'' = Some ''p''"
  by (simp_all add: truthy_header_def hget_def toy_request_def to_lower_def lower_char_def)

lemma toy_timestamp: "parseInt ''50000'' = Some 50000"
  by (simp add: parseInt_def is_space_def starts_with_def digit_val_def Let_def)

lemma toy_signature:
  "check_signature toy_crypto toy_request ''A'' 50000 ''n'' ''good'' (Inr None) = Next (Some ''A'')"
  by (simp add: check_signature_def toy_crypto_def toy_request_def verify_solana_def auth_payloads_def
      agent_vm_def normalizedAgent_def nonempty_def starts_with_def Let_def)

lemma toy_normal: "normalizedAgent toy_crypto ''A'' = ''A''"
  by (simp add: normalizedAgent_def agent_vm_def toy_crypto_def starts_with_def)

lemmas toy_eval = verifyPactSignature_def toy_headers toy_timestamp toy_signature toy_normal
  replay_seen_def sweep_def default_opts_def DEFAULT_SKEW_MS_def DEFAULT_REPLAY_TTL_MS_def Let_def

lemma toy_accepted:
  "verifyPactSignature default_opts toy_crypto [] 20000 20000 toy_request (Inr None) = ([(''A:n'', 80000)], Next (Some ''A''))"
  by (simp add: toy_eval)

lemma toy_accepted_again:
  "verifyPactSignature default_opts toy_crypto [(''A:n'', 80000)] 80000 80000 toy_request (Inr None) =
     ([(''A:n'', 140000)], Next (Some ''A''))"
  by (simp add: toy_eval)

theorem verified_agent_signed_request_witness:
  "\<exists>ts. request_time toy_request = Some ts \<and> \<bar>20000 - ts\<bar> \<le> vo_skewMs default_opts"
  using verified_agent_signed_request [OF toy_accepted] toy_headers(2)
  by (auto simp: request_time_def truthy_header_def split: option.splits list.splits)

text \<open>
  C9: the replay window. The middleware reads the clock twice, for the skew check and for the nonce
  cache. With a nonce lifetime of twice the skew (the defaults), after a request is accepted, and
  whatever other requests arrive in between, a request with the same agent, nonce and timestamp is
  accepted again only when its two readings straddle the end of the skew window, and the time between
  them is at least what the first acceptance came after the window's start: a replay inside one
  clock tick is only possible for a request first accepted exactly one skew before its timestamp.
\<close>

theorem replay_window_closed:
  assumes "store_ok store" and "vo_replayTtlMs opts = 2 * vo_skewMs opts"
    and acc: "verifyPactSignature opts c store a1 a2 req net = (store1, Next (Some ag))" and "a1 \<le> a2"
    and same: "request_key c req' = request_key c req" "request_time req' = request_time req"
    and others: "\<forall>(n1, n2, r, net) \<in> set qs. n2 \<le> b2"
    and acc': "verifyPactSignature opts c (verify_all opts c qs store1) b1 b2 req' net' = (store2, Next (Some ag'))"
  shows "\<exists>ts. request_time req = Some ts \<and> b1 \<le> ts + vo_skewMs opts \<and> ts + vo_skewMs opts \<le> b2 \<and>
    a2 - (ts - vo_skewMs opts) \<le> b2 - b1 \<and>
    (b1 = b2 \<longrightarrow> a1 = ts - vo_skewMs opts \<and> a2 = a1 \<and> b2 = ts + vo_skewMs opts)"
proof -
  obtain agent timestamp nonce tsMs where v:
    "truthy_header (aq_headers req) ''x-pact-agent'' = Some agent"
    "truthy_header (aq_headers req) ''x-pact-timestamp'' = Some timestamp"
    "truthy_header (aq_headers req) ''x-pact-nonce'' = Some nonce"
    "parseInt timestamp = Some tsMs" "\<bar>a1 - tsMs\<bar> \<le> vo_skewMs opts"
    and seen: "replay_seen (vo_replayTtlMs opts) store (normalizedAgent c agent @ '':'' @ nonce) a2 = (store1, False)"
    by (rule verify_cases [OF acc])
  obtain agent' timestamp' nonce' tsMs' where v':
    "truthy_header (aq_headers req') ''x-pact-agent'' = Some agent'"
    "truthy_header (aq_headers req') ''x-pact-timestamp'' = Some timestamp'"
    "truthy_header (aq_headers req') ''x-pact-nonce'' = Some nonce'"
    "parseInt timestamp' = Some tsMs'" "\<bar>b1 - tsMs'\<bar> \<le> vo_skewMs opts"
    and seen': "replay_seen (vo_replayTtlMs opts) (verify_all opts c qs store1) (normalizedAgent c agent' @ '':'' @ nonce') b2 = (store2, False)"
    by (rule verify_cases [OF acc'])
  let ?k = "normalizedAgent c agent @ '':'' @ nonce" and ?e = "a2 + vo_replayTtlMs opts"
  have key: "normalizedAgent c agent' @ '':'' @ nonce' = ?k" and ts: "tsMs' = tsMs"
    using same v v' by (auto simp: request_key_def request_time_def)
  have marked: "store_ok store1" "map_of store1 ?k = Some ?e"
    using market_replay.accept_marks [OF assms(1), of "vo_replayTtlMs opts" ?k a2]
      replay_seen_ok [OF assms(1), of "vo_replayTtlMs opts" ?k a2] seen by simp_all
  have late: "?e \<le> b2"
  proof (rule ccontr)
    assume "\<not> ?e \<le> b2"
    then have lt: "\<forall>(n1, n2, r, net) \<in> set qs. n2 < ?e" and "b2 < ?e" using others by fastforce+
    then show False
      using verify_all_keeps [OF marked lt, of opts c] seen' key
        replay_seen_reject [of "verify_all opts c qs store1" "vo_replayTtlMs opts" ?k b2] by auto
  qed
  have "request_time req = Some tsMs" using v by (simp add: request_time_def)
  moreover have "b1 \<le> tsMs + vo_skewMs opts" "tsMs - vo_skewMs opts \<le> a1"
    using v(5) v'(5) ts by arith+
  ultimately show ?thesis using late assms(2,4) by auto
qed

theorem replay_window_closed_witness:
  "\<exists>ts. request_time toy_request = Some ts \<and> 20000 = ts - vo_skewMs default_opts \<and> 80000 = ts + vo_skewMs default_opts"
proof -
  have "verify_all default_opts toy_crypto [] [(''A:n'', 80000)] = [(''A:n'', 80000)]" by (simp add: verify_all_def)
  with toy_accepted_again have again: "verifyPactSignature default_opts toy_crypto
      (verify_all default_opts toy_crypto [] [(''A:n'', 80000)]) 80000 80000 toy_request (Inr None) =
      ([(''A:n'', 140000)], Next (Some ''A''))" by simp
  show ?thesis
    using replay_window_closed [OF _ _ toy_accepted _ refl refl _ again]
    by (simp add: store_ok_def default_opts_def DEFAULT_SKEW_MS_def DEFAULT_REPLAY_TTL_MS_def)
qed

end
