(* ===== verification/ProxyRoute.thy ===== *)
theory ProxyRoute
  imports ProxyAuth
begin

text \<open>
  The proxy route of \<open>packages/market-proxy/src/routes/proxy.ts\<close> and the middleware pipeline of
  \<open>index.ts\<close>. The route is a function of the app context, the request and what its awaits return;
  its result holds the response (or the exception), the events handed to the sink, the requests
  sent upstream and the refreshed caches.
\<close>

section \<open>Context and inputs\<close>

record app_context =
  ac_registry :: registry
  ac_demoAllowlist :: allowlist
  ac_balanceCheck :: "string \<Rightarrow> int \<Rightarrow> string + balance_result"
  ac_adapters :: "(string \<times> (string \<Rightarrow> int \<Rightarrow> string + eligibility)) list"
  ac_legacyDirectSolana :: bool
  ac_insecureDemo :: "string option"
  ac_heliusKey :: "string option"

text \<open>
  The clock and database answers of the three possible cache refreshes, the generated call id,
  the upstream's behaviour and wrap's stopwatch.
\<close>

record route_inputs =
  ri_getNow :: int
  ri_getRows :: "string + endpoint_db_row list"
  ri_getLoaded :: int
  ri_netNow :: int
  ri_netRows :: "string + endpoint_db_row list"
  ri_netLoaded :: int
  ri_allowNow :: int
  ri_allowRows :: "string + string list"
  ri_allowLoaded :: int
  ri_callId :: string
  ri_upstream :: "request \<Rightarrow> (response \<times> json option) option"
  ri_tStart :: int
  ri_tEnd :: int

datatype route_out = Served response | RouteThrows string

record route_result =
  rr_out :: route_out
  rr_events :: "settlement_event list"
  rr_fetched :: "request list"
  rr_context :: app_context

definition plain :: "app_context \<Rightarrow> route_out \<Rightarrow> route_result" where
  "plain ctx out = \<lparr>rr_out = out, rr_events = [], rr_fetched = [], rr_context = ctx\<rparr>"

definition c_json :: "int \<Rightarrow> payload \<Rightarrow> route_out" where
  "c_json st body = Served (json_response st body)"

definition q_param :: "request \<Rightarrow> string \<Rightarrow> string option" where
  "q_param req k = map_of (u_query (q_url req)) k"

section \<open>Selecting the balance check\<close>

definition select_balance_check ::
    "app_context \<Rightarrow> string \<Rightarrow> (string \<Rightarrow> int \<Rightarrow> string + balance_result) option" where
  "select_balance_check ctx network =
     (if ac_legacyDirectSolana ctx \<and> starts_with ''solana-'' network then Some (ac_balanceCheck ctx)
      else case map_of (ac_adapters ctx) network of
          Some adapter \<Rightarrow> Some (\<lambda>w r. case adapter w r of Inl e \<Rightarrow> Inl e | Inr el \<Rightarrow> Inr (adapterToBalanceCheck el))
        | None \<Rightarrow> None)"

text \<open>
  The agent identity: the \<open>x-pact-agent\<close> header, else the \<open>pact_wallet\<close> parameter when the
  insecure demo mode is on (\<open>None\<close> is the 401).
\<close>

definition pact_wallet :: "app_context \<Rightarrow> request \<Rightarrow> string option option" where
  "pact_wallet ctx req =
     (case truthy_header (q_headers req) ''x-pact-agent'' of
        Some a \<Rightarrow> Some (Some a)
      | None \<Rightarrow> (case q_param req ''pact_wallet'' of
          Some (c # w) \<Rightarrow> if ac_insecureDemo ctx \<noteq> Some ''1'' then None else Some (Some (c # w))
        | _ \<Rightarrow> Some None))"

section \<open>The route\<close>

text \<open>Passing a request through uninsured.\<close>

definition passthrough :: "app_context \<Rightarrow> route_inputs \<Rightarrow> handler \<Rightarrow> request \<Rightarrow> string \<Rightarrow> route_result" where
  "passthrough ctx ri h req base =
     (case buildRequest h (ac_heliusKey ctx) req base of
        Inl e \<Rightarrow> plain ctx (RouteThrows e)
      | Inr up \<Rightarrow> (case ri_upstream ri up of
          None \<Rightarrow> (plain ctx (RouteThrows ''TypeError''))\<lparr>rr_fetched := [up]\<rparr>
        | Some (resp, _) \<Rightarrow> (plain ctx (Served (buildSanitisedResponse resp [] None)))\<lparr>rr_fetched := [up]\<rparr>))"

definition pact_headers_of :: "headers \<Rightarrow> headers" where
  "pact_headers_of hs = copy_headers (\<lambda>n. starts_with ''x-pact-'' n) hs []"

definition endpoint_terms_of :: "endpoint_row \<Rightarrow> endpoint_terms" where
  "endpoint_terms_of ep = \<lparr>sla_latency_ms = er_slaLatencyMs ep, flat_premium_lamports = er_flatPremiumLamports ep,
     imputed_cost_lamports = er_imputedCostLamports ep\<rparr>"

definition route_wrap_options ::
    "string \<Rightarrow> string \<Rightarrow> string \<Rightarrow> endpoint_row \<Rightarrow> classifier_factory \<Rightarrow> json option \<Rightarrow> wrap_options" where
  "route_wrap_options slug wallet callId ep factory body =
     \<lparr>wo_endpointSlug = slug, wo_walletPubkey = wallet, wo_classifier = run_classifier factory body,
      wo_endpointConfig = \<lparr>ep_slug = slug, ep_terms = endpoint_terms_of ep\<rparr>,
      wo_callId = callId, wo_pool = Some slug, wo_network = Some (er_network ep)\<rparr>"

text \<open>The insured branch: wrap over the buffered fetch, then header sanitising.\<close>

definition insured ::
    "app_context \<Rightarrow> route_inputs \<Rightarrow> string \<Rightarrow> string \<Rightarrow> handler \<Rightarrow> request \<Rightarrow> endpoint_row \<Rightarrow>
     (string \<Rightarrow> int \<Rightarrow> string + balance_result) \<Rightarrow> route_result" where
  "insured ctx ri slug wallet h req ep balanceCheck =
     (case buildRequest h (ac_heliusKey ctx) req (er_upstreamBase ep) of
        Inl e \<Rightarrow> plain ctx (RouteThrows e)
      | Inr up \<Rightarrow> (case classifierRegistry slug of
          None \<Rightarrow> plain ctx (RouteThrows ''TypeError'')
        | Some factory \<Rightarrow>
            let (buffered, upstream) = buffered_fetch (ri_upstream ri up) buffered_init;
                opts = route_wrap_options slug wallet (ri_callId ri) ep factory (bf_parsed buffered);
                balance = balanceCheck wallet (required_premium opts);
                (result, events) = wrapFetch opts (Some balance) upstream (ri_tStart ri) (ri_tEnd ri)
            in \<lparr>rr_out = Served (buildSanitisedResponse (wr_response result)
                   (pact_headers_of (r_headers (wr_response result))) None),
                rr_events = events,
                rr_fetched = (if balance_admits (Some balance) then [up] else []),
                rr_context = ctx\<rparr>))"

definition endpoint_missing :: "app_context \<Rightarrow> string \<Rightarrow> string option \<Rightarrow> string list \<Rightarrow> route_result" where
  "endpoint_missing ctx slug network available =
     plain ctx (if available = [] then c_json 404 [(''error'', JStr ''endpoint not found'')]
       else if nonempty network then c_json 404 [(''error'', JStr ''endpoint_not_found''),
           (''message'', JStr (''endpoint '' @ quote slug @ '' not found on network '' @ quote (the network) @
              ''. Available networks: '' @ join_with '', '' available))]
       else c_json 404 [(''error'', JStr ''endpoint_ambiguous''),
           (''message'', JStr (''Set X-Pact-Network header to disambiguate: '' @ join_with '', '' available))])"

definition route_endpoint ::
    "app_context \<Rightarrow> route_inputs \<Rightarrow> string \<Rightarrow> request \<Rightarrow> endpoint_row \<Rightarrow> route_result" where
  "route_endpoint ctx ri slug req ep =
     (if er_paused ep then plain ctx (c_json 503 [(''error'', JStr ''endpoint paused'')])
      else case handlerRegistry slug of
        None \<Rightarrow> plain ctx (c_json 501 [(''error'', JStr ''no handler for endpoint'')])
      | Some h \<Rightarrow> (case select_balance_check ctx (er_network ep) of
          None \<Rightarrow> plain ctx (Served \<lparr>r_status = 503, r_statusText = [],
                    r_headers = [(''content-type'', ''text/plain'')],
                    r_body = ''Network '' @ quote (er_network ep) @ '' not enabled on this proxy''\<rparr>)
        | Some balanceCheck \<Rightarrow> (case pact_wallet ctx req of
            None \<Rightarrow> plain ctx (c_json 401 [(''error'', JStr ''pact_auth_missing'')])
          | Some None \<Rightarrow> passthrough ctx ri h req (er_upstreamBase ep)
          | Some (Some wallet) \<Rightarrow>
              if \<not> isInsurableMethod h req then passthrough ctx ri h req (er_upstreamBase ep)
              else (case computeDemoBreachDelayMs (q_param req ''demo_breach'' = Some ''1'') (Some wallet)
                           (ri_allowNow ri) (ri_allowRows ri) (ri_allowLoaded ri) (ac_demoAllowlist ctx) ep of
                  (al, Inl e) \<Rightarrow> plain (ctx\<lparr>ac_demoAllowlist := al\<rparr>) (RouteThrows e)
                | (al, Inr preDelayMs) \<Rightarrow>
                    insured (ctx\<lparr>ac_demoAllowlist := al\<rparr>) ri slug wallet h req ep balanceCheck))))"

definition proxyRoute :: "app_context \<Rightarrow> route_inputs \<Rightarrow> string \<Rightarrow> request \<Rightarrow> route_result" where
  "proxyRoute ctx ri slug req =
     (let network = hget (q_headers req) ''x-pact-network'' in
      case registry_get slug network (ri_getNow ri) (ri_getRows ri) (ri_getLoaded ri) (ac_registry ctx) of
        (reg, Inl e) \<Rightarrow> plain (ctx\<lparr>ac_registry := reg\<rparr>) (RouteThrows e)
      | (reg, Inr None) \<Rightarrow>
          (case getNetworksForSlug slug (ri_netNow ri) (ri_netRows ri) (ri_netLoaded ri) reg of
             (reg', Inl e) \<Rightarrow> plain (ctx\<lparr>ac_registry := reg'\<rparr>) (RouteThrows e)
           | (reg', Inr available) \<Rightarrow> endpoint_missing (ctx\<lparr>ac_registry := reg'\<rparr>) slug network available)
      | (reg, Inr (Some ep)) \<Rightarrow> route_endpoint (ctx\<lparr>ac_registry := reg\<rparr>) ri slug req ep)"

section \<open>The pipeline\<close>

text \<open>
  \<open>getEndpointNetwork\<close> of the app: the network header when present (even empty), else the network
  the registry has for the slug.
\<close>

definition getEndpointNetwork ::
    "headers \<Rightarrow> string + endpoint_row option \<Rightarrow> string + string option" where
  "getEndpointNetwork hs row =
     (case hget hs ''x-pact-network'' of
        Some n \<Rightarrow> Inr (Some n)
      | None \<Rightarrow> (case row of Inl e \<Rightarrow> Inl e | Inr r \<Rightarrow> Inr (map_option er_network r)))"

text \<open>The request as the signature middleware sees it.\<close>

definition auth_view :: "request \<Rightarrow> string \<Rightarrow> auth_request" where
  "auth_view req search =
     \<lparr>aq_method = q_method req, aq_path = u_path (q_url req) @ search, aq_headers = q_headers req,
      aq_body = Some (case q_body req of None \<Rightarrow> [] | Some b \<Rightarrow> b)\<rparr>"

datatype gateway_out = Forbidden | Unauthorized auth_error string | GatewayThrows string | Routed route_result

text \<open>
  The \<open>/v1/:slug/*\<close> pipeline: beta gate, signature check, route. \<open>row\<close> is the registry's answer
  to the network resolver.
\<close>

definition gateway ::
    "gate_result \<Rightarrow> verify_options \<Rightarrow> crypto \<Rightarrow> replay_store \<Rightarrow> int \<Rightarrow> int \<Rightarrow> string + endpoint_row option \<Rightarrow>
     app_context \<Rightarrow> route_inputs \<Rightarrow> string \<Rightarrow> string \<Rightarrow> request \<Rightarrow> replay_store \<times> gateway_out" where
  "gateway gate opts c store now1 now2 row ctx ri slug search req =
     (case gate of
        GateThrows e \<Rightarrow> (store, GatewayThrows e)
      | GateDenied _ \<Rightarrow> (store, Forbidden)
      | _ \<Rightarrow>
          (case verifyPactSignature opts c store now1 now2 (auth_view req search)
                  (getEndpointNetwork (q_headers req) row) of
             (store', Reject e m) \<Rightarrow> (store', Unauthorized e m)
           | (store', AuthThrows e) \<Rightarrow> (store', GatewayThrows e)
           | (store', Next agent) \<Rightarrow> (store', Routed (proxyRoute ctx ri slug req))))"

section \<open>Lemmas\<close>

lemma pact_wallet_registry [simp]: "pact_wallet (ctx\<lparr>ac_registry := r\<rparr>) req = pact_wallet ctx req"
  by (simp add: pact_wallet_def cong: option.case_cong list.case_cong)

lemma plain_simps [simp]: "rr_events (plain ctx out) = []" "rr_out (plain ctx out) = out" "rr_fetched (plain ctx out) = []"
  by (simp_all add: plain_def)

lemma passthrough_events [simp]: "rr_events (passthrough ctx ri h req base) = []"
  by (simp add: passthrough_def split: sum.split option.split)

lemma missing_events [simp]: "rr_events (endpoint_missing ctx slug network av) = []"
  by (simp add: endpoint_missing_def)

lemma insured_event:
  assumes "e \<in> set (rr_events (insured ctx ri slug wallet h req ep bc))"
  obtains up factory bal resp opts where
    "buildRequest h (ac_heliusKey ctx) req (er_upstreamBase ep) = Inr up"
    "classifierRegistry slug = Some factory"
    "\<exists>body. opts = route_wrap_options slug wallet (ri_callId ri) ep factory body"
    "bal = bc wallet (required_premium opts)"
    "e \<in> set (snd (wrapFetch opts (Some bal) resp (ri_tStart ri) (ri_tEnd ri)))"
proof (cases "buildRequest h (ac_heliusKey ctx) req (er_upstreamBase ep)")
  case (Inl err)
  with assms show ?thesis by (simp add: insured_def)
next
  case (Inr up)
  note built = Inr
  show ?thesis
  proof (cases "classifierRegistry slug")
    case None
    with assms built show ?thesis by (simp add: insured_def)
  next
    case (Some factory)
    obtain buffered resp where b: "buffered_fetch (ri_upstream ri up) buffered_init = (buffered, resp)" by force
    let ?opts = "route_wrap_options slug wallet (ri_callId ri) ep factory (bf_parsed buffered)"
    have "e \<in> set (snd (wrapFetch ?opts (Some (bc wallet (required_premium ?opts))) resp (ri_tStart ri) (ri_tEnd ri)))"
      using assms built Some b by (simp add: insured_def split_beta Let_def)
    from that [OF built Some _ refl this] show ?thesis by blast
  qed
qed

lemma wrap_event_facts:
  assumes "e \<in> set (snd (wrapFetch opts bal up t0 t1))"
  shows "balance_admits bal" and "se_agentPubkey e = wo_walletPubkey opts"
    and "se_network e = Some (case wo_network opts of None \<Rightarrow> ''solana-devnet'' | Some n \<Rightarrow> n)"
    and "se_callId e = wo_callId opts" and "se_endpointSlug e = wo_endpointSlug opts"
    and "\<exists>inp. ci_endpointConfig inp = ep_terms (wo_endpointConfig opts) \<and>
      bigint_of_string (se_premiumLamports e) = Some (cr_premium (wo_classifier opts inp)) \<and>
      bigint_of_string (se_refundLamports e) = Some (cr_refund (wo_classifier opts inp))"
proof -
  show adm: "balance_admits bal"
    using assms by (rule_tac ccontr) (simp add: wrapFetch_refused_events)
  show "se_agentPubkey e = wo_walletPubkey opts" "se_callId e = wo_callId opts" "se_endpointSlug e = wo_endpointSlug opts"
    "se_network e = Some (case wo_network opts of None \<Rightarrow> ''solana-devnet'' | Some n \<Rightarrow> n)"
    using assms by (auto simp: wrapFetch_admitted [OF adm] forward_upstream_def wrap_event_def Let_def)
  show "\<exists>inp. ci_endpointConfig inp = ep_terms (wo_endpointConfig opts) \<and>
      bigint_of_string (se_premiumLamports e) = Some (cr_premium (wo_classifier opts inp)) \<and>
      bigint_of_string (se_refundLamports e) = Some (cr_refund (wo_classifier opts inp))"
    using assms
    by (auto simp: wrapFetch_admitted [OF adm] forward_upstream_def wrap_event_def Let_def
        intro!: exI [of _ "\<lparr>ci_response = up, ci_latencyMs = max 0 (t1 - t0), ci_endpointConfig = ep_terms (wo_endpointConfig opts)\<rparr>"])
qed

lemma route_endpoint_event:
  assumes "e \<in> set (rr_events (route_endpoint ctx ri slug req ep))"
  obtains wallet h bc al where "\<not> er_paused ep" "handlerRegistry slug = Some h"
    "select_balance_check ctx (er_network ep) = Some bc" "pact_wallet ctx req = Some (Some wallet)"
    "isInsurableMethod h req"
    "e \<in> set (rr_events (insured (ctx\<lparr>ac_demoAllowlist := al\<rparr>) ri slug wallet h req ep bc))"
  using assms that
  by (auto simp: route_endpoint_def split: if_splits option.splits sum.splits prod.splits)

lemma proxyRoute_event:
  assumes "e \<in> set (rr_events (proxyRoute ctx ri slug req))"
  obtains reg ep where
    "registry_get slug (hget (q_headers req) ''x-pact-network'') (ri_getNow ri) (ri_getRows ri)
       (ri_getLoaded ri) (ac_registry ctx) = (reg, Inr (Some ep))"
    "e \<in> set (rr_events (route_endpoint (ctx\<lparr>ac_registry := reg\<rparr>) ri slug req ep))"
  using assms that by (auto simp: proxyRoute_def Let_def split: prod.splits sum.splits option.splits)

lemma empty_network_header_skips_guard:
  assumes "hget (q_headers req) ''x-pact-network'' = Some []"
  shows "verifyPactSignature opts c store n1 n2 (auth_view req search) (getEndpointNetwork (q_headers req) row) =
      verifyPactSignature opts c store n1 n2 (auth_view req search) (Inr None)"
    and "registry_lookup slug (hget (q_headers req) ''x-pact-network'') reg = registry_lookup slug None reg"
  using assms by (simp_all add: getEndpointNetwork_def verifyPactSignature_def check_signature_def nonempty_def
      registry_lookup_def Let_def split: option.split)

lemma proxy_wallet_of_event:
  assumes "e \<in> set (rr_events (proxyRoute ctx ri slug req))"
  shows "pact_wallet ctx req = Some (Some (se_agentPubkey e))"
proof -
  obtain reg ep where "e \<in> set (rr_events (route_endpoint (ctx\<lparr>ac_registry := reg\<rparr>) ri slug req ep))"
    by (rule proxyRoute_event [OF assms])
  then obtain wallet h bc al where w: "pact_wallet (ctx\<lparr>ac_registry := reg\<rparr>) req = Some (Some wallet)"
    and e: "e \<in> set (rr_events (insured (ctx\<lparr>ac_registry := reg, ac_demoAllowlist := al\<rparr>) ri slug wallet h req ep bc))"
    by (rule route_endpoint_event) auto
  from e show ?thesis
    by (rule insured_event) (use w wrap_event_facts(2) in \<open>auto simp: route_wrap_options_def\<close>)
qed

text \<open>The \<open>Headers\<close> class keeps one lower-case entry per name.\<close>

definition headers_ok :: "headers \<Rightarrow> bool" where
  "headers_ok hs \<longleftrightarrow> distinct (map fst hs) \<and> (\<forall>k \<in> fst ` set hs. to_lower k = k)"

lemma headers_ok_hset: "headers_ok hs \<Longrightarrow> headers_ok (hset n v hs)"
  unfolding headers_ok_def hset_def
  by (simp add: distinct_update dom_update)

lemma hget_absent: "headers_ok ((k, v) # hs) \<Longrightarrow> to_lower n = k \<Longrightarrow> hget hs n = None"
  by (auto simp: headers_ok_def hget_def map_of_eq_None_iff)

lemma copy_headers_exact:
  assumes "headers_ok hs"
  shows "hget (copy_headers keep hs out) n =
    (if keep (to_lower n) \<and> hget hs n \<noteq> None then hget hs n else hget out n)"
  using assms
proof (induction hs arbitrary: out)
  case (Cons h hs)
  obtain k v where h: "h = (k, v)" by force
  have tail: "headers_ok hs" and low: "to_lower k = k" using Cons.prems by (auto simp: headers_ok_def h)
  have here: "hget (h # hs) n = (if k = to_lower n then Some v else hget hs n)"
    by (simp add: hget_def h)
  show ?case
  proof (cases "to_lower n = k")
    case True
    then have "hget hs n = None" using hget_absent Cons.prems h by blast
    with Cons.IH [OF tail] low h here True show ?thesis by auto
  next
    case False
    with Cons.IH [OF tail] low h here show ?thesis by auto
  qed
qed simp

lemma headers_ok_attach: "headers_ok (r_headers r) \<Longrightarrow> headers_ok (r_headers (attachPactHeaders r i))"
  by (simp add: attachPactHeaders_def Let_def headers_ok_hset split: option.split)

lemma headers_ok_json [simp]: "headers_ok (r_headers (json_response st body))"
  by (simp add: headers_ok_def json_response_def)

text \<open>What the route's final sanitising does to wrap's response.\<close>

lemma sanitised_wrap_headers:
  assumes "headers_ok (r_headers r)"
  shows "starts_with ''x-pact-'' (to_lower n) \<Longrightarrow>
      hget (r_headers (buildSanitisedResponse r (pact_headers_of (r_headers r)) None)) n = hget (r_headers r) n"
    and "to_lower n \<in> set STRIPPED_HEADERS \<Longrightarrow> to_lower n \<noteq> ''access-control-allow-origin'' \<Longrightarrow>
      hget (r_headers (buildSanitisedResponse r (pact_headers_of (r_headers r)) None)) n = None"
proof -
  let ?p = "pact_headers_of (r_headers r)"
  have acao: "to_lower ''Access-Control-Allow-Origin'' = ''access-control-allow-origin''" by code_simp
  have "headers_ok (copy_headers keep hs out)" if "headers_ok out" for keep hs out
    using that by (induction keep hs out rule: copy_headers.induct) (auto simp: headers_ok_hset)
  moreover have "headers_ok []" by (simp add: headers_ok_def)
  ultimately have ok: "headers_ok ?p" by (simp add: pact_headers_of_def)
  have p: "hget ?p n = (if starts_with ''x-pact-'' (to_lower n) then hget (r_headers r) n else None)"
    using copy_headers_exact [OF assms, of "\<lambda>n. starts_with ''x-pact-'' n" "[]" n] by (simp add: pact_headers_of_def)
  let ?s = "hset ''Access-Control-Allow-Origin'' ''*'' (copy_headers (\<lambda>n. n \<notin> set STRIPPED_HEADERS) (r_headers r) [])"
  have out: "hget (r_headers (buildSanitisedResponse r ?p None)) n = (if hget ?p n \<noteq> None then hget ?p n else hget ?s n)"
    using copy_headers_exact [OF ok, of "\<lambda>_. True" ?s n]
    by (simp add: buildSanitisedResponse_def sanitiseUpstreamResponseHeaders_def Let_def)
  have s: "hget ?s n = (if to_lower n = ''access-control-allow-origin'' then Some ''*''
      else if to_lower n \<notin> set STRIPPED_HEADERS then hget (r_headers r) n else None)"
    using copy_headers_exact [OF assms, of "\<lambda>n. n \<notin> set STRIPPED_HEADERS" "[]" n] acao by simp
  have np: "to_lower n \<notin> set STRIPPED_HEADERS \<and> to_lower n \<noteq> ''access-control-allow-origin''"
    if "starts_with ''x-pact-'' (to_lower n)"
    using that by (auto simp: STRIPPED_HEADERS_def starts_with_def)
  show "starts_with ''x-pact-'' (to_lower n) \<Longrightarrow>
      hget (r_headers (buildSanitisedResponse r ?p None)) n = hget (r_headers r) n"
    using out p s np by auto
  show "to_lower n \<in> set STRIPPED_HEADERS \<Longrightarrow> to_lower n \<noteq> ''access-control-allow-origin'' \<Longrightarrow>
      hget (r_headers (buildSanitisedResponse r ?p None)) n = None"
    using out p s np by auto
qed

lemma forward_headers_ok:
  assumes "\<forall>r. up = Some r \<longrightarrow> headers_ok (r_headers r)"
  shows "headers_ok (r_headers (wr_response (fst (forward_upstream opts up t0 t1))))"
  using assms by (simp add: forward_upstream_def Let_def headers_ok_attach split: option.split)

lemma forward_headers:
  assumes "snd (forward_upstream opts up t0 t1) = [e]"
  shows "hget (r_headers (wr_response (fst (forward_upstream opts up t0 t1)))) ''X-Pact-Premium'' = Some (se_premiumLamports e)"
    and "hget (r_headers (wr_response (fst (forward_upstream opts up t0 t1)))) ''X-Pact-Refund'' = Some (se_refundLamports e)"
    and "hget (r_headers (wr_response (fst (forward_upstream opts up t0 t1)))) ''X-Pact-Outcome'' = Some (outcome_str (se_outcome e))"
  using assms by (auto simp: forward_upstream_def wrap_event_def Let_def)

lemma buffered_upstream:
  "snd (buffered_fetch reply s) = Some r \<Longrightarrow> \<exists>j. reply = Some (r, j)"
  by (auto simp: buffered_fetch_def Let_def split: option.splits)

section \<open>Properties\<close>

text \<open>
  C10: only insured calls are billed. An event leaves the route only for an endpoint the registry
  resolved and that is not paused, a request its handler finds insurable, and a wallet given by the
  agent header (or the demo parameter when that is enabled). It names that wallet, slug and the
  endpoint's network; its premium is zero or the flat one and its refund at most the imputed cost
  plus that premium.
\<close>

theorem proxy_bills_insured_calls_only:
  assumes "e \<in> set (rr_events (proxyRoute ctx ri slug req))"
  shows "\<exists>reg ep wallet h p r.
    registry_get slug (hget (q_headers req) ''x-pact-network'') (ri_getNow ri) (ri_getRows ri)
      (ri_getLoaded ri) (ac_registry ctx) = (reg, Inr (Some ep)) \<and>
    \<not> er_paused ep \<and> handlerRegistry slug = Some h \<and> isInsurableMethod h req \<and>
    pact_wallet ctx req = Some (Some wallet) \<and>
    se_agentPubkey e = wallet \<and> se_endpointSlug e = slug \<and> se_network e = Some (er_network ep) \<and>
    bigint_of_string (se_premiumLamports e) = Some p \<and> bigint_of_string (se_refundLamports e) = Some r \<and>
    p \<in> {0, er_flatPremiumLamports ep} \<and>
    (terms_ok (endpoint_terms_of ep) \<longrightarrow> 0 \<le> r \<and> r \<le> er_imputedCostLamports ep + er_flatPremiumLamports ep)"
proof -
  obtain reg ep where reg: "registry_get slug (hget (q_headers req) ''x-pact-network'') (ri_getNow ri) (ri_getRows ri)
       (ri_getLoaded ri) (ac_registry ctx) = (reg, Inr (Some ep))"
    and e1: "e \<in> set (rr_events (route_endpoint (ctx\<lparr>ac_registry := reg\<rparr>) ri slug req ep))"
    by (rule proxyRoute_event [OF assms])
  obtain wallet h bc al where w: "\<not> er_paused ep" "handlerRegistry slug = Some h"
      "pact_wallet (ctx\<lparr>ac_registry := reg\<rparr>) req = Some (Some wallet)" "isInsurableMethod h req"
    and e2: "e \<in> set (rr_events (insured (ctx\<lparr>ac_registry := reg, ac_demoAllowlist := al\<rparr>) ri slug wallet h req ep bc))"
    by (rule route_endpoint_event [OF e1]) auto
  obtain factory bal resp opts where o: "\<exists>body. opts = route_wrap_options slug wallet (ri_callId ri) ep factory body"
    and e3: "e \<in> set (snd (wrapFetch opts (Some bal) resp (ri_tStart ri) (ri_tEnd ri)))"
    by (rule insured_event [OF e2])
  then obtain body where body: "opts = route_wrap_options slug wallet (ri_callId ri) ep factory body" by blast
  obtain inp where inp: "ci_endpointConfig inp = endpoint_terms_of ep"
      "bigint_of_string (se_premiumLamports e) = Some (cr_premium (run_classifier factory body inp))"
      "bigint_of_string (se_refundLamports e) = Some (cr_refund (run_classifier factory body inp))"
    using wrap_event_facts(6) [OF e3] by (auto simp: body route_wrap_options_def)
  have prem: "cr_premium (run_classifier factory body inp) \<in> {0, er_flatPremiumLamports ep}"
    using market_c.client_error_free [of factory body inp] market_c.charged_flat [of factory body inp] inp(1)
    by (auto simp: endpoint_terms_of_def)
  have ref: "0 \<le> cr_refund (run_classifier factory body inp) \<and> cr_refund (run_classifier factory body inp) \<le>
      er_imputedCostLamports ep + er_flatPremiumLamports ep" if "terms_ok (endpoint_terms_of ep)"
    using market_c.refund_bounds [of inp factory body] inp(1) that by (simp add: endpoint_terms_of_def)
  have "pact_wallet ctx req = Some (Some wallet)" using w(3) by simp
  with reg w(1,2,4) inp(2,3) prem ref wrap_event_facts(2,3,5) [OF e3] show ?thesis
    by (auto simp: body route_wrap_options_def)
qed

text \<open>A concrete endpoint, context and signed request for the witnesses.\<close>

definition toy_endpoint :: endpoint_row where
  "toy_endpoint = \<lparr>er_slug = ''fal'', er_network = ''arc'', er_flatPremiumLamports = 10, er_percentBps = 0,
     er_slaLatencyMs = 100, er_imputedCostLamports = 50, er_exposureCapPerHourLamports = 900, er_paused = False,
     er_upstreamBase = ''https://f'', er_displayName = ''F''\<rparr>"

definition toy_ctx :: app_context where
  "toy_ctx = \<lparr>ac_registry = \<lparr>rg_cache = [(''fal::arc'', toy_endpoint)], rg_loadedAt = 0\<rparr>,
     ac_demoAllowlist = allowlist_init, ac_balanceCheck = (\<lambda>_ _. Inl ''unused''),
     ac_adapters = [(''arc'', \<lambda>_ _. Inr (ElEligible 100 100))], ac_legacyDirectSolana = False,
     ac_insecureDemo = None, ac_heliusKey = None\<rparr>"

definition toy_inputs :: route_inputs where
  "toy_inputs = \<lparr>ri_getNow = 0, ri_getRows = Inl [], ri_getLoaded = 0, ri_netNow = 0, ri_netRows = Inl [], ri_netLoaded = 0,
     ri_allowNow = 0, ri_allowRows = Inl [], ri_allowLoaded = 0, ri_callId = ''c'', ri_upstream = (\<lambda>_. None),
     ri_tStart = 3, ri_tEnd = 8\<rparr>"

definition toy_call :: request where
  "toy_call = \<lparr>q_method = ''GET'', q_url = \<lparr>u_scheme = ''https'', u_host = ''p'', u_path = ''/v1/fal/x'', u_query = []\<rparr>,
     q_headers = [(''x-pact-agent'', ''0xAB''), (''x-pact-timestamp'', ''50000''), (''x-pact-nonce'', ''n''),
        (''x-pact-signature'', ''good''), (''x-pact-project'', ''p'')], q_body = None, q_json = None\<rparr>"

lemma toy_call_headers:
  "hget (q_headers toy_call) ''x-pact-network'' = None"
  "truthy_header (q_headers toy_call) ''x-pact-agent'' = Some ''0xAB''"
  "truthy_header (q_headers toy_call) ''x-pact-timestamp'' = Some ''50000''"
  "truthy_header (q_headers toy_call) ''x-pact-nonce'' = Some ''n''"
  "truthy_header (q_headers toy_call) ''x-pact-signature'' = Some ''good''"
  "truthy_header (q_headers toy_call) ''x-pact-project'' = Some ''p''"
  by (simp_all add: truthy_header_def hget_def toy_call_def to_lower_def lower_char_def)

lemma toy_registry_get:
  "registry_get ''fal'' None 0 (Inl []) 0 (ac_registry toy_ctx) = (ac_registry toy_ctx, Inr (Some toy_endpoint))"
  by (simp add: registry_get_def registry_refresh_def toy_ctx_def REGISTRY_TTL_MS_def registry_lookup_def
      slug_matches_def starts_with_def)

lemma toy_built: "\<exists>up. buildRequest Fal None toy_call ''https://f'' = Inr up"
  by (simp add: buildRequest_def parse_base_def resolve_url_def starts_with_def toy_call_def Let_def)

lemma toy_route:
  "\<exists>e. rr_events (proxyRoute toy_ctx toy_inputs ''fal'' toy_call) = [e] \<and>
     (\<exists>r. rr_out (proxyRoute toy_ctx toy_inputs ''fal'' toy_call) = Served r)"
proof -
  obtain up where up: "buildRequest Fal None toy_call ''https://f'' = Inr up" using toy_built by blast
  have cls: "classifierRegistry ''fal'' = Some Static" by (simp add: classifierRegistry_def)
  have bal: "balance_admits (Some (Inr (Eligible 100 100)))" by (simp add: balance_admits_def)
  have ins: "\<exists>e. rr_events (insured toy_ctx toy_inputs ''fal'' ''0xAB'' Fal toy_call toy_endpoint
        (\<lambda>w r. case Inr (ElEligible 100 100) of Inl e \<Rightarrow> Inl e | Inr el \<Rightarrow> Inr (adapterToBalanceCheck el))) = [e] \<and>
      (\<exists>r. rr_out (insured toy_ctx toy_inputs ''fal'' ''0xAB'' Fal toy_call toy_endpoint
        (\<lambda>w r. case Inr (ElEligible 100 100) of Inl e \<Rightarrow> Inl e | Inr el \<Rightarrow> Inr (adapterToBalanceCheck el))) = Served r)"
    using up cls
    by (simp add: insured_def toy_endpoint_def toy_ctx_def wrapFetch_admitted [OF bal] forward_upstream_def
        Let_def buffered_fetch_def toy_inputs_def)
  have "route_endpoint toy_ctx toy_inputs ''fal'' toy_call toy_endpoint =
      insured toy_ctx toy_inputs ''fal'' ''0xAB'' Fal toy_call toy_endpoint
        (\<lambda>w r. case Inr (ElEligible 100 100) of Inl e \<Rightarrow> Inl e | Inr el \<Rightarrow> Inr (adapterToBalanceCheck el))"
  proof -
    have "\<not> er_paused toy_endpoint" "er_network toy_endpoint = ''arc''" by (simp_all add: toy_endpoint_def)
    moreover have "handlerRegistry ''fal'' = Some Fal" by (simp add: handlerRegistry_def)
    moreover have "select_balance_check toy_ctx ''arc'' =
        Some (\<lambda>w r. case Inr (ElEligible 100 100) of Inl e \<Rightarrow> Inl e | Inr el \<Rightarrow> Inr (adapterToBalanceCheck el))"
      by (simp add: select_balance_check_def toy_ctx_def)
    moreover have "pact_wallet toy_ctx toy_call = Some (Some ''0xAB'')" by (simp add: pact_wallet_def toy_call_headers)
    moreover have "isInsurableMethod Fal toy_call" by (simp add: isInsurableMethod_def)
    moreover have "q_param toy_call ''demo_breach'' = None" by (simp add: q_param_def toy_call_def)
    ultimately show ?thesis by (simp add: route_endpoint_def computeDemoBreachDelayMs_def)
  qed
  moreover have "proxyRoute toy_ctx toy_inputs ''fal'' toy_call = route_endpoint toy_ctx toy_inputs ''fal'' toy_call toy_endpoint"
    by (simp add: proxyRoute_def toy_call_headers toy_registry_get) (simp add: toy_inputs_def toy_registry_get)
  ultimately show ?thesis using ins by simp
qed

theorem proxy_bills_insured_calls_only_witness:
  "\<exists>e. rr_events (proxyRoute toy_ctx toy_inputs ''fal'' toy_call) = [e] \<and> se_endpointSlug e = ''fal''"
proof -
  obtain e where e: "rr_events (proxyRoute toy_ctx toy_inputs ''fal'' toy_call) = [e]" using toy_route by blast
  then have "e \<in> set (rr_events (proxyRoute toy_ctx toy_inputs ''fal'' toy_call))" by simp
  from proxy_bills_insured_calls_only [OF this] e show ?thesis by blast
qed

text \<open>
  What the caller sees of a billed call. If the upstream's headers are well formed, the
  response that accompanies an event carries exactly that event's premium, refund and outcome in
  its \<open>X-Pact-*\<close> headers, whatever the upstream sent under those names, and none of the upstream's
  cookie, server or CORS headers.
\<close>

theorem billed_response_headers:
  assumes "rr_events (proxyRoute ctx ri slug req) = [e]" and "rr_out (proxyRoute ctx ri slug req) = Served r"
    and "\<forall>q resp j. ri_upstream ri q = Some (resp, j) \<longrightarrow> headers_ok (r_headers resp)"
  shows "hget (r_headers r) ''X-Pact-Premium'' = Some (se_premiumLamports e) \<and>
    hget (r_headers r) ''X-Pact-Refund'' = Some (se_refundLamports e) \<and>
    hget (r_headers r) ''X-Pact-Outcome'' = Some (outcome_str (se_outcome e)) \<and>
    hget (r_headers r) ''set-cookie'' = None \<and> hget (r_headers r) ''server'' = None \<and>
    hget (r_headers r) ''access-control-allow-credentials'' = None"
proof -
  have "e \<in> set (rr_events (proxyRoute ctx ri slug req))" using assms(1) by simp
  then obtain reg ep where reg: "registry_get slug (hget (q_headers req) ''x-pact-network'') (ri_getNow ri) (ri_getRows ri)
       (ri_getLoaded ri) (ac_registry ctx) = (reg, Inr (Some ep))"
    and e1: "e \<in> set (rr_events (route_endpoint (ctx\<lparr>ac_registry := reg\<rparr>) ri slug req ep))"
    by (rule proxyRoute_event)
  have p: "proxyRoute ctx ri slug req = route_endpoint (ctx\<lparr>ac_registry := reg\<rparr>) ri slug req ep"
    using reg by (simp add: proxyRoute_def)
  obtain ctx' wallet h bc where q: "route_endpoint (ctx\<lparr>ac_registry := reg\<rparr>) ri slug req ep = insured ctx' ri slug wallet h req ep bc"
    using e1 by (auto simp: route_endpoint_def split: if_splits option.splits sum.splits prod.splits)
  have e2: "e \<in> set (rr_events (insured ctx' ri slug wallet h req ep bc))" using e1 q by simp
  obtain up factory where up: "buildRequest h (ac_heliusKey ctx') req (er_upstreamBase ep) = Inr up"
    and fac: "classifierRegistry slug = Some factory"
    by (rule insured_event [OF e2])
  obtain buffered resp where b: "buffered_fetch (ri_upstream ri up) buffered_init = (buffered, resp)" by force
  let ?opts = "route_wrap_options slug wallet (ri_callId ri) ep factory (bf_parsed buffered)"
  let ?bal = "Some (bc wallet (required_premium ?opts))"
  let ?w = "wrapFetch ?opts ?bal resp (ri_tStart ri) (ri_tEnd ri)"
  have out: "rr_events (insured ctx' ri slug wallet h req ep bc) = snd ?w"
    "rr_out (insured ctx' ri slug wallet h req ep bc) = Served (buildSanitisedResponse (wr_response (fst ?w))
        (pact_headers_of (r_headers (wr_response (fst ?w)))) None)"
    using up fac b by (simp_all add: insured_def split_beta Let_def)
  have adm: "balance_admits ?bal" using wrap_event_facts(1) e2 out(1) by auto
  have ok: "\<forall>x. resp = Some x \<longrightarrow> headers_ok (r_headers x)"
    using assms(3) buffered_upstream [of "ri_upstream ri up" buffered_init] b by auto
  have w: "?w = forward_upstream ?opts resp (ri_tStart ri) (ri_tEnd ri)" by (rule wrapFetch_admitted [OF adm])
  have hok: "headers_ok (r_headers (wr_response (fst ?w)))" unfolding w by (rule forward_headers_ok [OF ok])
  have r: "r = buildSanitisedResponse (wr_response (fst ?w)) (pact_headers_of (r_headers (wr_response (fst ?w)))) None"
    and e: "snd ?w = [e]"
    using assms(1,2) p q out by auto
  have low: "to_lower ''set-cookie'' = ''set-cookie''" "to_lower ''server'' = ''server''"
    "to_lower ''access-control-allow-credentials'' = ''access-control-allow-credentials''" by code_simp+
  have keep: "hget (r_headers r) n = hget (r_headers (wr_response (fst ?w))) n" if "starts_with ''x-pact-'' (to_lower n)" for n
    unfolding r by (rule sanitised_wrap_headers(1) [OF hok that])
  have "hget (r_headers r) ''X-Pact-Premium'' = Some (se_premiumLamports e)"
    "hget (r_headers r) ''X-Pact-Refund'' = Some (se_refundLamports e)"
    "hget (r_headers r) ''X-Pact-Outcome'' = Some (outcome_str (se_outcome e))"
    using forward_headers [OF e [unfolded w]] by (simp_all add: keep starts_with_def w)
  moreover have "hget (r_headers r) n = None" if "to_lower n \<in> {''set-cookie'', ''server'', ''access-control-allow-credentials''}" for n
    unfolding r by (rule sanitised_wrap_headers(2) [OF hok]) (use that in \<open>auto simp: STRIPPED_HEADERS_def\<close>)
  ultimately show ?thesis using low by simp
qed

theorem billed_response_headers_witness:
  "\<exists>r e. rr_out (proxyRoute toy_ctx toy_inputs ''fal'' toy_call) = Served r \<and>
     rr_events (proxyRoute toy_ctx toy_inputs ''fal'' toy_call) = [e] \<and>
     hget (r_headers r) ''X-Pact-Premium'' = Some (se_premiumLamports e)"
proof -
  obtain e r where er: "rr_events (proxyRoute toy_ctx toy_inputs ''fal'' toy_call) = [e]"
    "rr_out (proxyRoute toy_ctx toy_inputs ''fal'' toy_call) = Served r"
    using toy_route by blast
  from billed_response_headers [OF this] er show ?thesis by (simp add: toy_inputs_def)
qed

text \<open>
  The billed identity is not the verified one. The middleware stashes the lower-case form of
  an EVM agent, but the route reads the raw header again, so a call signed by an agent whose header
  is not already in that form is billed to an identity different from the verified one.
\<close>

theorem billed_identity_is_raw_header:
  assumes "gateway gate opts c store now1 now2 row ctx ri slug search req = (store', Routed res)"
    and "e \<in> set (rr_events res)"
    and "hget (q_headers req) ''x-pact-agent'' = Some agent" and "agent \<noteq> []"
    and "isAddress c agent" and "to_lower (getAddress c agent) \<noteq> agent"
  shows "snd (verifyPactSignature opts c store now1 now2 (auth_view req search)
           (getEndpointNetwork (q_headers req) row)) = Next (Some (to_lower (getAddress c agent))) \<and>
    se_agentPubkey e = agent \<and> se_agentPubkey e \<noteq> to_lower (getAddress c agent)"
proof -
  have agent: "truthy_header (q_headers req) ''x-pact-agent'' = Some agent"
    using assms(3,4) by (cases agent) (simp_all add: truthy_header_def)
  obtain a where v: "verifyPactSignature opts c store now1 now2 (auth_view req search)
      (getEndpointNetwork (q_headers req) row) = (store', Next a)" and res: "res = proxyRoute ctx ri slug req"
    using assms(1) by (auto simp: gateway_def split: gate_result.splits prod.splits auth_result.splits)
  have "a \<noteq> None" by (rule verify_identifies [OF v]) (simp add: auth_view_def agent)
  then obtain a' where a': "a = Some a'" by blast
  have "a' = to_lower (getAddress c agent)"
    using v [unfolded a'] agent assms(5)
    by (elim verify_cases check_signature_cases) (auto simp: auth_view_def)
  moreover have "se_agentPubkey e = agent"
    using proxy_wallet_of_event [of e ctx ri slug req] assms(2) res agent by (simp add: pact_wallet_def)
  ultimately show ?thesis using v a' assms(6) by simp
qed

lemma toy_gateway:
  "\<exists>store'. gateway GatePass default_opts toy_crypto [] 20000 20000 (Inr (Some toy_endpoint)) toy_ctx toy_inputs ''fal'' [] toy_call =
     (store', Routed (proxyRoute toy_ctx toy_inputs ''fal'' toy_call))"
proof -
  have net: "getEndpointNetwork (q_headers toy_call) (Inr (Some toy_endpoint)) = Inr (Some ''arc'')"
    by (simp add: getEndpointNetwork_def toy_call_headers toy_endpoint_def)
  have vm: "agent_vm toy_crypto ''0xAB'' = EVM" "networkToVm ''arc'' = EVM"
    by (simp_all add: agent_vm_def toy_crypto_def starts_with_def networkToVm_def)
  have "check_signature toy_crypto (auth_view toy_call []) ''0xAB'' 50000 ''n'' ''good'' (Inr (Some ''arc'')) =
      Next (Some (normalizedAgent toy_crypto ''0xAB''))"
    using vm by (simp add: check_signature_def auth_view_def toy_call_def verify_evm_def auth_payloads_def Let_def nonempty_def)
       (simp add: toy_crypto_def)
  then have "verifyPactSignature default_opts toy_crypto [] 20000 20000 (auth_view toy_call []) (Inr (Some ''arc'')) =
      ([(normalizedAgent toy_crypto ''0xAB'' @ '':n'', 80000)], Next (Some (normalizedAgent toy_crypto ''0xAB'')))"
    by (simp add: verifyPactSignature_def auth_view_def toy_call_headers toy_timestamp replay_seen_def sweep_def
        default_opts_def DEFAULT_SKEW_MS_def DEFAULT_REPLAY_TTL_MS_def Let_def)
  then show ?thesis by (simp add: gateway_def net)
qed

theorem billed_identity_is_raw_header_witness:
  "\<exists>e. rr_events (proxyRoute toy_ctx toy_inputs ''fal'' toy_call) = [e] \<and>
     se_agentPubkey e = ''0xAB'' \<and> se_agentPubkey e \<noteq> to_lower (getAddress toy_crypto ''0xAB'')"
proof -
  obtain e where e: "rr_events (proxyRoute toy_ctx toy_inputs ''fal'' toy_call) = [e]" using toy_route by blast
  obtain store' where g: "gateway GatePass default_opts toy_crypto [] 20000 20000 (Inr (Some toy_endpoint)) toy_ctx toy_inputs
      ''fal'' [] toy_call = (store', Routed (proxyRoute toy_ctx toy_inputs ''fal'' toy_call))" using toy_gateway by blast
  have "e \<in> set (rr_events (proxyRoute toy_ctx toy_inputs ''fal'' toy_call))" using e by simp
  moreover have "hget (q_headers toy_call) ''x-pact-agent'' = Some ''0xAB''"
    by (simp add: hget_def toy_call_def to_lower_def lower_char_def)
  moreover have "isAddress toy_crypto ''0xAB''" "to_lower (getAddress toy_crypto ''0xAB'') \<noteq> ''0xAB''"
    by (simp add: toy_crypto_def starts_with_def) code_simp
  ultimately show ?thesis using billed_identity_is_raw_header [OF g] e by blast
qed

end
