(* ===== verification/ByteCodec.thy ===== *)
theory ByteCodec
  imports Prelude "HOL-Library.Monad_Syntax"
begin

text \<open>
  Byte buffers and the reads and writes the codecs use: \<open>Buffer\<close> (Node), \<open>Uint8Array\<close> and
  \<open>DataView\<close> in the TypeScript client, \<open>from_le_bytes\<close> in the program. A buffer is a list of
  8-bit words. A write returns \<open>None\<close> when the library throws (\<open>Buffer.writeUInt16LE\<close> and its
  siblings on a value out of range); \<open>DataView.setUint16\<close> and \<open>buf[i] = n\<close> wrap instead.
\<close>

type_synonym byte = "8 word"
type_synonym bytes = "byte list"

section \<open>Little-endian numbers\<close>

fun le_bytes :: "nat \<Rightarrow> nat \<Rightarrow> bytes" where
  "le_bytes 0 v = []"
| "le_bytes (Suc n) v = of_nat (v mod 256) # le_bytes n (v div 256)"

fun le_val :: "bytes \<Rightarrow> nat" where
  "le_val [] = 0"
| "le_val (b # bs) = unat b + 256 * le_val bs"

lemma length_le_bytes [simp]: "length (le_bytes n v) = n"
  by (induction n arbitrary: v) auto

lemma unat_of_mod [simp]: "unat (of_nat (v mod 256) :: byte) = v mod 256"
  by (simp add: unat_of_nat)

lemma le_val_le_bytes: "le_val (le_bytes n v) = v mod 256 ^ n"
proof (induction n arbitrary: v)
  case (Suc n)
  have "v mod (256 * 256 ^ n) = 256 * (v div 256 mod 256 ^ n) + v mod 256"
    by (rule mod_mult2_eq)
  with Suc show ?case by simp
qed simp

lemma le_val_bound: "le_val bs < 256 ^ length bs"
proof (induction bs)
  case (Cons b bs)
  have "unat b < 256" using unsigned_less [of b, where ?'a = nat] by simp
  moreover have "le_val bs + 1 \<le> 256 ^ length bs" using Cons by simp
  then have "256 * (le_val bs + 1) \<le> 256 * 256 ^ length bs" by (rule mult_le_mono2)
  ultimately show ?case by simp
qed simp

text \<open>Two's complement, for the \<open>i64\<close> fields.\<close>

definition le_signed :: "nat \<Rightarrow> int \<Rightarrow> bytes" where
  "le_signed n v = le_bytes n (nat (v mod 256 ^ n))"

definition signed_val :: "bytes \<Rightarrow> int" where
  "signed_val bs = (let u = int (le_val bs); m = 256 ^ length bs in if 2 * u < m then u else u - m)"

lemma length_le_signed [simp]: "length (le_signed n v) = n"
  by (simp add: le_signed_def)

lemma signed_val_le_signed:
  assumes "- (256 ^ n) \<le> 2 * v" and "2 * v < 256 ^ n"
  shows "signed_val (le_signed n v) = v"
proof -
  let ?m = "256 ^ n :: int"
  have m: "0 < ?m" by simp
  have "int (nat (v mod ?m) mod 256 ^ n) = v mod ?m"
    by (simp add: of_nat_mod)
  then have u: "int (le_val (le_signed n v)) = v mod ?m"
    by (simp add: le_signed_def le_val_le_bytes)
  show ?thesis
  proof (cases "0 \<le> v")
    case True
    then have "v mod ?m = v" using assms by simp
    with u assms show ?thesis by (simp add: signed_val_def Let_def)
  next
    case False
    then have "v mod ?m = v + ?m"
      using mod_pos_pos_trivial [of "v + ?m" ?m] assms by simp
    with u assms False show ?thesis by (simp add: signed_val_def Let_def)
  qed
qed

section \<open>Reading and writing at an offset\<close>

definition slice :: "nat \<Rightarrow> nat \<Rightarrow> bytes \<Rightarrow> bytes" where
  "slice off n bs = take n (drop off bs)"

text \<open>\<open>src.copy(buf, off)\<close>: what does not fit is dropped.\<close>

definition copy_to :: "bytes \<Rightarrow> nat \<Rightarrow> bytes \<Rightarrow> bytes" where
  "copy_to src off buf = take off buf @ take (length buf - off) src @ drop (off + length src) buf"

lemma length_slice [simp]: "length (slice off n bs) = min n (length bs - off)"
  by (auto simp: slice_def less_diff_conv add.commute)

lemma length_copy [simp]: "length (copy_to src off buf) = length buf"
  by (simp add: copy_to_def min_def)

lemma nth_copy:
  "i < length buf \<Longrightarrow>
     copy_to src off buf ! i = (if off \<le> i \<and> i < off + length src then src ! (i - off) else buf ! i)"
  by (auto simp: copy_to_def nth_append min_def)

lemma nth_slice_min: "i < min n (length bs - off) \<Longrightarrow> slice off n bs ! i = bs ! (off + i)"
  by (auto simp: slice_def less_diff_conv add.commute)

lemma slice_copy_same [simp]:
  "off + length src \<le> length buf \<Longrightarrow> n = length src \<Longrightarrow> slice off n (copy_to src off buf) = src"
  by (simp add: slice_def copy_to_def)

lemma slice_copy_before [simp]:
  "off + n \<le> off' \<Longrightarrow> slice off n (copy_to src off' buf) = slice off n buf"
  by (rule nth_equalityI) (auto simp: nth_slice_min nth_copy less_diff_conv)

lemma slice_copy_after [simp]:
  "off' + length src \<le> off \<Longrightarrow> slice off n (copy_to src off' buf) = slice off n buf"
  by (rule nth_equalityI) (auto simp: nth_slice_min nth_copy less_diff_conv)

lemma nth_slice: "i < n \<Longrightarrow> off + n \<le> length bs \<Longrightarrow> slice off n bs ! i = bs ! (off + i)"
  by (auto simp: slice_def less_diff_conv add.commute)

lemma slice_slice: "a + m \<le> n \<Longrightarrow> slice a m (slice off n bs) = slice (off + a) m bs"
  by (simp add: slice_def drop_take min_def add.commute)

lemma slice_take: "off + n \<le> k \<Longrightarrow> slice off n (take k bs) = slice off n bs"
  by (simp add: slice_def drop_take min_def)

lemma slice_append_left: "off + n \<le> length a \<Longrightarrow> slice off n (a @ b) = slice off n a"
  by (auto simp: slice_def less_diff_conv add.commute)

lemma slice_append_right: "length a \<le> off \<Longrightarrow> slice off n (a @ b) = slice (off - length a) n b"
  by (auto simp: slice_def less_diff_conv add.commute)

lemma slice_all: "n = length bs \<Longrightarrow> slice 0 n bs = bs"
  by (auto simp: slice_def less_diff_conv add.commute)

lemma slice_Cons: "0 < off \<Longrightarrow> slice off n (b # bs) = slice (off - 1) n bs"
  by (cases off) (simp_all add: slice_def)

lemma slice_Cons_0 [simp]: "slice 0 (Suc n) (b # bs) = b # slice 0 n bs"
  by (simp add: slice_def)

lemma slice_0 [simp]: "slice off 0 bs = []"
  by (simp add: slice_def)

text \<open>The readers; callers check the length first.\<close>

definition u8 :: "nat \<Rightarrow> bytes \<Rightarrow> int" where "u8 off bs = uint (bs ! off)"
definition u16 :: "nat \<Rightarrow> bytes \<Rightarrow> int" where "u16 off bs = int (le_val (slice off 2 bs))"
definition u32 :: "nat \<Rightarrow> bytes \<Rightarrow> int" where "u32 off bs = int (le_val (slice off 4 bs))"
definition u64 :: "nat \<Rightarrow> bytes \<Rightarrow> int" where "u64 off bs = int (le_val (slice off 8 bs))"
definition i64 :: "nat \<Rightarrow> bytes \<Rightarrow> int" where "i64 off bs = signed_val (slice off 8 bs)"

text \<open>A byte is a one-byte slice, so that its reads fall under the same rules.\<close>

lemma u8_slice: "off < length bs \<Longrightarrow> u8 off bs = int (le_val (slice off 1 bs))"
  by (simp add: u8_def slice_def take_Suc_conv_app_nth Cons_nth_drop_Suc [symmetric])

text \<open>The writers. \<open>set_byte\<close> is \<open>buf[i] = n\<close>: modulo 256, ignored past the end.\<close>

definition set_byte :: "int \<Rightarrow> nat \<Rightarrow> bytes \<Rightarrow> bytes" where
  "set_byte v off buf = buf[off := word_of_int v]"

definition set_u16 :: "int \<Rightarrow> nat \<Rightarrow> bytes \<Rightarrow> bytes" where
  "set_u16 v off buf = copy_to (le_bytes 2 (nat (v mod 2 ^ 16))) off buf"

definition write_uint :: "nat \<Rightarrow> int \<Rightarrow> nat \<Rightarrow> bytes \<Rightarrow> bytes option" where
  "write_uint n v off buf =
     (if 0 \<le> v \<and> v < 256 ^ n \<and> off + n \<le> length buf then Some (copy_to (le_bytes n (nat v)) off buf) else None)"

definition write_i64 :: "int \<Rightarrow> nat \<Rightarrow> bytes \<Rightarrow> bytes option" where
  "write_i64 v off buf =
     (if - (2 ^ 63) \<le> v \<and> v < 2 ^ 63 \<and> off + 8 \<le> length buf then Some (copy_to (le_signed 8 v) off buf) else None)"

lemma set_byte_copy: "off < length buf \<Longrightarrow> set_byte v off buf = copy_to [word_of_int v] off buf"
  by (simp add: set_byte_def copy_to_def upd_conv_take_nth_drop)

lemma length_set_byte [simp]: "length (set_byte v off buf) = length buf"
  by (simp add: set_byte_def)

lemma length_set_u16 [simp]: "length (set_u16 v off buf) = length buf"
  by (simp add: set_u16_def)

lemma le_val_one [simp]: "le_val [b] = unat b"
  by simp

lemma int_le_val_le_bytes: "0 \<le> v \<Longrightarrow> v < 256 ^ n \<Longrightarrow> int (le_val (le_bytes n (nat v))) = v"
  by (simp add: le_val_le_bytes of_nat_mod)

section \<open>Regions\<close>

text \<open>
  Two buffers that differ only inside \<open>[off, off + n)\<close>: how the writers of one record are seen by
  the readers of another.
\<close>

definition same_outside :: "nat \<Rightarrow> nat \<Rightarrow> bytes \<Rightarrow> bytes \<Rightarrow> bool" where
  "same_outside off n a b \<longleftrightarrow> length a = length b \<and> take off a = take off b \<and> drop (off + n) a = drop (off + n) b"

lemma same_outside_refl [simp]: "same_outside off n a a"
  by (simp add: same_outside_def)

lemma same_outside_trans [trans]: "same_outside off n a b \<Longrightarrow> same_outside off n b c \<Longrightarrow> same_outside off n a c"
  by (simp add: same_outside_def)

lemma same_outside_copy:
  assumes "off \<le> o'" "o' + length src \<le> off + n"
  shows "same_outside off n (copy_to src o' a) a"
proof -
  have "take off (copy_to src o' a) = take off a"
    by (rule nth_equalityI) (use assms in \<open>simp_all add: nth_copy\<close>)
  moreover have "drop (off + n) (copy_to src o' a) = drop (off + n) a"
    by (rule nth_equalityI) (use assms in \<open>simp_all add: nth_copy\<close>)
  ultimately show ?thesis by (simp add: same_outside_def)
qed

lemma same_outside_slice:
  assumes "same_outside off n a b" and "o' + m \<le> off \<or> off + n \<le> o'"
  shows "slice o' m a = slice o' m b"
proof (cases "o' + m \<le> off")
  case True
  then have "slice o' m a = slice o' m (take off a)" "slice o' m b = slice o' m (take off b)"
    by (simp_all add: slice_take)
  with assms show ?thesis by (simp add: same_outside_def)
next
  case False
  then have "drop o' a = drop (o' - (off + n)) (drop (off + n) a)" "drop o' b = drop (o' - (off + n)) (drop (off + n) b)"
    using assms by auto
  with assms show ?thesis by (simp add: same_outside_def slice_def)
qed

end
