(* ===== verification/ProtocolState.thy ===== *)
theory ProtocolState
  imports ByteCodec
begin

text \<open>
  The account decoders of \<open>packages/protocol-v1-client/src/state.ts\<close>, beside the \<open>#[repr(C)]\<close>
  layouts of the on-chain program (\<open>state.rs\<close>) they mirror. A decoder returns \<open>None\<close> where the
  code throws. Base58 text is third-party: \<open>b58\<close> is \<open>PublicKey(bytes).toBase58()\<close> and \<open>unb58\<close> is
  \<open>new PublicKey(text).toBytes()\<close> (\<open>None\<close>: it throws).
\<close>

section \<open>Base58\<close>

definition base58_ok :: "(bytes \<Rightarrow> string) \<Rightarrow> (string \<Rightarrow> bytes option) \<Rightarrow> bool" where
  "base58_ok b58 unb58 \<longleftrightarrow>
     (\<forall>k. length k = 32 \<longrightarrow> unb58 (b58 k) = Some k) \<and> (\<forall>s k. unb58 s = Some k \<longrightarrow> length k = 32)"

lemma base58_decode: "base58_ok b58 unb58 \<Longrightarrow> length k = 32 \<Longrightarrow> unb58 (b58 k) = Some k"
  by (simp add: base58_ok_def)

lemma base58_length: "base58_ok b58 unb58 \<Longrightarrow> unb58 s = Some k \<Longrightarrow> length k = 32"
  by (simp add: base58_ok_def)

text \<open>A concrete pair with that contract, for the witnesses: one character per byte.\<close>

definition text_b58 :: "bytes \<Rightarrow> string" where
  "text_b58 = List.map (\<lambda>b. char_of (unat b))"

definition text_unb58 :: "string \<Rightarrow> bytes option" where
  "text_unb58 s = (if length s = 32 then Some (List.map of_char s) else None)"

lemma text_base58_ok [simp]: "base58_ok text_b58 text_unb58"
proof -
  have "of_char (char_of (unat b) :: char) = b" for b :: byte
  proof -
    have "unat b < 256" using unsigned_less [of b, where ?'a = nat] by simp
    then have "(of_char (char_of (unat b) :: char) :: nat) = unat b" by (simp add: of_char_of)
    then show ?thesis by (metis of_nat_of_char of_nat_unat ucast_id)
  qed
  then show ?thesis by (auto simp: base58_ok_def text_b58_def text_unb58_def comp_def split: if_splits)
qed

section \<open>Constants\<close>

definition FEE_RECIPIENT_LEN :: nat where [js_simps]: "FEE_RECIPIENT_LEN = 48"
definition COVERAGE_POOL_LEN :: nat where [js_simps]: "COVERAGE_POOL_LEN = 160"
definition ENDPOINT_CONFIG_LEN :: nat where [js_simps]: "ENDPOINT_CONFIG_LEN = 544"
definition CALL_RECORD_LEN :: nat where [js_simps]: "CALL_RECORD_LEN = 112"
definition SETTLEMENT_AUTHORITY_LEN :: nat where [js_simps]: "SETTLEMENT_AUTHORITY_LEN = 48"
definition TREASURY_LEN :: nat where [js_simps]: "TREASURY_LEN = 80"
definition PROTOCOL_CONFIG_LEN :: nat where [js_simps]: "PROTOCOL_CONFIG_LEN = 464"
definition MAX_FEE_RECIPIENTS :: int where [js_simps]: "MAX_FEE_RECIPIENTS = 8"

definition KIND_Treasury :: int where [js_simps]: "KIND_Treasury = 0"
definition KIND_AffiliateAta :: int where [js_simps]: "KIND_AffiliateAta = 1"
definition KIND_AffiliatePda :: int where [js_simps]: "KIND_AffiliatePda = 2"

section \<open>Fee recipients\<close>

record fee_recipient =
  fr_kind :: int
  fr_destination :: string
  fr_bps :: int

definition readPubkey :: "(bytes \<Rightarrow> string) \<Rightarrow> bytes \<Rightarrow> nat \<Rightarrow> string" where
  "readPubkey b58 bs off = b58 (slice off 32 bs)"

definition decodeFeeRecipient :: "(bytes \<Rightarrow> string) \<Rightarrow> bytes \<Rightarrow> nat \<Rightarrow> fee_recipient option" where
  "decodeFeeRecipient b58 bs off =
     (if length bs < off + FEE_RECIPIENT_LEN then None
      else if u8 off bs > KIND_AffiliatePda then None
      else Some \<lparr>fr_kind = u8 off bs, fr_destination = readPubkey b58 bs (off + 8), fr_bps = u16 (off + 40) bs\<rparr>)"

fun all_some :: "'a option list \<Rightarrow> 'a list option" where
  "all_some [] = Some []"
| "all_some (x # xs) =
     (case x of None \<Rightarrow> None | Some a \<Rightarrow> map_option (\<lambda>as. a # as) (all_some xs))"

definition decodeFeeRecipientArray :: "(bytes \<Rightarrow> string) \<Rightarrow> bytes \<Rightarrow> nat \<Rightarrow> int \<Rightarrow> fee_recipient list option" where
  "decodeFeeRecipientArray b58 bs base cnt =
     (if cnt > MAX_FEE_RECIPIENTS then None
      else all_some (List.map (\<lambda>i. decodeFeeRecipient b58 bs (base + i * FEE_RECIPIENT_LEN)) [0..<nat cnt]))"

section \<open>Accounts\<close>

record coverage_pool =
  cp_bump :: int
  cp_authority :: string
  cp_usdcMint :: string
  cp_usdcVault :: string
  cp_endpointSlug :: bytes
  cp_totalDeposits :: int
  cp_totalPremiums :: int
  cp_totalRefunds :: int
  cp_currentBalance :: int
  cp_createdAt :: int

definition decodeCoveragePool :: "(bytes \<Rightarrow> string) \<Rightarrow> bytes \<Rightarrow> coverage_pool option" where
  "decodeCoveragePool b58 bs =
     (if length bs < COVERAGE_POOL_LEN then None
      else Some \<lparr>cp_bump = u8 0 bs, cp_authority = readPubkey b58 bs 8, cp_usdcMint = readPubkey b58 bs 40,
        cp_usdcVault = readPubkey b58 bs 72, cp_endpointSlug = slice 104 16 bs,
        cp_totalDeposits = u64 120 bs, cp_totalPremiums = u64 128 bs, cp_totalRefunds = u64 136 bs,
        cp_currentBalance = u64 144 bs, cp_createdAt = i64 152 bs\<rparr>)"

record endpoint_account =
  ec_bump :: int
  ec_paused :: bool
  ec_slug :: bytes
  ec_flatPremiumLamports :: int
  ec_percentBps :: int
  ec_slaLatencyMs :: int
  ec_imputedCostLamports :: int
  ec_exposureCapPerHourLamports :: int
  ec_currentPeriodStart :: int
  ec_currentPeriodRefunds :: int
  ec_totalCalls :: int
  ec_totalBreaches :: int
  ec_totalPremiums :: int
  ec_totalRefunds :: int
  ec_lastUpdated :: int
  ec_coveragePool :: string
  ec_feeRecipientCount :: int
  ec_feeRecipients :: "fee_recipient list"

definition decodeEndpointConfig :: "(bytes \<Rightarrow> string) \<Rightarrow> bytes \<Rightarrow> endpoint_account option" where
  "decodeEndpointConfig b58 bs =
     (if length bs < ENDPOINT_CONFIG_LEN then None
      else let feeRecipientCount = u8 152 bs in
        case decodeFeeRecipientArray b58 bs 160 feeRecipientCount of None \<Rightarrow> None
        | Some frs \<Rightarrow> Some \<lparr>ec_bump = u8 0 bs, ec_paused = (u8 1 bs \<noteq> 0), ec_slug = slice 8 16 bs,
            ec_flatPremiumLamports = u64 24 bs, ec_percentBps = u16 32 bs, ec_slaLatencyMs = u32 40 bs,
            ec_imputedCostLamports = u64 48 bs, ec_exposureCapPerHourLamports = u64 56 bs,
            ec_currentPeriodStart = i64 64 bs, ec_currentPeriodRefunds = u64 72 bs,
            ec_totalCalls = u64 80 bs, ec_totalBreaches = u64 88 bs, ec_totalPremiums = u64 96 bs,
            ec_totalRefunds = u64 104 bs, ec_lastUpdated = i64 112 bs, ec_coveragePool = readPubkey b58 bs 120,
            ec_feeRecipientCount = feeRecipientCount, ec_feeRecipients = frs\<rparr>)"

datatype settlement_status = Settled | DelegateFailed | PoolDepleted | ExposureCapClamped

definition status_of_byte :: "int \<Rightarrow> settlement_status option" where
  "status_of_byte b = (if b = 0 then Some Settled else if b = 1 then Some DelegateFailed
     else if b = 2 then Some PoolDepleted else if b = 3 then Some ExposureCapClamped else None)"

record call_record =
  cr_bump :: int
  cr_breach :: bool
  cr_settlementStatus :: settlement_status
  cr_callId :: bytes
  cr_agent :: string
  cr_endpointSlug :: bytes
  cr_premiumLamports :: int
  cr_refundLamports :: int
  cr_actualRefundLamports :: int
  cr_latencyMs :: int
  cr_timestamp :: int

definition decodeCallRecord :: "(bytes \<Rightarrow> string) \<Rightarrow> bytes \<Rightarrow> call_record option" where
  "decodeCallRecord b58 bs =
     (if length bs < CALL_RECORD_LEN then None
      else case status_of_byte (u8 2 bs) of None \<Rightarrow> None
      | Some st \<Rightarrow> Some \<lparr>cr_bump = u8 0 bs, cr_breach = (u8 1 bs \<noteq> 0), cr_settlementStatus = st,
          cr_callId = slice 8 16 bs, cr_agent = readPubkey b58 bs 24, cr_endpointSlug = slice 56 16 bs,
          cr_premiumLamports = u64 72 bs, cr_refundLamports = u64 80 bs, cr_actualRefundLamports = u64 88 bs,
          cr_latencyMs = u32 96 bs, cr_timestamp = i64 104 bs\<rparr>)"

record settlement_authority =
  sa_bump :: int
  sa_signer :: string
  sa_setAt :: int

definition decodeSettlementAuthority :: "(bytes \<Rightarrow> string) \<Rightarrow> bytes \<Rightarrow> settlement_authority option" where
  "decodeSettlementAuthority b58 bs =
     (if length bs < SETTLEMENT_AUTHORITY_LEN then None
      else Some \<lparr>sa_bump = u8 0 bs, sa_signer = readPubkey b58 bs 8, sa_setAt = i64 40 bs\<rparr>)"

record treasury =
  tr_bump :: int
  tr_authority :: string
  tr_usdcVault :: string
  tr_setAt :: int

definition decodeTreasury :: "(bytes \<Rightarrow> string) \<Rightarrow> bytes \<Rightarrow> treasury option" where
  "decodeTreasury b58 bs =
     (if length bs < TREASURY_LEN then None
      else Some \<lparr>tr_bump = u8 0 bs, tr_authority = readPubkey b58 bs 8, tr_usdcVault = readPubkey b58 bs 40,
        tr_setAt = i64 72 bs\<rparr>)"

record protocol_config =
  pc_bump :: int
  pc_authority :: string
  pc_usdcMint :: string
  pc_maxTotalFeeBps :: int
  pc_defaultFeeRecipientCount :: int
  pc_paused :: int
  pc_defaultFeeRecipients :: "fee_recipient list"

definition decodeProtocolConfig :: "(bytes \<Rightarrow> string) \<Rightarrow> bytes \<Rightarrow> protocol_config option" where
  "decodeProtocolConfig b58 bs =
     (if length bs < PROTOCOL_CONFIG_LEN then None
      else let cnt = u8 74 bs in
        case decodeFeeRecipientArray b58 bs 80 cnt of None \<Rightarrow> None
        | Some frs \<Rightarrow> Some \<lparr>pc_bump = u8 0 bs, pc_authority = readPubkey b58 bs 8, pc_usdcMint = readPubkey b58 bs 40,
            pc_maxTotalFeeBps = u16 72 bs, pc_defaultFeeRecipientCount = cnt, pc_paused = u8 75 bs,
            pc_defaultFeeRecipients = frs\<rparr>)"

section \<open>The program's structs\<close>

text \<open>
  \<open>state.rs\<close>: the \<open>#[repr(C)]\<close> structs and their memory image, padding included. Rust integers are
  words of their width; \<open>i64\<close> reads by \<open>sint\<close>.
\<close>

record rs_fee_recipient =
  rf_kind :: byte
  rf_pad0 :: bytes
  rf_destination :: bytes
  rf_bps :: "16 word"
  rf_pad1 :: bytes

definition le_word :: "nat \<Rightarrow> 'a::len word \<Rightarrow> bytes" where
  "le_word n w = le_bytes n (unat w)"

definition fee_recipient_image :: "rs_fee_recipient \<Rightarrow> bytes" where
  "fee_recipient_image r = [rf_kind r] @ rf_pad0 r @ rf_destination r @ le_word 2 (rf_bps r) @ rf_pad1 r"

definition wf_fee_recipient :: "rs_fee_recipient \<Rightarrow> bool" where
  "wf_fee_recipient r \<longleftrightarrow> length (rf_pad0 r) = 7 \<and> length (rf_destination r) = 32 \<and> length (rf_pad1 r) = 6"

record rs_call_record =
  rc_bump :: byte
  rc_breach :: byte
  rc_settlement_status :: byte
  rc_padding0 :: bytes
  rc_call_id :: bytes
  rc_agent :: bytes
  rc_endpoint_slug :: bytes
  rc_premium_lamports :: "64 word"
  rc_refund_lamports :: "64 word"
  rc_actual_refund_lamports :: "64 word"
  rc_latency_ms :: "32 word"
  rc_padding1 :: bytes
  rc_timestamp :: "64 word"

definition call_record_image :: "rs_call_record \<Rightarrow> bytes" where
  "call_record_image r = [rc_bump r] @ [rc_breach r] @ [rc_settlement_status r] @ rc_padding0 r @ rc_call_id r @
     rc_agent r @ rc_endpoint_slug r @ le_word 8 (rc_premium_lamports r) @ le_word 8 (rc_refund_lamports r) @
     le_word 8 (rc_actual_refund_lamports r) @ le_word 4 (rc_latency_ms r) @ rc_padding1 r @ le_word 8 (rc_timestamp r)"

definition wf_call_record :: "rs_call_record \<Rightarrow> bool" where
  "wf_call_record r \<longleftrightarrow> length (rc_padding0 r) = 5 \<and> length (rc_call_id r) = 16 \<and> length (rc_agent r) = 32 \<and>
     length (rc_endpoint_slug r) = 16 \<and> length (rc_padding1 r) = 4"

record rs_endpoint_config =
  re_bump :: byte
  re_paused :: byte
  re_padding0 :: bytes
  re_slug :: bytes
  re_flat_premium_lamports :: "64 word"
  re_percent_bps :: "16 word"
  re_padding1 :: bytes
  re_sla_latency_ms :: "32 word"
  re_padding2 :: bytes
  re_imputed_cost_lamports :: "64 word"
  re_exposure_cap_per_hour_lamports :: "64 word"
  re_current_period_start :: "64 word"
  re_current_period_refunds :: "64 word"
  re_total_calls :: "64 word"
  re_total_breaches :: "64 word"
  re_total_premiums :: "64 word"
  re_total_refunds :: "64 word"
  re_last_updated :: "64 word"
  re_coverage_pool :: bytes
  re_fee_recipient_count :: byte
  re_padding3 :: bytes
  re_fee_recipients :: "rs_fee_recipient list"

definition endpoint_head :: "rs_endpoint_config \<Rightarrow> bytes" where
  "endpoint_head e = [re_bump e] @ [re_paused e] @ re_padding0 e @ re_slug e @ le_word 8 (re_flat_premium_lamports e) @
     le_word 2 (re_percent_bps e) @ re_padding1 e @ le_word 4 (re_sla_latency_ms e) @ re_padding2 e @
     le_word 8 (re_imputed_cost_lamports e) @ le_word 8 (re_exposure_cap_per_hour_lamports e) @
     le_word 8 (re_current_period_start e) @ le_word 8 (re_current_period_refunds e) @
     le_word 8 (re_total_calls e) @ le_word 8 (re_total_breaches e) @ le_word 8 (re_total_premiums e) @
     le_word 8 (re_total_refunds e) @ le_word 8 (re_last_updated e) @ re_coverage_pool e @
     [re_fee_recipient_count e] @ re_padding3 e"

definition endpoint_config_image :: "rs_endpoint_config \<Rightarrow> bytes" where
  "endpoint_config_image e = endpoint_head e @ concat (List.map fee_recipient_image (re_fee_recipients e))"

definition wf_endpoint_config :: "rs_endpoint_config \<Rightarrow> bool" where
  "wf_endpoint_config e \<longleftrightarrow> length (re_padding0 e) = 6 \<and> length (re_slug e) = 16 \<and> length (re_padding1 e) = 6 \<and>
     length (re_padding2 e) = 4 \<and> length (re_coverage_pool e) = 32 \<and> length (re_padding3 e) = 7 \<and>
     length (re_fee_recipients e) = 8 \<and> (\<forall>r \<in> set (re_fee_recipients e). wf_fee_recipient r)"

section \<open>Reading an image\<close>

lemma length_le_word [simp]: "length (le_word n w) = n"
  by (simp add: le_word_def)

lemma le_val_le_word:
  assumes "LENGTH('a::len) = 8 * n"
  shows "int (le_val (le_word n (w :: 'a word))) = uint w"
proof -
  have "unat w < 2 ^ LENGTH('a)" by (rule unsigned_less)
  then have "unat w < 256 ^ n" using assms by (simp add: power_mult)
  then show ?thesis by (simp add: le_word_def le_val_le_bytes)
qed

lemma signed_val_le_word: "signed_val (le_word 8 (w :: 64 word)) = sint w"
proof -
  have b: "- (2 ^ 63) \<le> sint w" "sint w < 2 ^ 63"
    using sint_ge [of w] sint_lt [of w] by simp_all
  have "sint w mod 2 ^ 64 = uint w"
    by (simp add: uint_sint take_bit_eq_mod)
  then have "le_word 8 w = le_signed 8 (sint w)"
    by (simp add: le_word_def le_signed_def)
  with signed_val_le_signed [of 8 "sint w"] b show ?thesis by simp
qed

lemma le_val_byte [simp]: "int (le_val [b]) = uint b"
  by simp

lemmas image_reads = u16_def u32_def u64_def i64_def readPubkey_def u8_slice
  slice_append_left slice_append_right slice_all slice_Cons le_val_le_word signed_val_le_word

lemma length_fee_image [simp]: "wf_fee_recipient r \<Longrightarrow> length (fee_recipient_image r) = 48"
  by (simp add: fee_recipient_image_def wf_fee_recipient_def)

lemma slice_concat_48:
  "(\<forall>b \<in> set bs. length b = 48) \<Longrightarrow> i < length bs \<Longrightarrow> k + n \<le> 48 \<Longrightarrow>
     slice (i * 48 + k) n (concat bs @ tl') = slice k n (bs ! i)"
proof (induction bs arbitrary: i)
  case (Cons b bs)
  then show ?case
    by (cases i) (simp_all add: slice_append_left slice_append_right)
qed simp

text \<open>A decoded entry is the program's entry, wherever it lies.\<close>

definition fee_recipient_view :: "(bytes \<Rightarrow> string) \<Rightarrow> rs_fee_recipient \<Rightarrow> fee_recipient" where
  "fee_recipient_view b58 r =
     \<lparr>fr_kind = uint (rf_kind r), fr_destination = b58 (rf_destination r), fr_bps = uint (rf_bps r)\<rparr>"

lemma decode_fee_recipient_at:
  assumes "length bs \<ge> off + 48" and im: "\<And>k n. k + n \<le> 48 \<Longrightarrow> slice (off + k) n bs = slice k n (fee_recipient_image r)"
    and wf: "wf_fee_recipient r" and kind: "uint (rf_kind r) \<le> 2"
  shows "decodeFeeRecipient b58 bs off = Some (fee_recipient_view b58 r)"
proof -
  have k: "u8 off bs = uint (rf_kind r)"
    using assms(1) im [of 0 1] wf
    by (simp add: u8_slice fee_recipient_image_def wf_fee_recipient_def slice_append_left slice_all)
  have "slice (off + 8) 32 bs = rf_destination r" "slice (off + 40) 2 bs = le_word 2 (rf_bps r)"
    using im [of 8 32] im [of 40 2] wf
    by (simp_all add: fee_recipient_image_def wf_fee_recipient_def image_reads)
  with k kind assms(1) show ?thesis
    by (simp add: decodeFeeRecipient_def fee_recipient_view_def js_simps readPubkey_def u16_def le_val_le_word)
qed

lemma all_some_map: "(\<And>x. x \<in> set xs \<Longrightarrow> f x = Some (g x)) \<Longrightarrow> all_some (List.map f xs) = Some (List.map g xs)"
  by (induction xs) auto

lemma decode_fee_array_at:
  assumes len: "length bs \<ge> base + 48 * length rs"
    and im: "\<And>off n. off + n \<le> 48 * length rs \<Longrightarrow>
        slice (base + off) n bs = slice off n (concat (List.map fee_recipient_image rs))"
    and wf: "\<forall>r \<in> set rs. wf_fee_recipient r"
    and kinds: "\<forall>r \<in> set (take m rs). uint (rf_kind r) \<le> 2" and m: "m \<le> length rs" "m \<le> 8"
  shows "decodeFeeRecipientArray b58 bs base (int m) = Some (List.map (fee_recipient_view b58) (take m rs))"
proof -
  have "decodeFeeRecipient b58 bs (base + i * 48) = Some (fee_recipient_view b58 (rs ! i))" if i: "i < m" for i
  proof (rule decode_fee_recipient_at)
    show "base + i * 48 + 48 \<le> length bs" using len i m by simp
    show "wf_fee_recipient (rs ! i)" using wf i m by simp
    have "rs ! i \<in> set (take m rs)" using i m by (auto simp: in_set_conv_nth intro: exI [of _ i])
    then show "uint (rf_kind (rs ! i)) \<le> 2" using kinds by blast
    fix k n :: nat assume kn: "k + n \<le> 48"
    have "slice (base + (i * 48 + k)) n bs = slice (i * 48 + k) n (concat (List.map fee_recipient_image rs) @ [])"
      using im [of "i * 48 + k" n] kn i m by simp
    also have "\<dots> = slice k n (List.map fee_recipient_image rs ! i)"
      by (rule slice_concat_48) (use wf kn i m in auto)
    finally show "slice (base + i * 48 + k) n bs = slice k n (fee_recipient_image (rs ! i))"
      using i m by (simp add: add.assoc)
  qed
  then have "all_some (List.map (\<lambda>i. decodeFeeRecipient b58 bs (base + i * 48)) [0..<m]) =
      Some (List.map (\<lambda>i. fee_recipient_view b58 (rs ! i)) [0..<m])"
    by (intro all_some_map) simp
  also have "List.map (\<lambda>i. fee_recipient_view b58 (rs ! i)) [0..<m] = List.map (fee_recipient_view b58) (take m rs)"
    using m by (intro nth_equalityI) auto
  finally show ?thesis using m by (simp add: decodeFeeRecipientArray_def js_simps)
qed

definition call_record_view :: "(bytes \<Rightarrow> string) \<Rightarrow> rs_call_record \<Rightarrow> settlement_status \<Rightarrow> call_record" where
  "call_record_view b58 r st =
     \<lparr>cr_bump = uint (rc_bump r), cr_breach = (rc_breach r \<noteq> 0), cr_settlementStatus = st,
      cr_callId = rc_call_id r, cr_agent = b58 (rc_agent r), cr_endpointSlug = rc_endpoint_slug r,
      cr_premiumLamports = uint (rc_premium_lamports r), cr_refundLamports = uint (rc_refund_lamports r),
      cr_actualRefundLamports = uint (rc_actual_refund_lamports r), cr_latencyMs = uint (rc_latency_ms r),
      cr_timestamp = sint (rc_timestamp r)\<rparr>"

definition endpoint_config_view :: "(bytes \<Rightarrow> string) \<Rightarrow> rs_endpoint_config \<Rightarrow> endpoint_account" where
  "endpoint_config_view b58 e =
     \<lparr>ec_bump = uint (re_bump e), ec_paused = (re_paused e \<noteq> 0), ec_slug = re_slug e,
      ec_flatPremiumLamports = uint (re_flat_premium_lamports e), ec_percentBps = uint (re_percent_bps e),
      ec_slaLatencyMs = uint (re_sla_latency_ms e), ec_imputedCostLamports = uint (re_imputed_cost_lamports e),
      ec_exposureCapPerHourLamports = uint (re_exposure_cap_per_hour_lamports e),
      ec_currentPeriodStart = sint (re_current_period_start e),
      ec_currentPeriodRefunds = uint (re_current_period_refunds e), ec_totalCalls = uint (re_total_calls e),
      ec_totalBreaches = uint (re_total_breaches e), ec_totalPremiums = uint (re_total_premiums e),
      ec_totalRefunds = uint (re_total_refunds e), ec_lastUpdated = sint (re_last_updated e),
      ec_coveragePool = b58 (re_coverage_pool e), ec_feeRecipientCount = uint (re_fee_recipient_count e),
      ec_feeRecipients = List.map (fee_recipient_view b58) (take (unat (re_fee_recipient_count e)) (re_fee_recipients e))\<rparr>"

lemma length_call_record_image: "wf_call_record r \<Longrightarrow> length (call_record_image r) = 112"
  by (simp add: call_record_image_def wf_call_record_def)

lemma uint_nonzero [simp]: "uint (w :: 'a::len word) \<noteq> 0 \<longleftrightarrow> w \<noteq> 0"
  by (simp add: uint_0_iff)

lemma decodeCallRecord_image:
  assumes "wf_call_record r"
  shows "decodeCallRecord b58 (call_record_image r @ rest) =
     map_option (call_record_view b58 r) (status_of_byte (uint (rc_settlement_status r)))"
proof -
  have "u8 0 (call_record_image r @ rest) = uint (rc_bump r)" "u8 1 (call_record_image r @ rest) = uint (rc_breach r)"
    "u8 2 (call_record_image r @ rest) = uint (rc_settlement_status r)"
    by (simp_all add: u8_def call_record_image_def)
  with assms show ?thesis
    by (auto simp: decodeCallRecord_def length_call_record_image js_simps call_record_image_def wf_call_record_def
        image_reads(1-5) image_reads(7-) call_record_view_def split: option.splits)
qed

lemma length_endpoint_head [simp]: "wf_endpoint_config e \<Longrightarrow> length (endpoint_head e) = 160"
  by (simp add: endpoint_head_def wf_endpoint_config_def)

lemma length_fee_images [simp]:
  "\<forall>r \<in> set rs. wf_fee_recipient r \<Longrightarrow> length (concat (List.map fee_recipient_image rs)) = 48 * length rs"
  by (induction rs) auto

lemma length_endpoint_image: "wf_endpoint_config e \<Longrightarrow> length (endpoint_config_image e) = 544"
proof -
  assume e: "wf_endpoint_config e"
  then have "\<forall>r \<in> set (re_fee_recipients e). wf_fee_recipient r" "length (re_fee_recipients e) = 8"
    by (simp_all add: wf_endpoint_config_def)
  with e show ?thesis by (simp add: endpoint_config_image_def)
qed

lemma endpoint_head_slice:
  "wf_endpoint_config e \<Longrightarrow> off + n \<le> 160 \<Longrightarrow>
     slice off n (endpoint_config_image e @ rest) = slice off n (endpoint_head e)"
  by (simp add: endpoint_config_image_def slice_append_left)

lemma endpoint_head_reads:
  assumes "wf_endpoint_config e"
  shows "slice 8 16 (endpoint_head e) = re_slug e"
    and "slice 24 8 (endpoint_head e) = le_word 8 (re_flat_premium_lamports e)"
    and "slice 32 2 (endpoint_head e) = le_word 2 (re_percent_bps e)"
    and "slice 40 4 (endpoint_head e) = le_word 4 (re_sla_latency_ms e)"
    and "slice 48 8 (endpoint_head e) = le_word 8 (re_imputed_cost_lamports e)"
    and "slice 56 8 (endpoint_head e) = le_word 8 (re_exposure_cap_per_hour_lamports e)"
    and "slice 64 8 (endpoint_head e) = le_word 8 (re_current_period_start e)"
    and "slice 72 8 (endpoint_head e) = le_word 8 (re_current_period_refunds e)"
    and "slice 80 8 (endpoint_head e) = le_word 8 (re_total_calls e)"
    and "slice 88 8 (endpoint_head e) = le_word 8 (re_total_breaches e)"
    and "slice 96 8 (endpoint_head e) = le_word 8 (re_total_premiums e)"
    and "slice 104 8 (endpoint_head e) = le_word 8 (re_total_refunds e)"
    and "slice 112 8 (endpoint_head e) = le_word 8 (re_last_updated e)"
    and "slice 120 32 (endpoint_head e) = re_coverage_pool e"
    and "slice 152 1 (endpoint_head e) = [re_fee_recipient_count e]"
  using assms by (simp_all add: endpoint_head_def wf_endpoint_config_def image_reads)

lemma endpoint_array:
  assumes e: "wf_endpoint_config e" and c: "uint (re_fee_recipient_count e) \<le> 8"
    and k: "\<forall>r \<in> set (take (unat (re_fee_recipient_count e)) (re_fee_recipients e)). uint (rf_kind r) \<le> 2"
  shows "decodeFeeRecipientArray b58 (endpoint_config_image e @ rest) 160 (uint (re_fee_recipient_count e)) =
     Some (List.map (fee_recipient_view b58) (take (unat (re_fee_recipient_count e)) (re_fee_recipients e)))"
proof -
  have rs: "\<forall>r \<in> set (re_fee_recipients e). wf_fee_recipient r" "length (re_fee_recipients e) = 8"
    using e by (simp_all add: wf_endpoint_config_def)
  have u: "uint (re_fee_recipient_count e) = int (unat (re_fee_recipient_count e))" by simp
  have m: "unat (re_fee_recipient_count e) \<le> 8" using c unfolding u by linarith
  show ?thesis unfolding u
  proof (rule decode_fee_array_at [OF _ _ rs(1) k])
    show "160 + 48 * length (re_fee_recipients e) \<le> length (endpoint_config_image e @ rest)"
      using length_endpoint_image [OF e] rs(2) by simp
    fix off n assume "off + n \<le> 48 * length (re_fee_recipients e)"
    then show "slice (160 + off) n (endpoint_config_image e @ rest) =
        slice off n (concat (List.map fee_recipient_image (re_fee_recipients e)))"
      unfolding endpoint_config_image_def append_assoc
      by (simp add: slice_append_right length_endpoint_head [OF e] slice_append_left length_fee_images [OF rs(1)])
  qed (use m rs in simp_all)
qed

lemma decodeEndpointConfig_image:
  assumes e: "wf_endpoint_config e" and "uint (re_fee_recipient_count e) \<le> 8"
    and "\<forall>r \<in> set (take (unat (re_fee_recipient_count e)) (re_fee_recipients e)). uint (rf_kind r) \<le> 2"
  shows "decodeEndpointConfig b58 (endpoint_config_image e @ rest) = Some (endpoint_config_view b58 e)"
proof -
  let ?bs = "endpoint_config_image e @ rest"
  have len: "length ?bs \<ge> 544" using length_endpoint_image [OF e] by simp
  have b: "u8 0 ?bs = uint (re_bump e)" "u8 1 ?bs = uint (re_paused e)"
    by (simp_all add: u8_def endpoint_config_image_def endpoint_head_def)
  have c: "u8 152 ?bs = uint (re_fee_recipient_count e)"
    using len by (simp add: u8_slice endpoint_head_slice [OF e] endpoint_head_reads [OF e, simplified])
  show ?thesis
    using len b c endpoint_array [OF assms, of b58 rest]
    by (simp add: decodeEndpointConfig_def js_simps endpoint_config_view_def readPubkey_def u16_def u32_def u64_def i64_def
        endpoint_head_slice [OF e] endpoint_head_reads [OF e] le_val_le_word signed_val_le_word)
qed

section \<open>Properties\<close>

text \<open>
  C13: the client's decoders read the accounts the program writes. For a CallRecord and an
  EndpointConfig laid out as the program's structs, every field comes back with its exact value,
  whatever the padding holds and whatever bytes follow; a status byte the enum does not have is
  refused.
\<close>

theorem decoders_read_program_accounts:
  assumes "wf_call_record r" and "wf_endpoint_config e" and "uint (re_fee_recipient_count e) \<le> 8"
    and "\<forall>x \<in> set (take (unat (re_fee_recipient_count e)) (re_fee_recipients e)). uint (rf_kind x) \<le> 2"
  shows "decodeCallRecord b58 (call_record_image r @ rest) =
      map_option (call_record_view b58 r) (status_of_byte (uint (rc_settlement_status r)))
    \<and> decodeEndpointConfig b58 (endpoint_config_image e @ rest) = Some (endpoint_config_view b58 e)"
  using decodeCallRecord_image [OF assms(1)] decodeEndpointConfig_image [OF assms(2-4)] by blast

definition example_recipient :: rs_fee_recipient where
  "example_recipient = \<lparr>rf_kind = 0, rf_pad0 = replicate 7 0, rf_destination = replicate 32 7, rf_bps = 1000, rf_pad1 = replicate 6 0\<rparr>"

definition example_record :: rs_call_record where
  "example_record = \<lparr>rc_bump = 255, rc_breach = 1, rc_settlement_status = 3, rc_padding0 = replicate 5 0,
     rc_call_id = replicate 16 1, rc_agent = replicate 32 2, rc_endpoint_slug = replicate 16 3,
     rc_premium_lamports = 500, rc_refund_lamports = 10000, rc_actual_refund_lamports = 4000,
     rc_latency_ms = 31, rc_padding1 = replicate 4 0, rc_timestamp = 1700000000\<rparr>"

definition example_endpoint :: rs_endpoint_config where
  "example_endpoint = \<lparr>re_bump = 254, re_paused = 0, re_padding0 = replicate 6 0, re_slug = replicate 16 3,
     re_flat_premium_lamports = 500, re_percent_bps = 0, re_padding1 = replicate 6 0, re_sla_latency_ms = 5000,
     re_padding2 = replicate 4 0, re_imputed_cost_lamports = 10000, re_exposure_cap_per_hour_lamports = 1000000,
     re_current_period_start = 0, re_current_period_refunds = 0, re_total_calls = 0, re_total_breaches = 0,
     re_total_premiums = 0, re_total_refunds = 0, re_last_updated = 0, re_coverage_pool = replicate 32 9,
     re_fee_recipient_count = 1, re_padding3 = replicate 7 0, re_fee_recipients = replicate 8 example_recipient\<rparr>"

theorem decoders_read_program_accounts_witness:
  "map_option cr_actualRefundLamports (decodeCallRecord text_b58 (call_record_image example_record @ [])) = Some 4000
   \<and> map_option ec_slaLatencyMs (decodeEndpointConfig text_b58 (endpoint_config_image example_endpoint @ [])) = Some 5000"
proof -
  have e: "wf_call_record example_record" "wf_endpoint_config example_endpoint"
    "uint (re_fee_recipient_count example_endpoint) \<le> 8"
    "\<forall>x \<in> set (take (unat (re_fee_recipient_count example_endpoint)) (re_fee_recipients example_endpoint)). uint (rf_kind x) \<le> 2"
    by (simp_all add: wf_call_record_def wf_endpoint_config_def wf_fee_recipient_def
        example_record_def example_endpoint_def example_recipient_def)
  show ?thesis
    using decoders_read_program_accounts [OF e, of text_b58 "[]"]
    by (simp add: call_record_view_def endpoint_config_view_def status_of_byte_def example_record_def example_endpoint_def)
qed

end
