(* ===== verification/ProtocolIx.thy ===== *)
theory ProtocolIx
  imports ProtocolState
begin

text \<open>
  The instruction builders of \<open>packages/protocol-v1-client/src/instructions.ts\<close> and the PDA helpers
  of \<open>pda.ts\<close>. A \<open>PublicKey\<close> is its 32 bytes; the three well-known keys are an argument;
  \<open>PublicKey.findProgramAddressSync\<close> is the parameter \<open>find_pda\<close>. A builder returns \<open>None\<close> where the
  code throws: its own guards, and the range checks of \<open>Buffer\<close>'s writers.
\<close>

type_synonym pubkey = bytes

record account_meta =
  am_pubkey :: pubkey
  am_isSigner :: bool
  am_isWritable :: bool

record tx_instruction =
  ix_programId :: pubkey
  ix_keys :: "account_meta list"
  ix_data :: bytes

record well_known =
  wk_program :: pubkey
  wk_token :: pubkey
  wk_system :: pubkey

definition meta :: "pubkey \<Rightarrow> bool \<Rightarrow> bool \<Rightarrow> account_meta" where
  [js_simps]: "meta k s w = \<lparr>am_pubkey = k, am_isSigner = s, am_isWritable = w\<rparr>"

definition or_default :: "'a option \<Rightarrow> 'a \<Rightarrow> 'a" where
  [js_simps]: "or_default x d = (case x of Some v \<Rightarrow> v | None \<Rightarrow> d)"

definition DISC_INITIALIZE_SETTLEMENT_AUTHORITY :: byte where "DISC_INITIALIZE_SETTLEMENT_AUTHORITY = 1"
definition DISC_REGISTER_ENDPOINT :: byte where "DISC_REGISTER_ENDPOINT = 2"
definition DISC_UPDATE_ENDPOINT_CONFIG :: byte where "DISC_UPDATE_ENDPOINT_CONFIG = 3"
definition DISC_PAUSE_ENDPOINT :: byte where "DISC_PAUSE_ENDPOINT = 4"
definition DISC_TOP_UP_COVERAGE_POOL :: byte where "DISC_TOP_UP_COVERAGE_POOL = 9"
definition DISC_SETTLE_BATCH :: byte where "DISC_SETTLE_BATCH = 10"
definition DISC_INITIALIZE_PROTOCOL_CONFIG :: byte where "DISC_INITIALIZE_PROTOCOL_CONFIG = 12"
definition DISC_INITIALIZE_TREASURY :: byte where "DISC_INITIALIZE_TREASURY = 13"
definition DISC_UPDATE_FEE_RECIPIENTS :: byte where "DISC_UPDATE_FEE_RECIPIENTS = 14"
definition DISC_PAUSE_PROTOCOL :: byte where "DISC_PAUSE_PROTOCOL = 15"

section \<open>Slugs, call ids and addresses\<close>

definition SLUG_LEN :: nat where [js_simps]: "SLUG_LEN = 16"
definition CALL_ID_LEN :: nat where [js_simps]: "CALL_ID_LEN = 16"

definition asSlug :: "bytes \<Rightarrow> bytes option" where
  "asSlug slug =
     (if length slug = SLUG_LEN then Some slug
      else if length slug > SLUG_LEN then None
      else Some (copy_to slug 0 (replicate SLUG_LEN 0)))"

definition asCallId :: "bytes \<Rightarrow> bytes option" where
  "asCallId callId = (if length callId \<noteq> CALL_ID_LEN then None else Some callId)"

text \<open>\<open>pda.ts\<close>; \<open>TextEncoder\<close> on an ASCII slug is its characters.\<close>

definition slugBytes :: "string \<Rightarrow> bytes" where
  "slugBytes slug = copy_to (take SLUG_LEN (List.map of_char slug)) 0 (replicate SLUG_LEN 0)"

definition normalizeSlug :: "bytes + string \<Rightarrow> bytes option" where
  "normalizeSlug s = (case s of Inr t \<Rightarrow> Some (slugBytes t)
     | Inl b \<Rightarrow> if length b = SLUG_LEN then Some b
               else if length b > SLUG_LEN then None
               else Some (copy_to b 0 (replicate SLUG_LEN 0)))"

definition normalizeCallId :: "bytes \<Rightarrow> bytes option" where
  "normalizeCallId callId = (if length callId \<noteq> CALL_ID_LEN then None else Some callId)"

type_synonym pda_finder = "bytes list \<Rightarrow> pubkey \<Rightarrow> pubkey \<times> nat"

definition ascii :: "string \<Rightarrow> bytes" where "ascii = List.map of_char"

definition getCoveragePoolPda :: "pda_finder \<Rightarrow> pubkey \<Rightarrow> bytes + string \<Rightarrow> (pubkey \<times> nat) option" where
  "getCoveragePoolPda find_pda programId slug =
     map_option (\<lambda>s. find_pda [ascii ''coverage_pool'', s] programId) (normalizeSlug slug)"

definition getEndpointConfigPda :: "pda_finder \<Rightarrow> pubkey \<Rightarrow> bytes + string \<Rightarrow> (pubkey \<times> nat) option" where
  "getEndpointConfigPda find_pda programId slug =
     map_option (\<lambda>s. find_pda [ascii ''endpoint'', s] programId) (normalizeSlug slug)"

definition getCallRecordPda :: "pda_finder \<Rightarrow> pubkey \<Rightarrow> bytes \<Rightarrow> (pubkey \<times> nat) option" where
  "getCallRecordPda find_pda programId callId =
     map_option (\<lambda>c. find_pda [ascii ''call'', c] programId) (normalizeCallId callId)"

definition getSettlementAuthorityPda :: "pda_finder \<Rightarrow> pubkey \<Rightarrow> pubkey \<times> nat" where
  "getSettlementAuthorityPda find_pda programId = find_pda [ascii ''settlement_authority''] programId"

definition getTreasuryPda :: "pda_finder \<Rightarrow> pubkey \<Rightarrow> pubkey \<times> nat" where
  "getTreasuryPda find_pda programId = find_pda [ascii ''treasury''] programId"

definition getProtocolConfigPda :: "pda_finder \<Rightarrow> pubkey \<Rightarrow> pubkey \<times> nat" where
  "getProtocolConfigPda find_pda programId = find_pda [ascii ''protocol_config''] programId"

section \<open>Encoding fee recipients\<close>

definition countAffiliateAtas :: "fee_recipient list \<Rightarrow> nat" where
  "countAffiliateAtas entries = foldl (\<lambda>n e. if fr_kind e = KIND_AffiliateAta then n + 1 else n) 0 entries"

definition encodeFeeRecipient :: "(string \<Rightarrow> bytes option) \<Rightarrow> fee_recipient \<Rightarrow> bytes \<Rightarrow> nat \<Rightarrow> bytes option" where
  "encodeFeeRecipient unb58 entry out off =
     (let out1 = set_byte (fr_kind entry) off out in
      case unb58 (fr_destination entry) of None \<Rightarrow> None
      | Some dest \<Rightarrow> Some (set_u16 (fr_bps entry) (off + 40) (copy_to dest (off + 8) out1)))"

fun encode_entries :: "(string \<Rightarrow> bytes option) \<Rightarrow> fee_recipient list \<Rightarrow> nat \<Rightarrow> bytes \<Rightarrow> bytes option" where
  "encode_entries unb58 [] i out = Some out"
| "encode_entries unb58 (e # es) i out =
     (case encodeFeeRecipient unb58 e out (i * FEE_RECIPIENT_LEN) of None \<Rightarrow> None
      | Some out' \<Rightarrow> encode_entries unb58 es (i + 1) out')"

definition encodeFeeRecipientArray :: "(string \<Rightarrow> bytes option) \<Rightarrow> fee_recipient list \<Rightarrow> bytes option" where
  "encodeFeeRecipientArray unb58 entries =
     encode_entries unb58 entries 0 (replicate (length entries * FEE_RECIPIENT_LEN) 0)"

section \<open>Administration\<close>

record init_config_params =
  icp_programId :: "pubkey option"
  icp_authority :: pubkey
  icp_protocolConfig :: pubkey
  icp_usdcMint :: pubkey
  icp_maxTotalFeeBps :: "int option"
  icp_defaultFeeRecipients :: "fee_recipient list"

definition buildInitializeProtocolConfigIx ::
    "well_known \<Rightarrow> (string \<Rightarrow> bytes option) \<Rightarrow> init_config_params \<Rightarrow> tx_instruction option" where
  "buildInitializeProtocolConfigIx wk unb58 p = do {
     let programId = or_default (icp_programId p) (wk_program wk);
     let present = (if icp_maxTotalFeeBps p \<noteq> None then 1 else 0);
     let maxBps = or_default (icp_maxTotalFeeBps p) 0;
     let cnt = length (icp_defaultFeeRecipients p);
     body \<leftarrow> encodeFeeRecipientArray unb58 (icp_defaultFeeRecipients p);
     let data0 = replicate (1 + 1 + 2 + 1 + length body) 0;
     let data1 = data0[0 := DISC_INITIALIZE_PROTOCOL_CONFIG];
     let data2 = set_byte present 1 data1;
     data3 \<leftarrow> write_uint 2 maxBps 2 data2;
     let data4 = set_byte (int cnt) 4 data3;
     let data5 = copy_to body 5 data4;
     Some \<lparr>ix_programId = programId,
       ix_keys = [meta (icp_authority p) True True, meta (icp_protocolConfig p) False True,
                  meta (icp_usdcMint p) False False, meta (wk_system wk) False False],
       ix_data = data5\<rparr>
   }"

record init_treasury_params =
  itp_programId :: "pubkey option"
  itp_authority :: pubkey
  itp_protocolConfig :: pubkey
  itp_treasury :: pubkey
  itp_treasuryVault :: pubkey
  itp_usdcMint :: pubkey

definition buildInitializeTreasuryIx :: "well_known \<Rightarrow> init_treasury_params \<Rightarrow> tx_instruction" where
  "buildInitializeTreasuryIx wk p =
     \<lparr>ix_programId = or_default (itp_programId p) (wk_program wk),
      ix_keys = [meta (itp_authority p) True True, meta (itp_protocolConfig p) False False,
                 meta (itp_treasury p) False True, meta (itp_treasuryVault p) False True,
                 meta (itp_usdcMint p) False False, meta (wk_system wk) False False,
                 meta (wk_token wk) False False],
      ix_data = [DISC_INITIALIZE_TREASURY]\<rparr>"

record init_settlement_params =
  isp_programId :: "pubkey option"
  isp_authority :: pubkey
  isp_protocolConfig :: pubkey
  isp_settlementAuthority :: pubkey
  isp_settlerSigner :: pubkey

definition buildInitializeSettlementAuthorityIx :: "well_known \<Rightarrow> init_settlement_params \<Rightarrow> tx_instruction" where
  "buildInitializeSettlementAuthorityIx wk p =
     (let data0 = replicate (1 + 32) 0;
          data1 = data0[0 := DISC_INITIALIZE_SETTLEMENT_AUTHORITY];
          data2 = copy_to (isp_settlerSigner p) 1 data1
      in \<lparr>ix_programId = or_default (isp_programId p) (wk_program wk),
          ix_keys = [meta (isp_authority p) True True, meta (isp_protocolConfig p) False False,
                     meta (isp_settlementAuthority p) False True, meta (wk_system wk) False False],
          ix_data = data2\<rparr>)"

record register_params =
  rp_programId :: "pubkey option"
  rp_authority :: pubkey
  rp_protocolConfig :: pubkey
  rp_treasury :: pubkey
  rp_endpointConfig :: pubkey
  rp_coveragePool :: pubkey
  rp_poolVault :: pubkey
  rp_usdcMint :: pubkey
  rp_slug :: bytes
  rp_flatPremiumLamports :: int
  rp_percentBps :: int
  rp_slaLatencyMs :: int
  rp_imputedCostLamports :: int
  rp_exposureCapPerHourLamports :: int
  rp_feeRecipients :: "fee_recipient list option"
  rp_feeRecipientCount :: "int option"
  rp_affiliateAtas :: "pubkey list option"

definition register_guards :: "register_params \<Rightarrow> bool" where
  "register_guards p \<longleftrightarrow>
     (rp_feeRecipients p = None) = (rp_feeRecipientCount p = None) \<and>
     (case rp_feeRecipients p of None \<Rightarrow> True | Some frs \<Rightarrow> rp_feeRecipientCount p = Some (int (length frs)))"

definition affiliate_guard :: "fee_recipient list option \<Rightarrow> pubkey list \<Rightarrow> bool" where
  "affiliate_guard frs atas =
     (case frs of None \<Rightarrow> True | Some rs \<Rightarrow> length atas = countAffiliateAtas rs)"

definition buildRegisterEndpointIx ::
    "well_known \<Rightarrow> (string \<Rightarrow> bytes option) \<Rightarrow> register_params \<Rightarrow> tx_instruction option" where
  "buildRegisterEndpointIx wk unb58 p = do {
     let programId = or_default (rp_programId p) (wk_program wk);
     slug \<leftarrow> asSlug (rp_slug p);
     (if register_guards p then Some () else None);
     let present = (if rp_feeRecipients p \<noteq> None then 1 else 0);
     let cnt = (case rp_feeRecipients p of None \<Rightarrow> 0 | Some frs \<Rightarrow> length frs);
     body \<leftarrow> (case rp_feeRecipients p of None \<Rightarrow> Some [] | Some frs \<Rightarrow> encodeFeeRecipientArray unb58 frs);
     let affiliateAtas = or_default (rp_affiliateAtas p) [];
     (if affiliate_guard (rp_feeRecipients p) affiliateAtas then Some () else None);
     let data0 = replicate (1 + 46 + 1 + 1 + length body) 0;
     let data1 = data0[0 := DISC_REGISTER_ENDPOINT];
     let data2 = copy_to slug 1 data1;
     data3 \<leftarrow> write_uint 8 (rp_flatPremiumLamports p) (1 + 16) data2;
     data4 \<leftarrow> write_uint 2 (rp_percentBps p) (1 + 24) data3;
     data5 \<leftarrow> write_uint 4 (rp_slaLatencyMs p) (1 + 26) data4;
     data6 \<leftarrow> write_uint 8 (rp_imputedCostLamports p) (1 + 30) data5;
     data7 \<leftarrow> write_uint 8 (rp_exposureCapPerHourLamports p) (1 + 38) data6;
     let data8 = set_byte present (1 + 46) data7;
     let data9 = set_byte (int cnt) (1 + 47) data8;
     let data10 = copy_to body (1 + 48) data9;
     Some \<lparr>ix_programId = programId,
       ix_keys = [meta (rp_authority p) True True, meta (rp_protocolConfig p) False False,
                  meta (rp_treasury p) False False, meta (rp_endpointConfig p) False True,
                  meta (rp_coveragePool p) False True, meta (rp_poolVault p) False True,
                  meta (rp_usdcMint p) False False, meta (wk_system wk) False False,
                  meta (wk_token wk) False False] @ List.map (\<lambda>a. meta a False False) affiliateAtas,
       ix_data = data10\<rparr>
   }"

record update_config_params =
  ucp_programId :: "pubkey option"
  ucp_authority :: pubkey
  ucp_protocolConfig :: pubkey
  ucp_endpointConfig :: pubkey
  ucp_flatPremiumLamports :: "int option"
  ucp_percentBps :: "int option"
  ucp_slaLatencyMs :: "int option"
  ucp_imputedCostLamports :: "int option"
  ucp_exposureCapPerHourLamports :: "int option"

text \<open>\<open>[present][value]\<close>; an absent field leaves its bytes zero.\<close>

definition write_present :: "nat \<Rightarrow> int option \<Rightarrow> nat \<Rightarrow> bytes \<Rightarrow> bytes option" where
  "write_present n v off body =
     (case v of None \<Rightarrow> Some body | Some x \<Rightarrow> write_uint n x (off + 1) (body[off := 1]))"

definition buildUpdateEndpointConfigIx :: "well_known \<Rightarrow> update_config_params \<Rightarrow> tx_instruction option" where
  "buildUpdateEndpointConfigIx wk p = do {
     let programId = or_default (ucp_programId p) (wk_program wk);
     let body0 = replicate 35 0;
     body1 \<leftarrow> write_present 8 (ucp_flatPremiumLamports p) 0 body0;
     body2 \<leftarrow> write_present 2 (ucp_percentBps p) 9 body1;
     body3 \<leftarrow> write_present 4 (ucp_slaLatencyMs p) 12 body2;
     body4 \<leftarrow> write_present 8 (ucp_imputedCostLamports p) 17 body3;
     body5 \<leftarrow> write_present 8 (ucp_exposureCapPerHourLamports p) 26 body4;
     let data0 = replicate (1 + 35) 0;
     let data1 = data0[0 := DISC_UPDATE_ENDPOINT_CONFIG];
     let data2 = copy_to body5 1 data1;
     Some \<lparr>ix_programId = programId,
       ix_keys = [meta (ucp_authority p) True False, meta (ucp_protocolConfig p) False False,
                  meta (ucp_endpointConfig p) False True],
       ix_data = data2\<rparr>
   }"

record pause_endpoint_params =
  pep_programId :: "pubkey option"
  pep_authority :: pubkey
  pep_protocolConfig :: pubkey
  pep_endpointConfig :: pubkey
  pep_paused :: bool

definition buildPauseEndpointIx :: "well_known \<Rightarrow> pause_endpoint_params \<Rightarrow> tx_instruction" where
  "buildPauseEndpointIx wk p =
     \<lparr>ix_programId = or_default (pep_programId p) (wk_program wk),
      ix_keys = [meta (pep_authority p) True False, meta (pep_protocolConfig p) False False,
                 meta (pep_endpointConfig p) False True],
      ix_data = [DISC_PAUSE_ENDPOINT, (if pep_paused p then 1 else 0)]\<rparr>"

text \<open>\<open>paused: boolean | number\<close>; \<open>n & 0xff\<close> keeps the low byte.\<close>

definition buildPauseProtocolIx ::
    "well_known \<Rightarrow> pda_finder \<Rightarrow> pubkey option \<Rightarrow> pubkey \<Rightarrow> bool + int \<Rightarrow> tx_instruction" where
  "buildPauseProtocolIx wk find_pda programId0 authority paused =
     (let programId = or_default programId0 (wk_program wk);
          pausedByte = (case paused of Inl b \<Rightarrow> if b then 1 else 0 | Inr n \<Rightarrow> n mod 256);
          protocolConfig = fst (getProtocolConfigPda find_pda programId)
      in \<lparr>ix_programId = programId,
          ix_keys = [meta authority True False, meta protocolConfig False True],
          ix_data = [DISC_PAUSE_PROTOCOL, word_of_int pausedByte]\<rparr>)"

record top_up_params =
  tup_programId :: "pubkey option"
  tup_authority :: pubkey
  tup_coveragePool :: pubkey
  tup_authorityAta :: pubkey
  tup_poolVault :: pubkey
  tup_slug :: bytes
  tup_amount :: int

definition buildTopUpCoveragePoolIx :: "well_known \<Rightarrow> top_up_params \<Rightarrow> tx_instruction option" where
  "buildTopUpCoveragePoolIx wk p = do {
     let programId = or_default (tup_programId p) (wk_program wk);
     slug \<leftarrow> asSlug (tup_slug p);
     let data0 = replicate (1 + 16 + 8) 0;
     let data1 = data0[0 := DISC_TOP_UP_COVERAGE_POOL];
     let data2 = copy_to slug 1 data1;
     data3 \<leftarrow> write_uint 8 (tup_amount p) 17 data2;
     Some \<lparr>ix_programId = programId,
       ix_keys = [meta (tup_authority p) True False, meta (tup_coveragePool p) False True,
                  meta (tup_authorityAta p) False True, meta (tup_poolVault p) False True,
                  meta (wk_token wk) False False],
       ix_data = data3\<rparr>
   }"

record update_fees_params =
  ufp_programId :: "pubkey option"
  ufp_authority :: pubkey
  ufp_protocolConfig :: pubkey
  ufp_treasury :: pubkey
  ufp_endpointConfig :: pubkey
  ufp_slug :: bytes
  ufp_feeRecipients :: "fee_recipient list"
  ufp_feeRecipientCount :: int
  ufp_affiliateAtas :: "pubkey list option"

definition buildUpdateFeeRecipientsIx ::
    "well_known \<Rightarrow> (string \<Rightarrow> bytes option) \<Rightarrow> update_fees_params \<Rightarrow> tx_instruction option" where
  "buildUpdateFeeRecipientsIx wk unb58 p = do {
     let programId = or_default (ufp_programId p) (wk_program wk);
     (if ufp_feeRecipientCount p = int (length (ufp_feeRecipients p)) then Some () else None);
     let affiliateAtas = or_default (ufp_affiliateAtas p) [];
     (if affiliate_guard (Some (ufp_feeRecipients p)) affiliateAtas then Some () else None);
     slug \<leftarrow> asSlug (ufp_slug p);
     body \<leftarrow> encodeFeeRecipientArray unb58 (ufp_feeRecipients p);
     let data0 = replicate (1 + 16 + 1 + length body) 0;
     let data1 = data0[0 := DISC_UPDATE_FEE_RECIPIENTS];
     let data2 = copy_to slug 1 data1;
     let data3 = set_byte (ufp_feeRecipientCount p) 17 data2;
     let data4 = copy_to body 18 data3;
     Some \<lparr>ix_programId = programId,
       ix_keys = [meta (ufp_authority p) True False, meta (ufp_protocolConfig p) False False,
                  meta (ufp_treasury p) False False, meta (ufp_endpointConfig p) False True]
         @ List.map (\<lambda>a. meta a False False) affiliateAtas,
       ix_data = data4\<rparr>
   }"

section \<open>SPL Token approvals\<close>

definition SPL_TOKEN_INSTR_APPROVE :: byte where "SPL_TOKEN_INSTR_APPROVE = 4"
definition SPL_TOKEN_INSTR_REVOKE :: byte where "SPL_TOKEN_INSTR_REVOKE = 5"

record approve_params =
  ap_agentAta :: pubkey
  ap_settlementAuthorityPda :: pubkey
  ap_allowanceLamports :: int
  ap_agentOwner :: pubkey

definition buildApproveIx :: "well_known \<Rightarrow> approve_params \<Rightarrow> tx_instruction option" where
  "buildApproveIx wk p = do {
     let data0 = replicate (1 + 8) 0;
     let data1 = data0[0 := SPL_TOKEN_INSTR_APPROVE];
     data2 \<leftarrow> write_uint 8 (ap_allowanceLamports p) 1 data1;
     Some \<lparr>ix_programId = wk_token wk,
       ix_keys = [meta (ap_agentAta p) False True, meta (ap_settlementAuthorityPda p) False False,
                  meta (ap_agentOwner p) True False],
       ix_data = data2\<rparr>
   }"

definition buildRevokeIx :: "well_known \<Rightarrow> pubkey \<Rightarrow> pubkey \<Rightarrow> tx_instruction" where
  "buildRevokeIx wk agentAta agentOwner =
     \<lparr>ix_programId = wk_token wk,
      ix_keys = [meta agentAta False True, meta agentOwner True False],
      ix_data = [SPL_TOKEN_INSTR_REVOKE]\<rparr>"

text \<open>Keys for the witnesses.\<close>

definition example_keys :: well_known where
  "example_keys = \<lparr>wk_program = replicate 32 12, wk_token = replicate 32 13, wk_system = replicate 32 0\<rparr>"

end
