(* ===== verification/SettleWire.thy ===== *)
theory SettleWire
  imports ProtocolIx
begin

text \<open>
  The \<open>settle_batch\<close> instruction: the client's builder (\<open>instructions.ts\<close>), its account list twin
  \<open>accountListForBatch\<close> (\<open>helpers.ts\<close>), and the program's reader of the same bytes
  (\<open>settle_batch.rs\<close>, which receives the data without the discriminator byte).
\<close>

record batch_event =
  se_callId :: bytes
  se_agentOwner :: pubkey
  se_agentAta :: pubkey
  se_endpointConfig :: pubkey
  se_coveragePool :: pubkey
  se_poolVault :: pubkey
  se_slug :: bytes
  se_premiumLamports :: int
  se_refundLamports :: int
  se_latencyMs :: int
  se_breach :: bool
  se_timestamp :: int
  se_feeRecipientAtas :: "pubkey list"

record settle_batch_params =
  sbp_programId :: "pubkey option"
  sbp_settler :: pubkey
  sbp_settlementAuthority :: pubkey
  sbp_protocolConfig :: pubkey
  sbp_events :: "batch_event list"
  sbp_callRecordPdas :: "pubkey list"

definition SETTLE_EVENT_BYTES :: nat where [js_simps]: "SETTLE_EVENT_BYTES = 104"

definition write_event :: "batch_event \<Rightarrow> nat \<Rightarrow> bytes \<Rightarrow> bytes option" where
  "write_event ev off data = do {
     callId \<leftarrow> asCallId (se_callId ev);
     let data1 = copy_to callId off data;
     let data2 = copy_to (se_agentOwner ev) (off + 16) data1;
     slug \<leftarrow> asSlug (se_slug ev);
     let data3 = copy_to slug (off + 48) data2;
     data4 \<leftarrow> write_uint 8 (se_premiumLamports ev) (off + 64) data3;
     data5 \<leftarrow> write_uint 8 (se_refundLamports ev) (off + 72) data4;
     data6 \<leftarrow> write_uint 4 (se_latencyMs ev) (off + 80) data5;
     let data7 = set_byte (if se_breach ev then 1 else 0) (off + 84) data6;
     let data8 = set_byte (int (length (se_feeRecipientAtas ev))) (off + 85) data7;
     write_i64 (se_timestamp ev) (off + 92) data8
   }"

fun write_events :: "batch_event list \<Rightarrow> nat \<Rightarrow> bytes \<Rightarrow> bytes option" where
  "write_events [] i data = Some data"
| "write_events (ev # evs) i data =
     (case write_event ev (3 + i * SETTLE_EVENT_BYTES) data of None \<Rightarrow> None
      | Some data' \<Rightarrow> write_events evs (i + 1) data')"

definition event_keys :: "pubkey \<Rightarrow> batch_event \<Rightarrow> account_meta list" where
  "event_keys pda ev =
     [meta pda False True, meta (se_coveragePool ev) False True, meta (se_poolVault ev) False True,
      meta (se_endpointConfig ev) False True, meta (se_agentAta ev) False True]
     @ List.map (\<lambda>fa. meta fa False True) (se_feeRecipientAtas ev)"

fun push_event_keys :: "batch_event list \<Rightarrow> pubkey list \<Rightarrow> account_meta list \<Rightarrow> account_meta list" where
  "push_event_keys (ev # evs) (pda # pdas) keys = push_event_keys evs pdas (keys @ event_keys pda ev)"
| "push_event_keys _ _ keys = keys"

definition buildSettleBatchIx :: "well_known \<Rightarrow> settle_batch_params \<Rightarrow> tx_instruction option" where
  "buildSettleBatchIx wk p = do {
     let programId = or_default (sbp_programId p) (wk_program wk);
     let events = sbp_events p;
     (if length events = length (sbp_callRecordPdas p) then Some () else None);
     let data0 = replicate (1 + 2 + length events * SETTLE_EVENT_BYTES) 0;
     let data1 = data0[0 := DISC_SETTLE_BATCH];
     data2 \<leftarrow> write_uint 2 (int (length events)) 1 data1;
     data3 \<leftarrow> write_events events 0 data2;
     let keys = [meta (sbp_settler p) True True, meta (sbp_settlementAuthority p) False False,
                 meta (wk_token wk) False False, meta (wk_system wk) False False,
                 meta (sbp_protocolConfig p) False False];
     Some \<lparr>ix_programId = programId, ix_keys = push_event_keys events (sbp_callRecordPdas p) keys, ix_data = data3\<rparr>
   }"

text \<open>The account list of \<open>helpers.ts\<close>, with its loop written out again.\<close>

definition accountListForBatch ::
    "well_known \<Rightarrow> batch_event list \<Rightarrow> pubkey list \<Rightarrow> pubkey \<Rightarrow> pubkey \<Rightarrow> pubkey \<Rightarrow> account_meta list option" where
  "accountListForBatch wk events callRecordPdas settler settlementAuthority protocolConfig =
     (if length events \<noteq> length callRecordPdas then None
      else Some ([meta settler True True, meta settlementAuthority False False, meta (wk_token wk) False False,
                  meta (wk_system wk) False False, meta protocolConfig False False]
        @ concat (List.map (\<lambda>i. let ev = events ! i in
            [meta (callRecordPdas ! i) False True, meta (se_coveragePool ev) False True,
             meta (se_poolVault ev) False True, meta (se_endpointConfig ev) False True,
             meta (se_agentAta ev) False True] @ List.map (\<lambda>fa. meta fa False True) (se_feeRecipientAtas ev))
          [0..<length events])))"

section \<open>The program's reader\<close>

record wire_event =
  we_call_id :: bytes
  we_agent_owner :: bytes
  we_endpoint_slug :: bytes
  we_premium_lamports :: int
  we_refund_lamports :: int
  we_latency_ms :: int
  we_breach :: int
  we_fee_count_hint :: int
  we_timestamp :: int

definition PROGRAM_MAX_BATCH_SIZE :: nat where [js_simps]: "PROGRAM_MAX_BATCH_SIZE = 50"

definition parse_event :: "bytes \<Rightarrow> wire_event" where
  "parse_event ev =
     \<lparr>we_call_id = slice 0 16 ev, we_agent_owner = slice 16 32 ev, we_endpoint_slug = slice 48 16 ev,
      we_premium_lamports = u64 64 ev, we_refund_lamports = u64 72 ev, we_latency_ms = u32 80 ev,
      we_breach = u8 84 ev, we_fee_count_hint = u8 85 ev, we_timestamp = i64 92 ev\<rparr>"

definition parse_batch :: "bytes \<Rightarrow> wire_event list option" where
  "parse_batch data =
     (if length data < 2 then None
      else let event_count = le_val (slice 0 2 data) in
        if event_count > PROGRAM_MAX_BATCH_SIZE then None
        else if length data < 2 + event_count * SETTLE_EVENT_BYTES then None
        else Some (List.map (\<lambda>i. parse_event (slice (2 + i * SETTLE_EVENT_BYTES) SETTLE_EVENT_BYTES data)) [0..<event_count]))"

section \<open>Round trip\<close>

text \<open>What an event means on the wire; the slug is zero-padded to 16 bytes.\<close>

definition wire_of :: "batch_event \<Rightarrow> wire_event" where
  "wire_of ev =
     \<lparr>we_call_id = se_callId ev, we_agent_owner = se_agentOwner ev,
      we_endpoint_slug = se_slug ev @ replicate (16 - length (se_slug ev)) 0,
      we_premium_lamports = se_premiumLamports ev, we_refund_lamports = se_refundLamports ev,
      we_latency_ms = se_latencyMs ev, we_breach = (if se_breach ev then 1 else 0),
      we_fee_count_hint = int (length (se_feeRecipientAtas ev)) mod 256, we_timestamp = se_timestamp ev\<rparr>"

lemma asSlug_Some: "asSlug s = Some t \<longleftrightarrow> length s \<le> 16 \<and> t = s @ replicate (16 - length s) 0"
  by (auto simp: asSlug_def js_simps copy_to_def)

lemma asCallId_Some: "asCallId c = Some d \<longleftrightarrow> length c = 16 \<and> d = c"
  by (auto simp: asCallId_def js_simps)

lemma write_uint_Some:
  "write_uint n v off buf = Some b \<longleftrightarrow>
     0 \<le> v \<and> v < 256 ^ n \<and> off + n \<le> length buf \<and> b = copy_to (le_bytes n (nat v)) off buf"
  by (auto simp: write_uint_def)

lemma write_i64_Some:
  "write_i64 v off buf = Some b \<longleftrightarrow>
     - (2 ^ 63) \<le> v \<and> v < 2 ^ 63 \<and> off + 8 \<le> length buf \<and> b = copy_to (le_signed 8 v) off buf"
  by (auto simp: write_i64_def)

lemmas write_reads = asSlug_Some asCallId_Some write_uint_Some write_i64_Some

lemma uint_of_int_byte: "uint (word_of_int v :: byte) = v mod 256"
  by (simp add: uint_word_of_int)

lemma uint_of_nat_byte: "uint (word_of_nat n :: byte) = int n mod 256"
  using uint_of_int_byte [of "int n"] by simp

lemma signed_val_i64: "- (2 ^ 63) \<le> v \<Longrightarrow> v < 2 ^ 63 \<Longrightarrow> signed_val (le_signed 8 v) = v"
  by (rule signed_val_le_signed) simp_all

lemma write_event_correct:
  assumes w: "write_event ev off data = Some data'" and len: "off + 104 \<le> length data"
    and owner: "length (se_agentOwner ev) = 32"
  shows "same_outside off 104 data' data" and "parse_event (slice off 104 data') = wire_of ev"
proof -
  define slug where "slug = se_slug ev @ replicate (16 - length (se_slug ev)) 0"
  define d1 where "d1 = copy_to (se_callId ev) off data"
  define d2 where "d2 = copy_to (se_agentOwner ev) (off + 16) d1"
  define d3 where "d3 = copy_to slug (off + 48) d2"
  define d4 where "d4 = copy_to (le_bytes 8 (nat (se_premiumLamports ev))) (off + 64) d3"
  define d5 where "d5 = copy_to (le_bytes 8 (nat (se_refundLamports ev))) (off + 72) d4"
  define d6 where "d6 = copy_to (le_bytes 4 (nat (se_latencyMs ev))) (off + 80) d5"
  define d7 where "d7 = copy_to [word_of_int (if se_breach ev then 1 else 0)] (off + 84) d6"
  define d8 where "d8 = copy_to [word_of_int (int (length (se_feeRecipientAtas ev)))] (off + 85) d7"
  have lens: "length d1 = length data" "length d2 = length data" "length d3 = length data" "length d4 = length data"
    "length d5 = length data" "length d6 = length data" "length d7 = length data" "length d8 = length data"
    by (simp_all add: d1_def d2_def d3_def d4_def d5_def d6_def d7_def d8_def)
  have b: "length (se_callId ev) = 16" "length (se_slug ev) \<le> 16"
      "0 \<le> se_premiumLamports ev" "se_premiumLamports ev < 256 ^ 8" "0 \<le> se_refundLamports ev" "se_refundLamports ev < 256 ^ 8"
      "0 \<le> se_latencyMs ev" "se_latencyMs ev < 256 ^ 4" "- (2 ^ 63) \<le> se_timestamp ev" "se_timestamp ev < 2 ^ 63"
    and d': "data' = copy_to (le_signed 8 (se_timestamp ev)) (off + 92) d8"
    using w len lens
    by (auto simp: write_event_def write_reads Option.bind_eq_Some_conv set_byte_copy Let_def
        d1_def d2_def d3_def d4_def d5_def d6_def d7_def d8_def slug_def)
  have sl: "length slug = 16" using b(2) by (simp add: slug_def)
  note ds = d' d8_def d7_def d6_def d5_def d4_def d3_def d2_def d1_def
  have "same_outside off 104 data' d8" unfolding d' by (rule same_outside_copy) simp_all
  also have "same_outside off 104 d8 d7" unfolding d8_def by (rule same_outside_copy) simp_all
  also have "same_outside off 104 d7 d6" unfolding d7_def by (rule same_outside_copy) simp_all
  also have "same_outside off 104 d6 d5" unfolding d6_def by (rule same_outside_copy) simp_all
  also have "same_outside off 104 d5 d4" unfolding d5_def by (rule same_outside_copy) simp_all
  also have "same_outside off 104 d4 d3" unfolding d4_def by (rule same_outside_copy) simp_all
  also have "same_outside off 104 d3 d2" unfolding d3_def by (rule same_outside_copy) (simp_all add: sl)
  also have "same_outside off 104 d2 d1" unfolding d2_def by (rule same_outside_copy) (simp_all add: owner)
  also have "same_outside off 104 d1 data" unfolding d1_def by (rule same_outside_copy) (simp_all add: b)
  finally show "same_outside off 104 data' data" .
  have r: "slice (off + 92) 8 data' = le_signed 8 (se_timestamp ev)"
    "slice (off + 85) 1 data' = [word_of_int (int (length (se_feeRecipientAtas ev)))]"
    "slice (off + 84) 1 data' = [word_of_int (if se_breach ev then 1 else 0)]"
    "slice (off + 80) 4 data' = le_bytes 4 (nat (se_latencyMs ev))"
    "slice (off + 72) 8 data' = le_bytes 8 (nat (se_refundLamports ev))"
    "slice (off + 64) 8 data' = le_bytes 8 (nat (se_premiumLamports ev))"
    using len lens by (simp_all add: d' d8_def d7_def d6_def d5_def d4_def)
  have r': "slice (off + 48) 16 data' = slug" "slice (off + 16) 32 data' = se_agentOwner ev" "slice off 16 data' = se_callId ev"
    using len lens sl owner b(1) by (simp_all add: ds)
  have l': "length data' = length data" using lens by (simp add: d')
  have "u8 84 (slice off 104 data') = (if se_breach ev then 1 else 0)"
    using r(3) l' len by (simp add: u8_slice slice_slice)
  moreover have "u8 85 (slice off 104 data') = int (length (se_feeRecipientAtas ev)) mod 256"
    using r(2) l' len by (simp add: u8_slice slice_slice uint_of_nat_byte)
  ultimately show "parse_event (slice off 104 data') = wire_of ev"
    using r r' b
    by (simp add: parse_event_def wire_of_def slice_slice slug_def u64_def u32_def i64_def
        int_le_val_le_bytes signed_val_i64)
qed

lemma write_events_correct:
  assumes "write_events evs i data = Some data'" and "3 + (i + length evs) * 104 \<le> length data"
    and "\<forall>ev \<in> set evs. length (se_agentOwner ev) = 32"
  shows "length data' = length data \<and> take (3 + i * 104) data' = take (3 + i * 104) data \<and>
    (\<forall>j < length evs. parse_event (slice (3 + (i + j) * 104) 104 data') = wire_of (evs ! j))"
  using assms
proof (induction evs i data rule: write_events.induct)
  case (2 ev evs i data)
  from 2(2) obtain d where d: "write_event ev (3 + i * 104) data = Some d" "write_events evs (i + 1) d = Some data'"
    by (auto simp: js_simps split: option.splits)
  have e: "same_outside (3 + i * 104) 104 d data" "parse_event (slice (3 + i * 104) 104 d) = wire_of ev"
    using write_event_correct [OF d(1)] 2(3) 2(4) by simp_all
  have ih: "length data' = length d" "take (3 + (i + 1) * 104) data' = take (3 + (i + 1) * 104) d"
    "\<And>j. j < length evs \<Longrightarrow> parse_event (slice (3 + (i + 1 + j) * 104) 104 data') = wire_of (evs ! j)"
    using 2(1) [of d] d 2(3) 2(4) e(1) by (auto simp: js_simps same_outside_def)
  have "take (3 + i * 104) data' = take (3 + i * 104) d"
    using arg_cong [OF ih(2), of "take (3 + i * 104)"] by (simp add: min_def)
  moreover have "slice (3 + i * 104) 104 data' = slice (3 + i * 104) 104 d"
    using arg_cong [OF ih(2), of "slice (3 + i * 104) 104"] by (simp add: slice_take)
  moreover have "parse_event (slice (3 + (i + j) * 104) 104 data') = wire_of ((ev # evs) ! j)"
    if "j < Suc (length evs)" for j
    using that ih(3) [of "j - 1"] e(2) calculation(2) by (cases j) (simp_all add: add.assoc)
  ultimately show ?case using ih(1) e(1) by (simp add: same_outside_def)
qed simp

lemma slice_tl: "slice off n (tl bs) = slice (off + 1) n bs"
  by (simp add: slice_def drop_Suc)

section \<open>Properties\<close>

lemma settle_batch_wire_lemma:
  assumes "buildSettleBatchIx wk p = Some ix"
    and "length (sbp_events p) \<le> 50"
    and "\<forall>ev \<in> set (sbp_events p). length (se_agentOwner ev) = 32"
  shows "hd (ix_data ix) = DISC_SETTLE_BATCH \<and> length (ix_data ix) = 3 + 104 * length (sbp_events p)
    \<and> parse_batch (tl (ix_data ix)) = Some (List.map wire_of (sbp_events p))"
proof -
  let ?n = "length (sbp_events p)"
  define d1 where "d1 = (replicate (1 + 2 + ?n * 104) 0)[0 := DISC_SETTLE_BATCH]"
  define d2 where "d2 = copy_to (le_bytes 2 ?n) 1 d1"
  have w: "write_events (sbp_events p) 0 d2 = Some (ix_data ix)"
    using assms(1) by (auto simp: buildSettleBatchIx_def write_reads Option.bind_eq_Some_conv js_simps d1_def d2_def
        Let_def split: if_splits)
  have l2: "length d2 = 3 + ?n * 104" by (simp add: d1_def d2_def)
  have r: "length (ix_data ix) = 3 + ?n * 104" "take 3 (ix_data ix) = take 3 d2"
    "\<And>j. j < ?n \<Longrightarrow> parse_event (slice (3 + j * 104) 104 (ix_data ix)) = wire_of (sbp_events p ! j)"
    using write_events_correct [OF w] assms(3) l2 by simp_all
  have "hd (take 3 (ix_data ix)) = hd d2" unfolding r(2) using l2 by (cases d2) simp_all
  also have "hd d2 = DISC_SETTLE_BATCH" by (simp add: d2_def d1_def copy_to_def)
  finally have h: "hd (ix_data ix) = DISC_SETTLE_BATCH" by (cases "ix_data ix") (use r(1) in simp_all)
  have "slice 1 2 (ix_data ix) = slice 1 2 d2"
    using arg_cong [OF r(2), of "slice 1 2"] by (simp add: slice_take)
  also have "\<dots> = le_bytes 2 ?n" by (simp add: d2_def d1_def)
  finally have "le_val (slice 0 2 (tl (ix_data ix))) = ?n"
    using assms(2) by (simp add: slice_tl le_val_le_bytes)
  moreover have ev: "parse_event (slice (2 + i * 104) 104 (tl (ix_data ix))) = wire_of (sbp_events p ! i)" if "i < ?n" for i
  proof -
    have "2 + i * 104 + 1 = 3 + i * 104" by simp
    with r(3) [OF that] show ?thesis unfolding slice_tl by metis
  qed
  have "List.map (\<lambda>i. parse_event (slice (2 + i * 104) 104 (tl (ix_data ix)))) [0..<?n] = List.map wire_of (sbp_events p)"
    by (rule nth_equalityI) (use ev in \<open>simp_all del: add_2_eq_Suc add_2_eq_Suc'\<close>)
  ultimately have "parse_batch (tl (ix_data ix)) = Some (List.map wire_of (sbp_events p))"
    using assms(2) r(1) by (simp add: parse_batch_def js_simps)
  with h r(1) show ?thesis by simp
qed

text \<open>
  C14: the program reads from a \<open>settle_batch\<close> instruction exactly the batch the client built it
  from. If the builder returns an instruction for at most fifty events, its first byte is the
  discriminator, its length is \<open>3 + 104 n\<close>, and the program's parser recovers each event in order:
  call id, owner, zero-padded slug, premium, refund, latency, breach flag, number of fee accounts
  (modulo 256) and signed timestamp.
\<close>

theorem settle_batch_wire_roundtrip:
  assumes "buildSettleBatchIx wk p = Some ix"
    and "length (sbp_events p) \<le> 50"
    and "\<forall>ev \<in> set (sbp_events p). length (se_agentOwner ev) = 32"
  shows "hd (ix_data ix) = DISC_SETTLE_BATCH \<and> length (ix_data ix) = 3 + 104 * length (sbp_events p)
    \<and> parse_batch (tl (ix_data ix)) = Some (List.map wire_of (sbp_events p))"
  by (rule settle_batch_wire_lemma [OF assms])

definition example_event :: batch_event where
  "example_event = \<lparr>se_callId = replicate 16 1, se_agentOwner = replicate 32 2, se_agentAta = replicate 32 3,
     se_endpointConfig = replicate 32 4, se_coveragePool = replicate 32 5, se_poolVault = replicate 32 6,
     se_slug = ascii ''fal'', se_premiumLamports = 500, se_refundLamports = 10000, se_latencyMs = 31,
     se_breach = True, se_timestamp = 1700000000, se_feeRecipientAtas = [replicate 32 7]\<rparr>"

definition example_batch :: settle_batch_params where
  "example_batch = \<lparr>sbp_programId = None, sbp_settler = replicate 32 8, sbp_settlementAuthority = replicate 32 9,
     sbp_protocolConfig = replicate 32 10, sbp_events = [example_event], sbp_callRecordPdas = [replicate 32 11]\<rparr>"

lemma example_batch_builds: "\<exists>ix. buildSettleBatchIx example_keys example_batch = Some ix"
  by (simp add: buildSettleBatchIx_def example_batch_def example_event_def write_event_def js_simps
      asCallId_def asSlug_def write_uint_def write_i64_def ascii_def Let_def)

theorem settle_batch_wire_roundtrip_witness:
  "map_option (\<lambda>ix. parse_batch (tl (ix_data ix))) (buildSettleBatchIx example_keys example_batch)
     = Some (Some [wire_of example_event])"
proof -
  obtain ix where ix: "buildSettleBatchIx example_keys example_batch = Some ix"
    using example_batch_builds by blast
  have "length (sbp_events example_batch) \<le> 50" "\<forall>ev \<in> set (sbp_events example_batch). length (se_agentOwner ev) = 32"
    by (simp_all add: example_batch_def example_event_def)
  from settle_batch_wire_roundtrip [OF ix this]
  have "parse_batch (tl (ix_data ix)) = Some (List.map wire_of (sbp_events example_batch))" by blast
  moreover have "sbp_events example_batch = [example_event]" by (simp add: example_batch_def)
  ultimately show ?thesis by (simp add: ix)
qed

lemma push_event_keys_concat:
  "length evs = length pdas \<Longrightarrow>
     push_event_keys evs pdas keys = keys @ concat (List.map (\<lambda>i. event_keys (pdas ! i) (evs ! i)) [0..<length evs])"
proof (induction evs pdas keys rule: push_event_keys.induct)
  case (1 ev evs pda pdas keys)
  have "[0..<Suc (length evs)] = 0 # List.map Suc [0..<length evs]"
    by (simp add: map_Suc_upt upt_conv_Cons del: upt_Suc)
  with 1 show ?case by (simp add: comp_def del: upt_Suc)
qed auto

text \<open>
  The settler's account list and the instruction agree. Whenever the builder returns an
  instruction, \<open>accountListForBatch\<close> on the same events and call-record addresses returns exactly its
  key list (order, signer and writable flags included), the list opens with the five fixed
  accounts and has five plus the number of fee accounts for each event; and it refuses exactly the
  mismatched lengths the builder refuses.
\<close>

theorem account_list_matches_instruction:
  "(case buildSettleBatchIx wk p of
      Some ix \<Rightarrow> accountListForBatch wk (sbp_events p) (sbp_callRecordPdas p) (sbp_settler p)
          (sbp_settlementAuthority p) (sbp_protocolConfig p) = Some (ix_keys ix)
        \<and> length (ix_keys ix) = 5 + sum_list (List.map (\<lambda>ev. 5 + length (se_feeRecipientAtas ev)) (sbp_events p))
    | None \<Rightarrow> True)
   \<and> (accountListForBatch wk (sbp_events p) (sbp_callRecordPdas p) (sbp_settler p)
        (sbp_settlementAuthority p) (sbp_protocolConfig p) = None
      \<longleftrightarrow> length (sbp_events p) \<noteq> length (sbp_callRecordPdas p))"
proof -
  let ?l = "accountListForBatch wk (sbp_events p) (sbp_callRecordPdas p) (sbp_settler p)
        (sbp_settlementAuthority p) (sbp_protocolConfig p)"
  have none: "?l = None \<longleftrightarrow> length (sbp_events p) \<noteq> length (sbp_callRecordPdas p)"
    by (simp add: accountListForBatch_def)
  have some: "?l = Some (ix_keys ix) \<and>
      length (ix_keys ix) = 5 + sum_list (List.map (\<lambda>ev. 5 + length (se_feeRecipientAtas ev)) (sbp_events p))"
    if ix: "buildSettleBatchIx wk p = Some ix" for ix
  proof -
    have len: "length (sbp_events p) = length (sbp_callRecordPdas p)"
      using ix by (auto simp: buildSettleBatchIx_def Option.bind_eq_Some_conv Let_def split: if_splits)
    have k: "ix_keys ix = [meta (sbp_settler p) True True, meta (sbp_settlementAuthority p) False False,
        meta (wk_token wk) False False, meta (wk_system wk) False False, meta (sbp_protocolConfig p) False False] @
        concat (List.map (\<lambda>i. event_keys (sbp_callRecordPdas p ! i) (sbp_events p ! i)) [0..<length (sbp_events p)])"
      using ix by (auto simp: buildSettleBatchIx_def Option.bind_eq_Some_conv Let_def push_event_keys_concat [OF len]
          split: if_splits)
    have "List.map (\<lambda>i. 5 + length (se_feeRecipientAtas (sbp_events p ! i))) [0..<length (sbp_events p)] =
        List.map (\<lambda>ev. 5 + length (se_feeRecipientAtas ev)) (sbp_events p)"
      by (rule nth_equalityI) simp_all
    moreover have "length (event_keys pda ev) = 5 + length (se_feeRecipientAtas ev)" for pda ev
      by (simp add: event_keys_def)
    ultimately have "length (ix_keys ix) = 5 + sum_list (List.map (\<lambda>ev. 5 + length (se_feeRecipientAtas ev)) (sbp_events p))"
      by (simp add: k length_concat comp_def)
    then show ?thesis using len k by (simp add: accountListForBatch_def event_keys_def Let_def)
  qed
  show ?thesis using none some by (simp split: option.split)
qed

end
