(* ===== verification/FeeRules.thy ===== *)
theory FeeRules
  imports ProtocolIx
begin

text \<open>
  The fee-recipient rules: the client's template and pre-flight check (\<open>helpers.ts\<close>) and the
  program's own checks (\<open>fee.rs\<close>) on the bytes the client sends. The text of a pre-flight reason
  opens with the name of the program error it stands for; the model keeps that name.
\<close>

definition ABSOLUTE_FEE_BPS_CAP :: int where [js_simps]: "ABSOLUTE_FEE_BPS_CAP = 10000"

datatype fee_error =
    CountMismatch
  | FeeRecipientArrayTooLong
  | FeeBpsExceedsCap
  | InvalidFeeRecipientKind
  | MultipleTreasuryRecipients
  | FeeRecipientDuplicateDestination
  | FeeBpsSumOver10k
  | InvalidInstructionData
  | MissingTreasuryEntry
  | TreasuryBpsZero

section \<open>Client\<close>

definition defaultFeeRecipients :: "(bytes \<Rightarrow> string) \<Rightarrow> pubkey \<Rightarrow> pubkey option \<Rightarrow> fee_recipient list \<times> nat" where
  "defaultFeeRecipients b58 treasuryVault affiliateAta =
     (let base = [\<lparr>fr_kind = KIND_Treasury, fr_destination = b58 treasuryVault, fr_bps = 1000\<rparr>];
          frs = (case affiliateAta of None \<Rightarrow> base
                 | Some a \<Rightarrow> base @ [\<lparr>fr_kind = KIND_AffiliateAta, fr_destination = b58 a, fr_bps = 500\<rparr>])
      in (frs, length frs))"

text \<open>The loop of \<open>validateFeeRecipients\<close>; \<open>Inr\<close> is the sum of the entries.\<close>

fun validate_loop :: "fee_recipient list \<Rightarrow> int \<Rightarrow> bool \<Rightarrow> string set \<Rightarrow> fee_error + int" where
  "validate_loop [] acc treasurySeen seenDest = Inr acc"
| "validate_loop (r # rs) acc treasurySeen seenDest =
     (if fr_kind r \<noteq> KIND_Treasury \<and> fr_kind r \<noteq> KIND_AffiliateAta \<and> fr_kind r \<noteq> KIND_AffiliatePda
        then Inl InvalidFeeRecipientKind
      else if fr_bps r > ABSOLUTE_FEE_BPS_CAP then Inl FeeBpsExceedsCap
      else if fr_kind r = KIND_Treasury \<and> treasurySeen then Inl MultipleTreasuryRecipients
      else if fr_destination r \<in> seenDest then Inl FeeRecipientDuplicateDestination
      else validate_loop rs (acc + fr_bps r) (treasurySeen \<or> fr_kind r = KIND_Treasury)
             (insert (fr_destination r) seenDest))"

text \<open>\<open>None\<close> is \<open>valid: true\<close>.\<close>

definition validateFeeRecipients :: "fee_recipient list \<Rightarrow> int \<Rightarrow> int \<Rightarrow> fee_error option" where
  "validateFeeRecipients recipients cnt maxTotalFeeBps =
     (if cnt \<noteq> int (length recipients) then Some CountMismatch
      else if cnt > MAX_FEE_RECIPIENTS then Some FeeRecipientArrayTooLong
      else if maxTotalFeeBps > ABSOLUTE_FEE_BPS_CAP then Some FeeBpsExceedsCap
      else case validate_loop recipients 0 False {} of
          Inl e \<Rightarrow> Some e
        | Inr acc \<Rightarrow> if acc > ABSOLUTE_FEE_BPS_CAP then Some FeeBpsSumOver10k
                     else if acc > maxTotalFeeBps then Some FeeBpsExceedsCap
                     else None)"

text \<open>
  \<open>feeAtasMatchEndpoint\<close>: \<open>Some None\<close> is \<open>valid: true\<close>, \<open>Some (Some (Inl _))\<close> the count mismatch,
  \<open>Some (Some (Inr i))\<close> the slot; \<open>None\<close> is the \<open>TypeError\<close> when the decoded array is shorter than
  the count it came with.
\<close>

fun match_slots :: "(bytes \<Rightarrow> string) \<Rightarrow> fee_recipient list \<Rightarrow> pubkey list \<Rightarrow> nat \<Rightarrow> nat option option" where
  "match_slots b58 rs [] i = Some None"
| "match_slots b58 [] (a # as) i = None"
| "match_slots b58 (r # rs) (a # as) i =
     (if b58 a \<noteq> fr_destination r then Some (Some i) else match_slots b58 rs as (i + 1))"

definition feeAtasMatchEndpoint :: "(bytes \<Rightarrow> string) \<Rightarrow> endpoint_account \<Rightarrow> pubkey list \<Rightarrow> (unit + nat) option option" where
  "feeAtasMatchEndpoint b58 endpoint atas =
     (if int (length atas) \<noteq> ec_feeRecipientCount endpoint then Some (Some (Inl ()))
      else map_option (map_option Inr) (match_slots b58 (ec_feeRecipients endpoint) atas 0))"

section \<open>Program\<close>

record prog_fee =
  pf_kind :: int
  pf_destination :: bytes
  pf_bps :: int

definition decode_entry :: "bytes \<Rightarrow> fee_error + prog_fee" where
  "decode_entry raw =
     (if length raw < 48 then Inl InvalidInstructionData
      else if u8 0 raw > 2 then Inl InvalidFeeRecipientKind
      else Inr \<lparr>pf_kind = u8 0 raw, pf_destination = slice 8 32 raw, pf_bps = u16 40 raw\<rparr>)"

text \<open>
  The loop over \<open>i\<close>: \<open>n\<close> entries to go, \<open>entries\<close> those read so far. The checked addition cannot
  overflow (\<open>count \<le> 8\<close> and a bps is a \<open>u16\<close>).
\<close>

fun parse_loop :: "bytes \<Rightarrow> nat \<Rightarrow> nat \<Rightarrow> prog_fee list \<Rightarrow> int \<Rightarrow> bool \<Rightarrow> fee_error + prog_fee list \<times> int" where
  "parse_loop bs i 0 entries sum_bps treasury_seen = Inr (entries, sum_bps)"
| "parse_loop bs i (Suc n) entries sum_bps treasury_seen =
     (case decode_entry (slice (i * 48) 48 bs) of
        Inl e \<Rightarrow> Inl e
      | Inr entry \<Rightarrow>
          if pf_bps entry > ABSOLUTE_FEE_BPS_CAP then Inl FeeBpsExceedsCap
          else if pf_kind entry = 0 \<and> treasury_seen then Inl MultipleTreasuryRecipients
          else if pf_destination entry \<in> pf_destination ` set entries then Inl FeeRecipientDuplicateDestination
          else parse_loop bs (i + 1) n (entries @ [entry]) (sum_bps + pf_bps entry)
                 (treasury_seen \<or> pf_kind entry = 0))"

definition parse_and_validate :: "bytes \<Rightarrow> nat \<Rightarrow> int \<Rightarrow> fee_error + prog_fee list \<times> int" where
  "parse_and_validate bs cnt max_total_fee_bps =
     (if int cnt > MAX_FEE_RECIPIENTS then Inl FeeRecipientArrayTooLong
      else if length bs < cnt * 48 then Inl InvalidInstructionData
      else case parse_loop bs 0 cnt [] 0 False of
          Inl e \<Rightarrow> Inl e
        | Inr (entries, sum_bps) \<Rightarrow>
            if sum_bps > ABSOLUTE_FEE_BPS_CAP then Inl FeeBpsSumOver10k
            else if sum_bps > max_total_fee_bps then Inl FeeBpsExceedsCap
            else Inr (entries, sum_bps))"

definition substitute_treasury_destination :: "bytes \<Rightarrow> prog_fee list \<Rightarrow> prog_fee list" where
  "substitute_treasury_destination vault entries =
     List.map (\<lambda>e. if pf_kind e = 0 then e\<lparr>pf_destination := vault\<rparr> else e) entries"

definition validate_post_substitution :: "prog_fee list \<Rightarrow> fee_error option" where
  "validate_post_substitution entries =
     (let treasuries = filter (\<lambda>e. pf_kind e = 0) entries;
          treasury_count = length treasuries;
          treasury_bps = (if treasuries = [] then 0 else pf_bps (last treasuries))
      in if treasury_count = 0 then Some MissingTreasuryEntry
         else if treasury_count > 1 then Some MultipleTreasuryRecipients
         else if treasury_bps = 0 then Some TreasuryBpsZero
         else if \<not> distinct (List.map pf_destination entries) then Some FeeRecipientDuplicateDestination
         else None)"

text \<open>
  The fee part of \<open>update_fee_recipients\<close>: \<open>data\<close> comes without the discriminator; \<open>Inr\<close> holds the
  entries that go into the endpoint's account.
\<close>

definition update_fees_check :: "bytes \<Rightarrow> int \<Rightarrow> bytes \<Rightarrow> fee_error + prog_fee list" where
  "update_fees_check data max_total_fee_bps vault =
     (let cnt = nat (u8 16 data) in
      if length data < 17 then Inl InvalidInstructionData
      else if length data \<noteq> 17 + cnt * 48 then Inl InvalidInstructionData
      else if int cnt > MAX_FEE_RECIPIENTS then Inl FeeRecipientArrayTooLong
      else case parse_and_validate (drop 17 data) cnt max_total_fee_bps of
          Inl e \<Rightarrow> Inl e
        | Inr (entries0, s) \<Rightarrow>
            let entries = substitute_treasury_destination vault entries0 in
            case validate_post_substitution entries of Some e \<Rightarrow> Inl e | None \<Rightarrow> Inr entries)"

section \<open>The bytes of an array\<close>

lemma copy_to_append:
  "copy_to src (length pre + k) (pre @ rest) = pre @ copy_to src k rest"
  by (simp add: copy_to_def)

lemma copy_to_append_left:
  "k + length src \<le> length a \<Longrightarrow> copy_to src k (a @ post) = copy_to src k a @ post"
  by (simp add: copy_to_def)

definition rs_of :: "(string \<Rightarrow> bytes option) \<Rightarrow> fee_recipient \<Rightarrow> rs_fee_recipient" where
  "rs_of unb58 r = \<lparr>rf_kind = word_of_int (fr_kind r), rf_pad0 = replicate 7 0,
     rf_destination = (case unb58 (fr_destination r) of None \<Rightarrow> [] | Some k \<Rightarrow> k),
     rf_bps = word_of_int (fr_bps r), rf_pad1 = replicate 6 0\<rparr>"

lemma replicate_48: "replicate 48 (x :: byte) = replicate 1 x @ replicate 7 x @ replicate 32 x @ replicate 2 x @ replicate 6 x"
  by (simp add: replicate_add [symmetric] numeral_eq_Suc)

lemma uint_bps: "nat (v mod 65536) = unat (word_of_int v :: 16 word)"
  by (simp add: unsigned_of_int take_bit_eq_mod)

lemma encodeFeeRecipient_at:
  assumes k: "unb58 (fr_destination r) = Some k" "length k = 32" and off: "off = length pre"
  shows "encodeFeeRecipient unb58 r (pre @ replicate 48 0 @ post) off =
     Some (pre @ fee_recipient_image (rs_of unb58 r) @ post)"
proof -
  have "set_u16 (fr_bps r) 40 (copy_to k 8 (set_byte (fr_kind r) 0 (replicate 48 0))) =
      fee_recipient_image (rs_of unb58 r)"
    unfolding replicate_48 using k
    by (simp add: set_u16_def set_byte_def copy_to_def fee_recipient_image_def rs_of_def le_word_def uint_bps)
  then show ?thesis using k off
    by (simp add: encodeFeeRecipient_def set_byte_copy set_u16_def copy_to_append copy_to_append_left
        copy_to_append [of _ _ 0, simplified])
qed

definition key_of :: "(string \<Rightarrow> bytes option) \<Rightarrow> fee_recipient \<Rightarrow> bytes" where
  "key_of unb58 r = (case unb58 (fr_destination r) of None \<Rightarrow> [] | Some k \<Rightarrow> k)"

text \<open>An entry the wire format can carry: a byte, a key and a \<open>u16\<close>.\<close>

definition encodable :: "(string \<Rightarrow> bytes option) \<Rightarrow> fee_recipient \<Rightarrow> bool" where
  "encodable unb58 r \<longleftrightarrow> 0 \<le> fr_kind r \<and> fr_kind r < 256 \<and> 0 \<le> fr_bps r \<and> fr_bps r < 65536 \<and>
     (\<exists>k. unb58 (fr_destination r) = Some k \<and> length k = 32)"

lemma wf_rs_of: "encodable unb58 r \<Longrightarrow> wf_fee_recipient (rs_of unb58 r)"
  by (auto simp: encodable_def wf_fee_recipient_def rs_of_def)

lemma encode_entries_at:
  assumes "\<forall>r \<in> set rs. encodable unb58 r" and "length pre = i * 48"
  shows "encode_entries unb58 rs i (pre @ replicate (length rs * 48) 0) =
     Some (pre @ concat (List.map (fee_recipient_image \<circ> rs_of unb58) rs))"
  using assms
proof (induction rs arbitrary: i pre)
  case (Cons r rs)
  obtain k where k: "unb58 (fr_destination r) = Some k" "length k = 32"
    using Cons.prems(1) by (auto simp: encodable_def)
  have z: "replicate (length (r # rs) * 48) (0 :: byte) = replicate 48 0 @ replicate (length rs * 48) 0"
    by (simp add: replicate_add [symmetric])
  have "encodeFeeRecipient unb58 r (pre @ replicate (length (r # rs) * 48) 0) (i * 48) =
      Some ((pre @ fee_recipient_image (rs_of unb58 r)) @ replicate (length rs * 48) 0)"
    unfolding z using k encodeFeeRecipient_at [of unb58 r k "i * 48" pre] Cons.prems(2) by simp
  moreover have "length (pre @ fee_recipient_image (rs_of unb58 r)) = (i + 1) * 48"
    using Cons.prems wf_rs_of by simp
  note ih = Cons.IH [OF _ this]
  ultimately show ?case using Cons.prems(1) ih by (simp add: js_simps)
qed simp

lemma encode_array_image:
  assumes "\<forall>r \<in> set rs. encodable unb58 r"
  shows "encodeFeeRecipientArray unb58 rs = Some (concat (List.map fee_recipient_image (List.map (rs_of unb58) rs)))"
  using encode_entries_at [OF assms, of "[]" 0] by (simp add: encodeFeeRecipientArray_def js_simps)

lemma uint_kind: "0 \<le> v \<Longrightarrow> v < 256 \<Longrightarrow> uint (word_of_int v :: byte) = v"
  by (simp add: uint_word_of_int)

lemma uint_u16: "0 \<le> v \<Longrightarrow> v < 65536 \<Longrightarrow> uint (word_of_int v :: 16 word) = v"
  by (simp add: uint_word_of_int)

lemma rs_of_fields:
  assumes "encodable unb58 r"
  shows "uint (rf_kind (rs_of unb58 r)) = fr_kind r" and "uint (rf_bps (rs_of unb58 r)) = fr_bps r"
    and "rf_destination (rs_of unb58 r) = key_of unb58 r"
  using assms by (auto simp: rs_of_def encodable_def uint_kind uint_u16 key_of_def)

text \<open>Destinations written the way \<open>toBase58\<close> writes them.\<close>

definition canonical :: "(bytes \<Rightarrow> string) \<Rightarrow> (string \<Rightarrow> bytes option) \<Rightarrow> fee_recipient \<Rightarrow> bool" where
  "canonical b58 unb58 r \<longleftrightarrow> b58 (key_of unb58 r) = fr_destination r"

lemma slice_images:
  assumes "\<forall>r \<in> set rs. wf_fee_recipient r" and "i < length rs" and "k + n \<le> 48"
  shows "slice (i * 48 + k) n (concat (List.map fee_recipient_image rs) @ rest) = slice k n (fee_recipient_image (rs ! i))"
  using slice_concat_48 [of "List.map fee_recipient_image rs" i k n rest] assms by simp

lemma decode_entry_image:
  assumes "encodable unb58 r"
  shows "decode_entry (fee_recipient_image (rs_of unb58 r)) =
     (if fr_kind r > 2 then Inl InvalidFeeRecipientKind
      else Inr \<lparr>pf_kind = fr_kind r, pf_destination = key_of unb58 r, pf_bps = fr_bps r\<rparr>)"
proof -
  let ?b = "fee_recipient_image (rs_of unb58 r)"
  have wf: "wf_fee_recipient (rs_of unb58 r)" using assms by (rule wf_rs_of)
  have "u8 0 ?b = uint (rf_kind (rs_of unb58 r))" by (simp add: u8_def fee_recipient_image_def)
  moreover have "slice 8 32 ?b = rf_destination (rs_of unb58 r)" "slice 40 2 ?b = le_word 2 (rf_bps (rs_of unb58 r))"
    using wf by (simp_all add: fee_recipient_image_def wf_fee_recipient_def image_reads)
  ultimately show ?thesis
    using length_fee_image [OF wf] by (simp add: decode_entry_def u16_def le_val_le_word rs_of_fields [OF assms])
qed

section \<open>Pre-flight and program agree\<close>

definition prog_of :: "(string \<Rightarrow> bytes option) \<Rightarrow> fee_recipient \<Rightarrow> prog_fee" where
  "prog_of unb58 r = \<lparr>pf_kind = fr_kind r, pf_destination = key_of unb58 r, pf_bps = fr_bps r\<rparr>"

lemma prog_of_sel [simp]:
  "pf_kind (prog_of unb58 r) = fr_kind r" "pf_destination (prog_of unb58 r) = key_of unb58 r"
  "pf_bps (prog_of unb58 r) = fr_bps r"
  by (simp_all add: prog_of_def)

lemma canonical_eq:
  "canonical b58 unb58 r \<Longrightarrow> canonical b58 unb58 r' \<Longrightarrow>
     key_of unb58 r = key_of unb58 r' \<longleftrightarrow> fr_destination r = fr_destination r'"
  by (metis canonical_def key_of_def)

lemma loops_agree:
  assumes "\<forall>r \<in> set rs. encodable unb58 r \<and> canonical b58 unb58 r"
    and "bs = concat (List.map (fee_recipient_image \<circ> rs_of unb58) rs)"
    and "rs = done' @ todo"
  shows "parse_loop bs (length done') (length todo) (List.map (prog_of unb58) done') sm ts =
     (case validate_loop todo sm ts (fr_destination ` set done') of
        Inl e \<Rightarrow> Inl e | Inr sm' \<Rightarrow> Inr (List.map (prog_of unb58) rs, sm'))"
  using assms(3)
proof (induction todo arbitrary: done' sm ts)
  case (Cons r todo)
  have r: "encodable unb58 r" "canonical b58 unb58 r" and "\<forall>x \<in> set done'. canonical b58 unb58 x"
    using assms(1) Cons.prems by auto
  then have dup: "key_of unb58 r \<in> key_of unb58 ` set done' \<longleftrightarrow> fr_destination r \<in> fr_destination ` set done'"
    using canonical_eq by (metis (no_types, lifting) image_iff)
  have "\<forall>x \<in> set (List.map (rs_of unb58) rs). wf_fee_recipient x" using assms(1) wf_rs_of by auto
  moreover have "List.map (rs_of unb58) rs ! length done' = rs_of unb58 r"
    using Cons.prems by (simp add: nth_append)
  moreover note slice_images [of "List.map (rs_of unb58) rs" "length done'" 0 48 "[]"]
  ultimately
  have "slice (length done' * 48) 48 bs = slice 0 48 (fee_recipient_image (rs_of unb58 r))"
    using Cons.prems by (simp add: assms(2) comp_def)
  then have entry: "decode_entry (slice (length done' * 48) 48 bs) =
      (if fr_kind r > 2 then Inl InvalidFeeRecipientKind else Inr (prog_of unb58 r))"
    using decode_entry_image [OF r(1)] length_fee_image [OF wf_rs_of [OF r(1)]]
    by (simp add: slice_all prog_of_def)
  have k0: "0 \<le> fr_kind r" using r(1) by (simp add: encodable_def)
  have ih: "parse_loop bs (length (done' @ [r])) (length todo) (List.map (prog_of unb58) (done' @ [r]))
        (sm + fr_bps r) (ts \<or> fr_kind r = 0) =
      (case validate_loop todo (sm + fr_bps r) (ts \<or> fr_kind r = 0) (fr_destination ` set (done' @ [r])) of
        Inl e \<Rightarrow> Inl e | Inr sm' \<Rightarrow> Inr (List.map (prog_of unb58) rs, sm'))"
    by (rule Cons.IH) (use Cons.prems in simp)
  have kinds: "(fr_kind r \<noteq> 0 \<and> fr_kind r \<noteq> 1 \<and> fr_kind r \<noteq> 2) = (fr_kind r > 2)" using k0 by auto
  show ?case
    using ih by (simp add: entry dup js_simps kinds image_image insert_commute)
qed simp

lemma preflight_matches_program_lemma:
  assumes "\<forall>r \<in> set rs. encodable unb58 r \<and> canonical b58 unb58 r"
    and "encodeFeeRecipientArray unb58 rs = Some body" and "maxTotal \<le> 10000"
  shows "parse_and_validate body (length rs) maxTotal =
     (case validateFeeRecipients rs (int (length rs)) maxTotal of
        Some e \<Rightarrow> Inl e
      | None \<Rightarrow> Inr (List.map (prog_of unb58) rs, sum_list (List.map fr_bps rs)))"
proof -
  have body: "body = concat (List.map (fee_recipient_image \<circ> rs_of unb58) rs)"
    using encode_array_image [of rs unb58] assms(1,2) by simp
  have "\<forall>x \<in> set (List.map (rs_of unb58) rs). wf_fee_recipient x" using assms(1) wf_rs_of by auto
  from length_fee_images [OF this] have len: "length body = length rs * 48" by (simp add: body)
  have sums: "validate_loop xs sm ts seen = Inr sm' \<Longrightarrow> sm' = sm + sum_list (List.map fr_bps xs)" for xs sm ts seen sm'
    by (induction xs sm ts seen rule: validate_loop.induct) (auto split: if_splits)
  have "parse_loop body 0 (length rs) [] 0 False =
     (case validate_loop rs 0 False {} of
        Inl e \<Rightarrow> Inl e | Inr sm' \<Rightarrow> Inr (List.map (prog_of unb58) rs, sm'))"
    using loops_agree [OF assms(1) body, of "[]" rs 0 False] by simp
  then show ?thesis
    using assms(3) sums [of rs 0 False "{}"] len
    by (auto simp: parse_and_validate_def validateFeeRecipients_def js_simps split: sum.splits)
qed

text \<open>
  C15: the pre-flight check is the program's check. For an array the wire format can carry, with
  canonical base58 destinations, and a fee ceiling of at most 10,000 basis points,
  \<open>validateFeeRecipients\<close> returns exactly what \<open>parse_and_validate\<close> returns on the encoded bytes:
  the same error, first in the same order, or acceptance, and then the program holds the same
  entries in the same order.
\<close>

theorem preflight_matches_program:
  assumes "\<forall>r \<in> set rs. encodable unb58 r \<and> canonical b58 unb58 r"
    and "encodeFeeRecipientArray unb58 rs = Some body" and "maxTotal \<le> 10000"
  shows "parse_and_validate body (length rs) maxTotal =
     (case validateFeeRecipients rs (int (length rs)) maxTotal of
        Some e \<Rightarrow> Inl e
      | None \<Rightarrow> Inr (List.map (prog_of unb58) rs, sum_list (List.map fr_bps rs)))"
  by (rule preflight_matches_program_lemma [OF assms])

definition fee_template :: "fee_recipient list" where
  "fee_template = fst (defaultFeeRecipients text_b58 (replicate 32 1) (Some (replicate 32 2)))"

lemma fee_template_ok: "\<forall>r \<in> set fee_template. encodable text_unb58 r \<and> canonical text_b58 text_unb58 r"
proof -
  have "length k = 32 \<Longrightarrow> text_unb58 (text_b58 k) = Some k" for k
    using base58_decode [OF text_base58_ok] by blast
  then show ?thesis
    by (simp add: fee_template_def defaultFeeRecipients_def encodable_def canonical_def key_of_def js_simps)
qed

theorem preflight_matches_program_witness:
  "\<exists>body. encodeFeeRecipientArray text_unb58 fee_template = Some body
     \<and> parse_and_validate body 2 3000 = Inr (List.map (prog_of text_unb58) fee_template, 1500)"
proof -
  obtain body where body: "encodeFeeRecipientArray text_unb58 fee_template = Some body"
    using encode_array_image [of fee_template text_unb58] fee_template_ok by auto
  have "text_b58 (replicate 32 1) \<noteq> text_b58 (replicate 32 2)"
  proof
    assume "text_b58 (replicate 32 1) = text_b58 (replicate 32 2)"
    then have "Some (replicate 32 (1 :: byte)) = Some (replicate 32 2)"
      using base58_decode [OF text_base58_ok, of "replicate 32 1"] base58_decode [OF text_base58_ok, of "replicate 32 2"]
      by (simp only: length_replicate)
    then show False by (simp only: option.inject replicate_eq_replicate) simp
  qed
  then have "validateFeeRecipients fee_template (int (length fee_template)) 3000 = None"
    by (simp add: fee_template_def defaultFeeRecipients_def validateFeeRecipients_def js_simps)
  moreover have "length fee_template = 2" "sum_list (List.map fr_bps fee_template) = 1500"
    by (simp_all add: fee_template_def defaultFeeRecipients_def)
  ultimately show ?thesis
    using preflight_matches_program [OF fee_template_ok body, of 3000] body by simp
qed

text \<open>
  Fee-recipient arrays survive the wire. Encoding up to eight entries of the three known
  kinds and decoding the bytes at any position of a larger buffer gives the same array back:
  kinds, base58 destinations and basis points.
\<close>

theorem fee_array_roundtrip:
  assumes "\<forall>r \<in> set rs. encodable unb58 r \<and> canonical b58 unb58 r \<and> fr_kind r \<le> KIND_AffiliatePda"
    and "length rs \<le> 8" and "encodeFeeRecipientArray unb58 rs = Some body"
  shows "decodeFeeRecipientArray b58 (pre @ body @ rest) (length pre) (int (length rs)) = Some rs"
proof -
  let ?rs = "List.map (rs_of unb58) rs"
  have body: "body = concat (List.map fee_recipient_image ?rs)"
    using encode_array_image [of rs unb58] assms(1,3) by simp
  have wf: "\<forall>r \<in> set ?rs. wf_fee_recipient r" using assms(1) wf_rs_of by auto
  from length_fee_images [OF wf] have len: "length body = 48 * length rs" by (simp add: body)
  have "decodeFeeRecipientArray b58 (pre @ body @ rest) (length pre) (int (length rs)) =
      Some (List.map (fee_recipient_view b58) (take (length rs) ?rs))"
  proof (rule decode_fee_array_at [OF _ _ wf])
    fix off n assume "off + n \<le> 48 * length ?rs"
    then show "slice (length pre + off) n (pre @ body @ rest) = slice off n (concat (List.map fee_recipient_image ?rs))"
      unfolding body [symmetric] by (simp add: slice_append_right slice_append_left len)
  next
    show "\<forall>r \<in> set (take (length rs) ?rs). uint (rf_kind r) \<le> 2"
      using assms(1) rs_of_fields(1) by (auto simp: js_simps)
  qed (use assms(2) len in simp_all)
  moreover have "fee_recipient_view b58 (rs_of unb58 r) = r" if "r \<in> set rs" for r
    using that assms(1) by (simp add: fee_recipient_view_def rs_of_fields canonical_def)
  then have "List.map (fee_recipient_view b58) (take (length rs) ?rs) = rs"
    by (simp add: map_idI)
  ultimately show ?thesis by simp
qed

theorem fee_array_roundtrip_witness:
  "\<exists>body. encodeFeeRecipientArray text_unb58 fee_template = Some body
     \<and> decodeFeeRecipientArray text_b58 ([9, 9, 9] @ body @ [1]) 3 2 = Some fee_template"
proof -
  obtain body where body: "encodeFeeRecipientArray text_unb58 fee_template = Some body"
    using encode_array_image [of fee_template text_unb58] fee_template_ok by auto
  have l: "length fee_template = 2" "\<forall>r \<in> set fee_template. fr_kind r \<le> KIND_AffiliatePda"
    by (simp_all add: fee_template_def defaultFeeRecipients_def js_simps)
  then have "\<forall>r \<in> set fee_template. encodable text_unb58 r \<and> canonical text_b58 text_unb58 r \<and> fr_kind r \<le> KIND_AffiliatePda"
    "length fee_template \<le> 8" using fee_template_ok by auto
  from fee_array_roundtrip [OF this body, of "[9, 9, 9]" "[1]"] body l show ?thesis by (simp add: numeral_3_eq_3)
qed

lemma post_substitution:
  assumes "distinct (List.map pf_destination es)" and "length (filter (\<lambda>e. pf_kind e = 0) es) \<le> 1"
  shows "validate_post_substitution (substitute_treasury_destination vault es) = None \<longleftrightarrow>
     (\<exists>e \<in> set es. pf_kind e = 0 \<and> pf_bps e \<noteq> 0) \<and> (\<forall>e \<in> set es. pf_kind e \<noteq> 0 \<longrightarrow> pf_destination e \<noteq> vault)"
proof -
  let ?sub = "\<lambda>e. if pf_kind e = 0 then e\<lparr>pf_destination := vault\<rparr> else e"
  have kind: "pf_kind (?sub e) = pf_kind e" "pf_bps (?sub e) = pf_bps e" for e by simp_all
  have f: "filter (\<lambda>e. pf_kind e = 0) (List.map ?sub es) = List.map ?sub (filter (\<lambda>e. pf_kind e = 0) es)"
    by (simp add: filter_map comp_def kind)
  consider (none) "filter (\<lambda>e. pf_kind e = 0) es = []" | (one) t where "filter (\<lambda>e. pf_kind e = 0) es = [t]"
    using assms(2) by (cases "filter (\<lambda>e. pf_kind e = 0) es") auto
  then show ?thesis
  proof cases
    case none
    then have "\<forall>e \<in> set es. pf_kind e \<noteq> 0" by (simp add: filter_empty_conv)
    then show ?thesis
      using none f by (auto simp: validate_post_substitution_def substitute_treasury_destination_def)
  next
    case one
    obtain a b where es: "es = a @ t # b" and ab: "\<forall>e \<in> set a \<union> set b. pf_kind e \<noteq> 0" and t: "pf_kind t = 0"
    proof -
      obtain a b where "es = a @ t # b" "\<forall>u \<in> set a. pf_kind u \<noteq> 0" "pf_kind t = 0"
        "[] = filter (\<lambda>e. pf_kind e = 0) b"
        using filter_eq_ConsD [OF one] by blast
      moreover from this(4) [symmetric] have "\<forall>u \<in> set b. pf_kind u \<noteq> 0" by (simp add: filter_empty_conv)
      ultimately show thesis using that by blast
    qed
    have id: "List.map ?sub a = a" "List.map ?sub b = b" using ab by (auto intro!: map_idI)
    then have m: "List.map ?sub es = a @ t\<lparr>pf_destination := vault\<rparr> # b" by (simp add: es t)
    have "filter (\<lambda>e. pf_kind e = 0) a = []" "filter (\<lambda>e. pf_kind e = 0) b = []"
      using ab by (auto simp: filter_empty_conv)
    then show ?thesis
      unfolding validate_post_substitution_def substitute_treasury_destination_def m
      using assms(1) ab t by (auto simp: es Let_def)
  qed
qed

lemma validate_loop_facts:
  "validate_loop rs sm ts seen = Inr sm' \<Longrightarrow>
     distinct (List.map fr_destination rs) \<and> seen \<inter> fr_destination ` set rs = {} \<and>
     length (filter (\<lambda>r. fr_kind r = 0) rs) \<le> (if ts then 0 else 1)"
  by (induction rs sm ts seen rule: validate_loop.induct) (auto simp: js_simps split: if_splits)

lemma preflight_facts:
  assumes "validateFeeRecipients rs n maxTotal = None"
  shows "distinct (List.map fr_destination rs)" and "length (filter (\<lambda>r. fr_kind r = 0) rs) \<le> 1"
    and "n = int (length rs)" and "length rs \<le> 8" and "sum_list (List.map fr_bps rs) \<le> maxTotal"
proof -
  obtain sm where sm: "validate_loop rs 0 False {} = Inr sm" and n: "n = int (length rs)" "length rs \<le> 8" "sm \<le> maxTotal"
    using assms by (auto simp: validateFeeRecipients_def js_simps split: if_splits sum.splits)
  have "validate_loop xs sm ts seen = Inr sm' \<Longrightarrow> sm' = sm + sum_list (List.map fr_bps xs)" for xs sm ts seen sm'
    by (induction xs sm ts seen rule: validate_loop.induct) (auto split: if_splits)
  from this [OF sm] n(3) show "sum_list (List.map fr_bps rs) \<le> maxTotal" by simp
  from validate_loop_facts [OF sm] n
  show "distinct (List.map fr_destination rs)" "length (filter (\<lambda>r. fr_kind r = 0) rs) \<le> 1"
    "n = int (length rs)" "length rs \<le> 8" by simp_all
qed

lemma update_fees_data:
  assumes "buildUpdateFeeRecipientsIx wk unb58 p = Some ix" and "\<forall>r \<in> set (ufp_feeRecipients p). encodable unb58 r"
    and "length (ufp_feeRecipients p) \<le> 8"
  obtains slug body where "encodeFeeRecipientArray unb58 (ufp_feeRecipients p) = Some body"
    and "length slug = 16" and "length body = length (ufp_feeRecipients p) * 48"
    and "tl (ix_data ix) = slug @ [word_of_nat (length (ufp_feeRecipients p))] @ body"
proof -
  let ?rs = "ufp_feeRecipients p"
  obtain slug body where b: "asSlug (ufp_slug p) = Some slug" "encodeFeeRecipientArray unb58 ?rs = Some body"
    and c: "ufp_feeRecipientCount p = int (length ?rs)"
    and ix: "ix_data ix = copy_to body 18 (set_byte (ufp_feeRecipientCount p) 17
      (copy_to slug 1 ((replicate (1 + 16 + 1 + length body) 0)[0 := DISC_UPDATE_FEE_RECIPIENTS])))"
    using assms(1) by (auto simp: buildUpdateFeeRecipientsIx_def Option.bind_eq_Some_conv Let_def split: if_splits)
  have slug: "length slug = 16"
    using b(1) by (auto simp: asSlug_def js_simps split: if_splits)
  have "\<forall>x \<in> set (List.map (rs_of unb58) ?rs). wf_fee_recipient x" using assms(2) wf_rs_of by auto
  from length_fee_images [OF this] have body: "length body = length ?rs * 48"
    using encode_array_image [OF assms(2)] b(2) by simp
  have z: "replicate (1 + 16 + 1 + length body) (0 :: byte) = [0] @ replicate 16 0 @ [0] @ replicate (length body) 0"
    by (simp add: replicate_add numeral_eq_Suc)
  have "tl (ix_data ix) = slug @ [word_of_nat (length ?rs)] @ body"
    unfolding ix z using slug by (simp add: c copy_to_def set_byte_def list_update_append)
  with that b(2) slug body show thesis by blast
qed

text \<open>
  What the pre-flight check does not promise. For an \<open>update_fee_recipients\<close> instruction whose
  array passed \<open>validateFeeRecipients\<close>, the program's fee checks on the built bytes succeed exactly
  when, besides, some Treasury entry has a nonzero share and no other entry is paid into the
  Treasury vault; the client checks neither, so a set without a Treasury passes it and is refused on
  chain.
\<close>

theorem update_fees_preflight_gap:
  assumes "buildUpdateFeeRecipientsIx wk unb58 p = Some ix"
    and "validateFeeRecipients (ufp_feeRecipients p) (ufp_feeRecipientCount p) maxTotal = None"
    and "\<forall>r \<in> set (ufp_feeRecipients p). encodable unb58 r \<and> canonical b58 unb58 r" and "maxTotal \<le> 10000"
  shows "(\<exists>es. update_fees_check (tl (ix_data ix)) maxTotal vault = Inr es) \<longleftrightarrow>
     (\<exists>r \<in> set (ufp_feeRecipients p). fr_kind r = KIND_Treasury \<and> fr_bps r \<noteq> 0)
     \<and> (\<forall>r \<in> set (ufp_feeRecipients p). fr_kind r \<noteq> KIND_Treasury \<longrightarrow> key_of unb58 r \<noteq> vault)"
proof -
  let ?rs = "ufp_feeRecipients p" and ?es = "List.map (prog_of unb58) (ufp_feeRecipients p)"
  note pf = preflight_facts [OF assms(2)]
  have enc: "\<forall>r \<in> set ?rs. encodable unb58 r" using assms(3) by blast
  obtain slug body where b: "encodeFeeRecipientArray unb58 ?rs = Some body" "length slug = 16"
    "length body = length ?rs * 48" "tl (ix_data ix) = slug @ [word_of_nat (length ?rs)] @ body"
    using update_fees_data [OF assms(1) enc pf(4)] by blast
  have "parse_and_validate body (length ?rs) maxTotal = Inr (?es, sum_list (List.map fr_bps ?rs))"
    using preflight_matches_program_lemma [OF assms(3) b(1) assms(4)] assms(2) pf(3) by simp
  moreover have "u8 16 (tl (ix_data ix)) = int (length ?rs)"
    using b(2) pf(4) by (simp add: b(4) u8_def nth_append unsigned_of_nat take_bit_eq_mod)
  moreover have "distinct (List.map (key_of unb58) ?rs)"
  proof -
    have "List.map fr_destination ?rs = List.map b58 (List.map (key_of unb58) ?rs)"
      using assms(3) by (simp add: canonical_def)
    then have "distinct (List.map b58 (List.map (key_of unb58) ?rs))" using pf(1) by metis
    then show ?thesis by (simp only: distinct_map)
  qed
  moreover have "length (filter (\<lambda>e. pf_kind e = 0) ?es) \<le> 1"
    using pf(2) by (simp add: filter_map comp_def)
  ultimately show ?thesis
    using post_substitution [of ?es vault] pf(4) b(2-4)
    by (auto simp: update_fees_check_def Let_def js_simps comp_def split: option.splits)
qed

definition no_treasury :: update_fees_params where
  "no_treasury = \<lparr>ufp_programId = None, ufp_authority = replicate 32 1, ufp_protocolConfig = replicate 32 2,
     ufp_treasury = replicate 32 3, ufp_endpointConfig = replicate 32 4, ufp_slug = ascii ''fal'',
     ufp_feeRecipients = [\<lparr>fr_kind = KIND_AffiliatePda, fr_destination = text_b58 (replicate 32 5), fr_bps = 500\<rparr>],
     ufp_feeRecipientCount = 1, ufp_affiliateAtas = None\<rparr>"

theorem update_fees_preflight_gap_witness:
  "validateFeeRecipients (ufp_feeRecipients no_treasury) 1 3000 = None
   \<and> map_option (\<lambda>ix. \<exists>es. update_fees_check (tl (ix_data ix)) 3000 (replicate 32 9) = Inr es)
        (buildUpdateFeeRecipientsIx example_keys text_unb58 no_treasury) = Some False"
proof -
  have v: "validateFeeRecipients (ufp_feeRecipients no_treasury) (ufp_feeRecipientCount no_treasury) 3000 = None"
    by (simp add: no_treasury_def validateFeeRecipients_def js_simps)
  have k: "text_unb58 (text_b58 (replicate 32 5)) = Some (replicate 32 5)"
    by (rule base58_decode [OF text_base58_ok]) simp
  then have e: "\<forall>r \<in> set (ufp_feeRecipients no_treasury). encodable text_unb58 r \<and> canonical text_b58 text_unb58 r"
    by (simp add: no_treasury_def encodable_def canonical_def key_of_def js_simps)
  then obtain body where b: "encodeFeeRecipientArray text_unb58 (ufp_feeRecipients no_treasury) = Some body"
    using encode_array_image [of "ufp_feeRecipients no_treasury" text_unb58] by auto
  have "countAffiliateAtas (ufp_feeRecipients no_treasury) = 0"
    by (simp add: countAffiliateAtas_def no_treasury_def js_simps)
  then have built: "\<exists>ix. buildUpdateFeeRecipientsIx example_keys text_unb58 no_treasury = Some ix"
    using b by (simp add: buildUpdateFeeRecipientsIx_def affiliate_guard_def asSlug_def ascii_def js_simps Let_def)
      (simp add: no_treasury_def ascii_def)
  have "\<not> (\<exists>es. update_fees_check (tl (ix_data ix)) 3000 (replicate 32 9) = Inr es)"
    if "buildUpdateFeeRecipientsIx example_keys text_unb58 no_treasury = Some ix" for ix
    using update_fees_preflight_gap [OF that v e, of "replicate 32 9"] by (simp add: no_treasury_def js_simps)
  with built have "map_option (\<lambda>ix. \<exists>es. update_fees_check (tl (ix_data ix)) 3000 (replicate 32 9) = Inr es)
        (buildUpdateFeeRecipientsIx example_keys text_unb58 no_treasury) = Some False" by auto
  moreover have "validateFeeRecipients (ufp_feeRecipients no_treasury) 1 3000 = None"
    using v by (simp add: no_treasury_def)
  ultimately show ?thesis by blast
qed

end
