(* ===== verification/SettlerQueue.thy ===== *)
theory SettlerQueue
  imports Prelude
begin

text \<open>
  The settler's queue consumers (\<open>packages/settler/src/consumer\<close>): the in-memory, the Pub/Sub and
  the Redis Streams backend behind one interface. A message is its id and its parsed payload; the
  \<open>ack\<close> and \<open>nack\<close> closures become operations on the consumer with the message's id. Calls to the
  brokers are recorded in the state, their answers are inputs.
\<close>

record settle_message =
  sm_id :: string
  sm_data :: payload

section \<open>In-memory backend\<close>

record memory_queue =
  mq_queue :: "settle_message list"
  mq_seq :: nat

definition mem_enqueue :: "payload \<Rightarrow> memory_queue \<Rightarrow> memory_queue \<times> settle_message" where
  "mem_enqueue data s =
     (let seq = mq_seq s + 1;
          m = \<lparr>sm_id = ''mem-'' @ dec_digits seq, sm_data = data\<rparr>
      in (\<lparr>mq_queue = mq_queue s @ [m], mq_seq = seq\<rparr>, m))"

definition mem_drain :: "memory_queue \<Rightarrow> memory_queue \<times> settle_message list" where
  "mem_drain s = (s\<lparr>mq_queue := []\<rparr>, mq_queue s)"

definition mem_nack :: "settle_message list \<Rightarrow> memory_queue \<Rightarrow> memory_queue" where
  "mem_nack ms s = foldl (\<lambda>s m. fst (mem_enqueue (sm_data m) s)) s ms"

section \<open>Pub/Sub backend\<close>

record pubsub_queue =
  pq_queue :: "settle_message list"
  pq_acked :: "string list"
  pq_nacked :: "string list"

text \<open>A delivery: \<open>None\<close> is a body that is not JSON, whose parse throws in the listener.\<close>

definition pubsub_on_message :: "string \<Rightarrow> payload option \<Rightarrow> pubsub_queue \<Rightarrow> string + pubsub_queue" where
  "pubsub_on_message i parsed s =
     (case parsed of None \<Rightarrow> Inl ''SyntaxError''
      | Some d \<Rightarrow> Inr (s\<lparr>pq_queue := pq_queue s @ [\<lparr>sm_id = i, sm_data = d\<rparr>]\<rparr>))"

definition pubsub_drain :: "pubsub_queue \<Rightarrow> pubsub_queue \<times> settle_message list" where
  "pubsub_drain s = (s\<lparr>pq_queue := []\<rparr>, pq_queue s)"

definition pubsub_ack :: "settle_message list \<Rightarrow> pubsub_queue \<Rightarrow> pubsub_queue" where
  "pubsub_ack ms s = s\<lparr>pq_acked := pq_acked s @ map sm_id ms\<rparr>"

definition pubsub_nack :: "settle_message list \<Rightarrow> pubsub_queue \<Rightarrow> pubsub_queue" where
  "pubsub_nack ms s = s\<lparr>pq_nacked := pq_nacked s @ map sm_id ms\<rparr>"

section \<open>Redis Streams backend\<close>

definition MAX_DELIVERY_ATTEMPTS :: int where "MAX_DELIVERY_ATTEMPTS = 10"

record redis_queue =
  rq_queue :: "settle_message list"
  rq_xack :: "string list"
  rq_dlq :: "(string \<times> string) list"
  rq_running :: bool
  rq_reading :: bool

type_synonym stream_entry = "string \<times> (string \<times> string) list"

text \<open>The \<open>event\<close> field of an entry: the first pair of that name; an empty value counts as missing.\<close>

fun event_field :: "(string \<times> string) list \<Rightarrow> string" where
  "event_field [] = []"
| "event_field ((k, v) # fs) = (if k = ''event'' then v else event_field fs)"

text \<open>
  \<open>parse\<close> is \<open>JSON.parse\<close> to an object; malformed entries are acknowledged and dropped. The second
  component says whether the enqueue callback threw on the new message (\<open>throws\<close>).
\<close>

definition enqueueEntry ::
    "(string \<Rightarrow> payload option) \<Rightarrow> (settle_message \<Rightarrow> bool) \<Rightarrow> stream_entry \<Rightarrow> redis_queue \<Rightarrow> redis_queue \<times> bool" where
  "enqueueEntry parse throws entry s =
     (case entry of (i, fs) \<Rightarrow>
        let payload = event_field fs in
        if payload = [] then (s\<lparr>rq_xack := rq_xack s @ [i]\<rparr>, False)
        else case parse payload of
            None \<Rightarrow> (s\<lparr>rq_xack := rq_xack s @ [i]\<rparr>, False)
          | Some d \<Rightarrow> let m = \<lparr>sm_id = i, sm_data = d\<rparr> in (s\<lparr>rq_queue := rq_queue s @ [m]\<rparr>, throws m))"

text \<open>The loops over a reply's entries sit in a \<open>try\<close>: the first throwing callback ends them.\<close>

fun enqueue_all ::
    "(string \<Rightarrow> payload option) \<Rightarrow> (settle_message \<Rightarrow> bool) \<Rightarrow> stream_entry list \<Rightarrow> redis_queue \<Rightarrow> redis_queue" where
  "enqueue_all parse throws [] s = s"
| "enqueue_all parse throws (e # es) s =
     (case enqueueEntry parse throws e s of (s', t) \<Rightarrow> if t then s' else enqueue_all parse throws es s')"

text \<open>
  A nack asks \<open>XPENDING\<close> for the delivery count (\<open>Inr None\<close>: no such pending entry; \<open>Inl\<close> when it
  throws); at the limit the entry is added to the dead-letter stream and acknowledged, below it
  nothing happens. The last two arguments are the errors of those two calls, if any.
\<close>

definition handleNack ::
    "string \<Rightarrow> string \<Rightarrow> string + int option \<Rightarrow> string option \<Rightarrow> string option \<Rightarrow> redis_queue \<Rightarrow> redis_queue" where
  "handleNack i payload pending xaddError xackError s =
     (case pending of Inl e \<Rightarrow> s
      | Inr cnt \<Rightarrow>
          let deliveryCount = (case cnt of None \<Rightarrow> 1 | Some n \<Rightarrow> n) in
          if deliveryCount \<ge> MAX_DELIVERY_ATTEMPTS then
            (case xaddError of Some e \<Rightarrow> s
             | None \<Rightarrow>
                 let s' = s\<lparr>rq_dlq := rq_dlq s @ [(i, payload)]\<rparr> in
                 case xackError of Some e \<Rightarrow> s' | None \<Rightarrow> s'\<lparr>rq_xack := rq_xack s' @ [i]\<rparr>)
          else s)"

text \<open>
  The consumer's life. \<open>RInit\<close>: \<open>XGROUP CREATE\<close> (its error, if any; \<open>BUSYGROUP\<close> is ignored), then the
  entries \<open>XAUTOCLAIM\<close> hands over (\<open>Inl\<close> when it throws), then the poll loop starts. \<open>RPoll\<close>: the
  answer of the outstanding \<open>XREADGROUP >\<close>; the loop reads again while \<open>running\<close>, so one answer may
  still arrive after \<open>destroy\<close>. A nack runs \<open>handleNack\<close>.
\<close>

datatype redis_event =
    RInit "string option" "string + stream_entry list"
  | RPoll "string + stream_entry list"
  | RAck string
  | RNack string string "string + int option" "string option" "string option"
  | RDestroy

definition recoverStalePending ::
    "(string \<Rightarrow> payload option) \<Rightarrow> (settle_message \<Rightarrow> bool) \<Rightarrow> string + stream_entry list \<Rightarrow> redis_queue \<Rightarrow> redis_queue" where
  "recoverStalePending parse throws claimed s =
     (case claimed of Inl e \<Rightarrow> s | Inr es \<Rightarrow> enqueue_all parse throws es s)"

definition redis_init ::
    "(string \<Rightarrow> payload option) \<Rightarrow> (settle_message \<Rightarrow> bool) \<Rightarrow> string option \<Rightarrow> string + stream_entry list \<Rightarrow> redis_queue \<Rightarrow> string + redis_queue" where
  "redis_init parse throws created claimed s =
     (case created of
        Some e \<Rightarrow> if has_substring ''BUSYGROUP'' e
          then Inr ((recoverStalePending parse throws claimed s)\<lparr>rq_running := True, rq_reading := True\<rparr>)
          else Inl e
      | None \<Rightarrow> Inr ((recoverStalePending parse throws claimed s)\<lparr>rq_running := True, rq_reading := True\<rparr>))"

definition poll_answer ::
    "(string \<Rightarrow> payload option) \<Rightarrow> (settle_message \<Rightarrow> bool) \<Rightarrow> string + stream_entry list \<Rightarrow> redis_queue \<Rightarrow> redis_queue" where
  "poll_answer parse throws result s =
     (if \<not> rq_reading s then s
      else let s' = (case result of Inl e \<Rightarrow> s | Inr es \<Rightarrow> enqueue_all parse throws es s)
           in s'\<lparr>rq_reading := rq_running s'\<rparr>)"

fun redis_step ::
    "(string \<Rightarrow> payload option) \<Rightarrow> (settle_message \<Rightarrow> bool) \<Rightarrow> redis_queue \<Rightarrow> redis_event \<Rightarrow> redis_queue" where
  "redis_step parse throws s (RInit created claimed) =
     (case redis_init parse throws created claimed s of Inl e \<Rightarrow> s | Inr s' \<Rightarrow> s')"
| "redis_step parse throws s (RPoll result) = poll_answer parse throws result s"
| "redis_step parse throws s (RAck i) = s\<lparr>rq_xack := rq_xack s @ [i]\<rparr>"
| "redis_step parse throws s (RNack i payload pending xadd xack) = handleNack i payload pending xadd xack s"
| "redis_step parse throws s RDestroy = s\<lparr>rq_running := False\<rparr>"

definition redis_run ::
    "(string \<Rightarrow> payload option) \<Rightarrow> (settle_message \<Rightarrow> bool) \<Rightarrow> redis_queue \<Rightarrow> redis_event list \<Rightarrow> redis_queue" where
  "redis_run parse throws s evs = foldl (redis_step parse throws) s evs"

definition redis_drain :: "redis_queue \<Rightarrow> redis_queue \<times> settle_message list" where
  "redis_drain s = (s\<lparr>rq_queue := []\<rparr>, rq_queue s)"

section \<open>The interface\<close>

text \<open>
  What the settler relies on: an accepted delivery goes to the tail of the queue, and \<open>drain\<close>
  hands over the whole queue in that order and leaves it empty.
\<close>

locale queue_consumer =
  fixes enqueue :: "settle_message \<Rightarrow> 's \<Rightarrow> 's"
    and drain :: "'s \<Rightarrow> 's \<times> settle_message list"
    and queued :: "'s \<Rightarrow> settle_message list"
  assumes enqueue_tail: "queued (enqueue m s) = queued s @ [m]"
    and drain_all: "snd (drain s) = queued s"
    and drain_empties: "queued (fst (drain s)) = []"
begin

lemma enqueue_list: "queued (foldl (\<lambda>s m. enqueue m s) s ms) = queued s @ ms"
  by (induction ms arbitrary: s) (auto simp: enqueue_tail)

lemma drain_in_order:
  "snd (drain (foldl (\<lambda>s m. enqueue m s) (fst (drain s)) ms)) = ms"
  by (simp add: drain_all enqueue_list drain_empties)

end

definition pubsub_deliver :: "settle_message \<Rightarrow> pubsub_queue \<Rightarrow> pubsub_queue" where
  "pubsub_deliver m s = (case pubsub_on_message (sm_id m) (Some (sm_data m)) s of Inl e \<Rightarrow> s | Inr s' \<Rightarrow> s')"

interpretation pubsub_q: queue_consumer pubsub_deliver pubsub_drain pq_queue
  by unfold_locales (auto simp: pubsub_deliver_def pubsub_on_message_def pubsub_drain_def)

interpretation redis_q: queue_consumer
    "\<lambda>m s. fst (enqueueEntry (\<lambda>_. Some (sm_data m)) (\<lambda>_. False) (sm_id m, [(''event'', ''x'')]) s)" redis_drain rq_queue
  by unfold_locales (auto simp: enqueueEntry_def redis_drain_def Let_def)

lemma mem_enqueue_tail: "mq_queue (fst (mem_enqueue d s)) = mq_queue s @ [snd (mem_enqueue d s)]"
  by (simp add: mem_enqueue_def Let_def)

section \<open>Lemmas\<close>

definition queued_ids :: "redis_queue \<Rightarrow> string list" where
  "queued_ids s = map sm_id (rq_queue s)"

lemma enqueueEntry_ids:
  "count_list (queued_ids (fst (enqueueEntry parse throws (j, fs) s))) i \<le>
     count_list (queued_ids s) i + (if j = i then 1 else 0)"
  by (auto simp: enqueueEntry_def queued_ids_def Let_def split: option.split)

lemma enqueue_all_other:
  "i \<notin> fst ` set es \<Longrightarrow>
     count_list (queued_ids (enqueue_all parse throws es s)) i \<le> count_list (queued_ids s) i"
proof (induction es arbitrary: s)
  case (Cons e es)
  obtain j fs where e: "e = (j, fs)" by force
  obtain s' t where s': "enqueueEntry parse throws e s = (s', t)" by force
  have le: "count_list (queued_ids s') i \<le> count_list (queued_ids s) i"
    using enqueueEntry_ids [of parse throws j fs s i] Cons.prems s' e by (auto split: if_splits)
  have "count_list (queued_ids (enqueue_all parse throws es s')) i \<le> count_list (queued_ids s') i"
    using Cons.IH [of s'] Cons.prems by simp
  with le s' show ?case by simp
qed simp

lemma handleNack_queue [simp]: "rq_queue (handleNack i p pend xe xk s) = rq_queue s"
  by (auto simp: handleNack_def Let_def split: sum.split option.split)

text \<open>The entries an event hands to the consumer.\<close>

fun delivered_ids :: "redis_event \<Rightarrow> string set" where
  "delivered_ids (RInit created (Inr es)) = fst ` set es"
| "delivered_ids (RPoll (Inr es)) = fst ` set es"
| "delivered_ids _ = {}"

lemma recover_other:
  "(\<And>es. claimed = Inr es \<Longrightarrow> i \<notin> fst ` set es) \<Longrightarrow>
     count_list (queued_ids (recoverStalePending parse throws claimed s)) i \<le> count_list (queued_ids s) i"
  using enqueue_all_other by (cases claimed) (auto simp: recoverStalePending_def)

lemma poll_other:
  "(\<And>es. result = Inr es \<Longrightarrow> i \<notin> fst ` set es) \<Longrightarrow>
     count_list (queued_ids (poll_answer parse throws result s)) i \<le> count_list (queued_ids s) i"
  using enqueue_all_other by (cases result) (auto simp: poll_answer_def queued_ids_def Let_def)

lemma redis_step_other:
  assumes "i \<notin> delivered_ids ev"
  shows "count_list (queued_ids (redis_step parse throws s ev)) i \<le> count_list (queued_ids s) i"
proof (cases ev)
  case (RInit created claimed)
  have "count_list (queued_ids (recoverStalePending parse throws claimed s)) i \<le> count_list (queued_ids s) i"
    by (rule recover_other) (use assms RInit in auto)
  then show ?thesis by (auto simp: RInit redis_init_def queued_ids_def split: option.split)
next
  case (RPoll r)
  have "count_list (queued_ids (poll_answer parse throws r s)) i \<le> count_list (queued_ids s) i"
    by (rule poll_other) (use assms RPoll in auto)
  then show ?thesis by (simp add: RPoll)
qed (simp_all add: queued_ids_def)

text \<open>
  The \<open>XREADGROUP >\<close> contract: a poll only returns entries no consumer of the group was given
  before. \<open>seen\<close> holds the entries delivered so far.
\<close>

fun fresh_polls :: "string list \<Rightarrow> redis_event list \<Rightarrow> bool" where
  "fresh_polls seen [] = True"
| "fresh_polls seen (RPoll (Inr es) # evs) =
     ((\<forall>e \<in> set es. fst e \<notin> set seen) \<and> fresh_polls (map fst es @ seen) evs)"
| "fresh_polls seen (RInit created (Inr es) # evs) = fresh_polls (map fst es @ seen) evs"
| "fresh_polls seen (ev # evs) = fresh_polls seen evs"

fun is_restart :: "redis_event \<Rightarrow> bool" where
  "is_restart (RInit _ _) = True"
| "is_restart _ = False"

lemma fresh_not_delivered:
  "fresh_polls seen evs \<Longrightarrow> i \<in> set seen \<Longrightarrow> \<not> list_ex is_restart evs \<Longrightarrow> \<forall>ev \<in> set evs. i \<notin> delivered_ids ev"
  by (induction seen evs rule: fresh_polls.induct) auto

lemma redis_run_other:
  "\<forall>ev \<in> set evs. i \<notin> delivered_ids ev \<Longrightarrow>
     count_list (queued_ids (redis_run parse throws s evs)) i \<le> count_list (queued_ids s) i"
  unfolding redis_run_def
proof (induction evs arbitrary: s)
  case (Cons ev evs)
  from redis_step_other [of i ev parse throws s] Cons.prems
  have "count_list (queued_ids (redis_step parse throws s ev)) i \<le> count_list (queued_ids s) i" by simp
  with Cons.IH [of "redis_step parse throws s ev"] Cons.prems show ?case by simp
qed simp

text \<open>
  A callback that throws on one entry (the batcher does, on a premium \<open>BigInt\<close> rejects) makes the
  poll skip the rest of the reply, which then stays pending undelivered.
\<close>

lemma poll_after_throw:
  assumes "event_field fs \<noteq> []" and "parse (event_field fs) = Some d" and "throws \<lparr>sm_id = i, sm_data = d\<rparr>"
  shows "enqueue_all parse throws ((i, fs) # es) s = s\<lparr>rq_queue := rq_queue s @ [\<lparr>sm_id = i, sm_data = d\<rparr>]\<rparr>"
  using assms by (simp add: enqueueEntry_def Let_def)

section \<open>Properties\<close>

text \<open>
  A nacked stream entry is not retried by the running consumer. Once Redis has delivered an
  entry, no sequence of polls, acks and nacks (its own included) puts it in the queue again until
  the process restarts and reclaims: the poll only reads new entries and the nack handler leaves
  the entry pending.
\<close>

theorem redis_nack_waits_for_restart:
  assumes "fresh_polls seen evs" and "i \<in> set seen" and "\<not> list_ex is_restart evs"
  shows "count_list (map sm_id (rq_queue (redis_run parse throws s (RNack i payload pending xadd xack # evs)))) i \<le>
     count_list (map sm_id (rq_queue s)) i"
proof -
  have "count_list (queued_ids (redis_run parse throws (redis_step parse throws s (RNack i payload pending xadd xack)) evs)) i
      \<le> count_list (queued_ids (redis_step parse throws s (RNack i payload pending xadd xack))) i"
    by (rule redis_run_other [OF fresh_not_delivered [OF assms]])
  then show ?thesis by (simp add: redis_run_def queued_ids_def)
qed

theorem redis_nack_waits_for_restart_witness:
  "count_list (map sm_id (rq_queue (redis_run (\<lambda>_. Some []) (\<lambda>_. False)
     \<lparr>rq_queue = [], rq_xack = [], rq_dlq = [], rq_running = True, rq_reading = True\<rparr>
     [RNack ''1-0'' ''{}'' (Inr (Some 3)) None None, RPoll (Inr [(''2-0'', [(''event'', ''{}'')])])]))) ''1-0'' \<le> 0"
  using redis_nack_waits_for_restart [of "[''1-0'']" "[RPoll (Inr [(''2-0'', [(''event'', ''{}'')])])]" "''1-0''"
      "\<lambda>_. Some []" "\<lambda>_. False" "\<lparr>rq_queue = [], rq_xack = [], rq_dlq = [], rq_running = True, rq_reading = True\<rparr>" "''{}''" "Inr (Some 3)" None None]
  by simp

end
