(* ===== verification/Batcher.thy ===== *)
theory Batcher
  imports SettlerQueue "HOL-Library.Multiset"
begin

text \<open>
  The batcher of \<open>packages/settler/src/batcher/batcher.service.ts\<close>: it buffers messages, drops
  zero-premium ones, and flushes on a timer or when three are pending, partitioned by network and
  slug. An operation returns the new state and what it did: messages acknowledged, batches handed
  to the flush callback. The group key of the code is the JSON text of a pair of strings; here it
  is the pair.
\<close>

definition MAX_BATCH_SIZE :: nat where "MAX_BATCH_SIZE = 3"
definition FLUSH_INTERVAL_MS :: int where "FLUSH_INTERVAL_MS = 5000"

type_synonym settle_batch = "settle_message list"

record batcher =
  bt_pending :: "settle_message list"
  bt_timer :: bool
  bt_onFlush :: bool

datatype batcher_action = AckMessage settle_message | FlushBatch settle_batch

definition batcher_init :: batcher where
  "batcher_init = \<lparr>bt_pending = [], bt_timer = False, bt_onFlush = False\<rparr>"

definition setFlushCallback :: "batcher \<Rightarrow> batcher" where
  "setFlushCallback s = s\<lparr>bt_onFlush := True\<rparr>"

definition message_network :: "settle_message \<Rightarrow> string" where
  "message_network m = (case get_prop (sm_data m) ''network'' of Some (JStr n) \<Rightarrow> n | _ \<Rightarrow> ''solana-devnet'')"

definition message_slug :: "settle_message \<Rightarrow> string" where
  "message_slug m = (case get_prop (sm_data m) ''endpointSlug'' of Some (JStr s) \<Rightarrow> s | _ \<Rightarrow> [])"

definition group_key :: "settle_message \<Rightarrow> string \<times> string" where
  "group_key m = (message_network m, message_slug m)"

text \<open>The groups in the order their keys first appear, each in arrival order.\<close>

definition add_to_group ::
    "settle_message \<Rightarrow> ((string \<times> string) \<times> settle_message list) list \<Rightarrow> ((string \<times> string) \<times> settle_message list) list" where
  "add_to_group m groups =
     (let k = group_key m in
      AList.update k ((case map_of groups k of None \<Rightarrow> [] | Some g \<Rightarrow> g) @ [m]) groups)"

definition partition_batches :: "settle_message list \<Rightarrow> settle_batch list" where
  "partition_batches ms = map snd (foldl (\<lambda>g m. add_to_group m g) [] ms)"

definition flush :: "batcher \<Rightarrow> batcher \<times> batcher_action list" where
  "flush s =
     (let s' = s\<lparr>bt_timer := False\<rparr> in
      if bt_pending s = [] then (s', [])
      else let all = bt_pending s in
        (s'\<lparr>bt_pending := []\<rparr>,
         if bt_onFlush s then map FlushBatch (partition_batches all) else []))"

text \<open>\<open>push\<close>: \<open>Inl\<close> is the error \<open>BigInt\<close> throws on a premium that does not parse.\<close>

definition message_premium :: "settle_message \<Rightarrow> int option" where
  "message_premium m = bigint_of_json (Some (case get_prop (sm_data m) ''premiumLamports'' of
     None \<Rightarrow> JStr ''0'' | Some JNull \<Rightarrow> JStr ''0'' | Some v \<Rightarrow> v))"

definition push :: "settle_message \<Rightarrow> batcher \<Rightarrow> string + batcher \<times> batcher_action list" where
  "push m s =
     (case message_premium m of None \<Rightarrow> Inl ''SyntaxError''
      | Some p \<Rightarrow>
          if p = 0 then Inr (s, [AckMessage m])
          else let pending = bt_pending s @ [m];
                   s' = s\<lparr>bt_pending := pending, bt_timer := (if length pending = 1 then True else bt_timer s)\<rparr>
               in if length pending \<ge> MAX_BATCH_SIZE then Inr (flush (s'\<lparr>bt_timer := False\<rparr>))
                  else Inr (s', []))"

datatype batcher_event = Arrive settle_message | TimerFires | FlushNow

text \<open>A step; a message whose premium does not parse changes nothing (the error is the caller's).\<close>

fun batcher_step :: "batcher \<Rightarrow> batcher_event \<Rightarrow> batcher \<times> batcher_action list" where
  "batcher_step s (Arrive m) = (case push m s of Inl e \<Rightarrow> (s, []) | Inr r \<Rightarrow> r)"
| "batcher_step s TimerFires = (if bt_timer s then flush s else (s, []))"
| "batcher_step s FlushNow = flush s"

fun batcher_run :: "batcher \<Rightarrow> batcher_event list \<Rightarrow> batcher \<times> batcher_action list" where
  "batcher_run s [] = (s, [])"
| "batcher_run s (ev # evs) =
     (case batcher_step s ev of (s', as) \<Rightarrow>
      case batcher_run s' evs of (s'', as') \<Rightarrow> (s'', as @ as'))"

section \<open>Partitioning\<close>

definition groups_ok :: "((string \<times> string) \<times> settle_message list) list \<Rightarrow> bool" where
  "groups_ok g \<longleftrightarrow> distinct (map fst g) \<and> (\<forall>(k, ms) \<in> set g. ms \<noteq> [] \<and> (\<forall>m \<in> set ms. group_key m = k))"

definition group_total :: "((string \<times> string) \<times> settle_message list) list \<Rightarrow> settle_message multiset" where
  "group_total g = sum_list (map (\<lambda>p. mset (snd p)) g)"

lemma update_total:
  assumes "distinct (map fst g)"
  shows "group_total (AList.update k ((case map_of g k of None \<Rightarrow> [] | Some x \<Rightarrow> x) @ [m]) g) = add_mset m (group_total g)"
  using assms
proof (induction g)
  case (Cons kg g)
  show ?case
  proof (cases "fst kg = k")
    case True
    then show ?thesis by (cases kg) (auto simp: group_total_def)
  next
    case False
    with Cons show ?thesis by (cases kg) (auto simp: group_total_def)
  qed
qed (simp add: group_total_def)

lemma set_update: "set (AList.update k v g) \<subseteq> insert (k, v) (set g)"
  by (induction g) auto

lemma groups_ok_add:
  assumes "groups_ok g"
  shows "groups_ok (add_to_group m g)"
proof -
  let ?k = "group_key m"
  define old where "old = (case map_of g ?k of None \<Rightarrow> [] | Some x \<Rightarrow> x)"
  have old: "\<forall>x \<in> set old. group_key x = ?k"
  proof (cases "map_of g ?k")
    case (Some x)
    then have "(?k, x) \<in> set g" by (rule map_of_SomeD)
    then show ?thesis using Some assms by (auto simp: groups_ok_def old_def)
  qed (simp add: old_def)
  have "ms \<noteq> [] \<and> (\<forall>x \<in> set ms. group_key x = k)" if kms: "(k, ms) \<in> set (add_to_group m g)" for k ms
  proof -
    from kms have "(k, ms) \<in> set (AList.update ?k (old @ [m]) g)"
      unfolding add_to_group_def Let_def old_def .
    then have "(k, ms) \<in> insert (?k, old @ [m]) (set g)" by (rule set_mp [OF set_update])
    then have "(k, ms) = (?k, old @ [m]) \<or> (k, ms) \<in> set g" by blast
    then show ?thesis
    proof
      assume "(k, ms) = (?k, old @ [m])"
      then have k: "k = ?k" and ms: "ms \<noteq> []" "\<And>x. x \<in> set ms \<Longrightarrow> x \<in> set old \<or> x = m" by auto
      have "group_key x = k" if "x \<in> set ms" for x
        using ms(2) [OF that] old k by blast
      with ms(1) show ?thesis by blast
    next
      assume "(k, ms) \<in> set g"
      then show ?thesis using assms unfolding groups_ok_def by fast
    qed
  qed
  moreover have "distinct (map fst (add_to_group m g))"
    using assms by (simp add: groups_ok_def add_to_group_def distinct_update Let_def)
  ultimately show ?thesis unfolding groups_ok_def by blast
qed

lemma groups_fold:
  assumes "groups_ok g"
  shows "groups_ok (foldl (\<lambda>g m. add_to_group m g) g ms) \<and>
     group_total (foldl (\<lambda>g m. add_to_group m g) g ms) = group_total g + mset ms"
  using assms
proof (induction ms arbitrary: g)
  case (Cons m ms)
  have "distinct (map fst g)" using Cons.prems by (simp add: groups_ok_def)
  then have "group_total (add_to_group m g) = add_mset m (group_total g)"
    by (simp add: add_to_group_def update_total Let_def)
  with Cons.IH [OF groups_ok_add [OF Cons.prems, of m]] show ?case by simp
qed simp

lemma groups_ok_Nil [simp]: "groups_ok []"
  by (simp add: groups_ok_def)

lemma partition_total: "sum_list (map mset (partition_batches ms)) = mset ms"
  using groups_fold [OF groups_ok_Nil, of ms]
  by (simp add: partition_batches_def group_total_def comp_def)

lemma member_subset_total: "b \<in> set bs \<Longrightarrow> mset b \<subseteq># sum_list (map mset bs)"
  by (induction bs) (auto intro: subset_mset.order_trans)

definition uniform :: "settle_batch \<Rightarrow> bool" where
  "uniform b \<longleftrightarrow> (\<forall>m \<in> set b. \<forall>m' \<in> set b. group_key m = group_key m')"

lemma partition_uniform:
  assumes "b \<in> set (partition_batches ms)"
  shows "b \<noteq> [] \<and> uniform b \<and> set b \<subseteq> set ms \<and> length b \<le> length ms"
proof -
  obtain k where "(k, b) \<in> set (foldl (\<lambda>g m. add_to_group m g) [] ms)"
    using assms by (auto simp: partition_batches_def)
  then have "b \<noteq> [] \<and> uniform b"
    using groups_fold [OF groups_ok_Nil, of ms] by (auto simp: groups_ok_def uniform_def)
  moreover have "mset b \<subseteq># sum_list (map mset (partition_batches ms))"
    using assms by (rule member_subset_total)
  then have "mset b \<subseteq># mset ms" by (simp add: partition_total)
  ultimately show ?thesis using mset_subset_eqD size_mset_mono by fastforce
qed

section \<open>Lemmas\<close>

text \<open>What a list of actions acknowledged and what it handed to the flush callback.\<close>

definition acked_of :: "batcher_action list \<Rightarrow> settle_message multiset" where
  "acked_of as = sum_list (map (\<lambda>a. case a of AckMessage m \<Rightarrow> {#m#} | FlushBatch _ \<Rightarrow> {#}) as)"

definition flushed_of :: "batcher_action list \<Rightarrow> settle_message multiset" where
  "flushed_of as = sum_list (map (\<lambda>a. case a of AckMessage _ \<Rightarrow> {#} | FlushBatch b \<Rightarrow> mset b) as)"

definition batches_of :: "batcher_action list \<Rightarrow> settle_batch list" where
  "batches_of as = concat (map (\<lambda>a. case a of AckMessage _ \<Rightarrow> [] | FlushBatch b \<Rightarrow> [b]) as)"

lemma actions_append [simp]:
  "acked_of (as @ bs) = acked_of as + acked_of bs" "flushed_of (as @ bs) = flushed_of as + flushed_of bs"
  "batches_of (as @ bs) = batches_of as @ batches_of bs"
  by (simp_all add: acked_of_def flushed_of_def batches_of_def)

lemma actions_Nil [simp]: "acked_of [] = {#}" "flushed_of [] = {#}" "batches_of [] = []"
  by (simp_all add: acked_of_def flushed_of_def batches_of_def)

lemma actions_ack [simp]:
  "acked_of [AckMessage m] = {#m#}" "flushed_of [AckMessage m] = {#}" "batches_of [AckMessage m] = []"
  by (simp_all add: acked_of_def flushed_of_def batches_of_def)

lemma actions_flush [simp]:
  "acked_of (map FlushBatch bs) = {#}" "flushed_of (map FlushBatch bs) = sum_list (map mset bs)"
  "batches_of (map FlushBatch bs) = bs"
  by (induction bs) (simp_all add: acked_of_def flushed_of_def batches_of_def)

text \<open>The buffer invariant: below the limit, no zero premiums, and a timer runs while it is not empty.\<close>

definition batcher_ok :: "batcher \<Rightarrow> bool" where
  "batcher_ok s \<longleftrightarrow> length (bt_pending s) < MAX_BATCH_SIZE \<and> (bt_pending s \<noteq> [] \<longrightarrow> bt_timer s) \<and>
     bt_onFlush s \<and> (\<forall>m \<in> set (bt_pending s). message_premium m \<noteq> None \<and> message_premium m \<noteq> Some 0)"

definition batch_ok :: "settle_batch \<Rightarrow> bool" where
  "batch_ok b \<longleftrightarrow> b \<noteq> [] \<and> length b \<le> MAX_BATCH_SIZE \<and> uniform b \<and>
     (\<forall>m \<in> set b. message_premium m \<noteq> None \<and> message_premium m \<noteq> Some 0)"

lemma flush_facts:
  assumes "bt_onFlush s" "length (bt_pending s) \<le> MAX_BATCH_SIZE"
    and "\<forall>m \<in> set (bt_pending s). message_premium m \<noteq> None \<and> message_premium m \<noteq> Some 0"
    and "flush s = (s', as)"
  shows "batcher_ok s'" "bt_pending s' = []" "\<forall>b \<in> set (batches_of as). batch_ok b"
    "flushed_of as = mset (bt_pending s)" "acked_of as = {#}"
proof -
  show "batcher_ok s'" "bt_pending s' = []" "acked_of as = {#}" "flushed_of as = mset (bt_pending s)"
    using assms(1,4) by (auto simp: flush_def batcher_ok_def Let_def MAX_BATCH_SIZE_def partition_total split: if_splits)
  have "batches_of as = (if bt_pending s = [] then [] else partition_batches (bt_pending s))"
    using assms(1,4) by (auto simp: flush_def Let_def split: if_splits)
  then show "\<forall>b \<in> set (batches_of as). batch_ok b"
    using partition_uniform [of _ "bt_pending s"] assms(2,3) by (fastforce simp: batch_ok_def split: if_splits)
qed

text \<open>The messages an event brings that the batcher accepts.\<close>

fun arrived :: "batcher_event \<Rightarrow> settle_message multiset" where
  "arrived (Arrive m) = (if message_premium m = None then {#} else {#m#})"
| "arrived _ = {#}"

lemma push_zero: "message_premium m = Some 0 \<Longrightarrow> push m s = Inr (s, [AckMessage m])"
  by (simp add: push_def)

lemma push_buffered:
  "message_premium m = Some p \<Longrightarrow> p \<noteq> 0 \<Longrightarrow> length (bt_pending s) + 1 < MAX_BATCH_SIZE \<Longrightarrow>
     push m s = Inr (s\<lparr>bt_pending := bt_pending s @ [m],
       bt_timer := (if bt_pending s = [] then True else bt_timer s)\<rparr>, [])"
  by (simp add: push_def Let_def)

lemma push_full:
  "message_premium m = Some p \<Longrightarrow> p \<noteq> 0 \<Longrightarrow> MAX_BATCH_SIZE \<le> length (bt_pending s) + 1 \<Longrightarrow>
     push m s = Inr (flush (s\<lparr>bt_pending := bt_pending s @ [m], bt_timer := False\<rparr>))"
  by (simp add: push_def Let_def)

lemma batcher_step_facts:
  assumes "batcher_ok s" and "batcher_step s ev = (s', as)"
  shows "batcher_ok s' \<and> (\<forall>b \<in> set (batches_of as). batch_ok b) \<and>
    mset (bt_pending s) + arrived ev = mset (bt_pending s') + acked_of as + flushed_of as \<and>
    (\<forall>m \<in># acked_of as. message_premium m = Some 0)"
proof -
  have pend: "bt_onFlush s" "length (bt_pending s) \<le> MAX_BATCH_SIZE"
    "\<forall>m \<in> set (bt_pending s). message_premium m \<noteq> None \<and> message_premium m \<noteq> Some 0"
    using assms(1) by (auto simp: batcher_ok_def)
  show ?thesis
  proof (cases ev)
    case (Arrive m)
    let ?s = "s\<lparr>bt_pending := bt_pending s @ [m], bt_timer := False\<rparr>"
    show ?thesis
    proof (cases "message_premium m")
      case None
      then show ?thesis using assms Arrive by (simp add: push_def)
    next
      case (Some p)
      consider (zero) "p = 0" | (small) "p \<noteq> 0" "length (bt_pending s) + 1 < MAX_BATCH_SIZE"
        | (full) "p \<noteq> 0" "MAX_BATCH_SIZE \<le> length (bt_pending s) + 1" by linarith
      then show ?thesis
      proof cases
        case zero
        then have "s' = s" "as = [AckMessage m]" using assms(2) Arrive Some by (simp_all add: push_zero)
        then show ?thesis using assms(1) Some zero Arrive by simp
      next
        case small
        from push_buffered [OF Some this]
        have "s' = s\<lparr>bt_pending := bt_pending s @ [m], bt_timer := (if bt_pending s = [] then True else bt_timer s)\<rparr>" "as = []"
          using assms(2) Arrive by simp_all
        then show ?thesis using assms(1) Some small Arrive by (simp add: batcher_ok_def)
      next
        case full
        from push_full [OF Some this] have fl: "flush ?s = (s', as)" using assms(2) Arrive by simp
        have "length (bt_pending ?s) \<le> MAX_BATCH_SIZE" using assms(1) by (simp add: batcher_ok_def)
        from flush_facts [OF _ this _ fl] show ?thesis using pend Some full Arrive by auto
      qed
    qed
  next
    case TimerFires
    then show ?thesis using flush_facts [OF pend, of s' as] assms by (auto split: if_splits)
  next
    case FlushNow
    then show ?thesis using flush_facts [OF pend, of s' as] assms by auto
  qed
qed

lemma batcher_run_facts:
  assumes "batcher_ok s" and "batcher_run s evs = (s', as)"
  shows "batcher_ok s' \<and> (\<forall>b \<in> set (batches_of as). batch_ok b) \<and>
    mset (bt_pending s) + sum_list (map arrived evs) = mset (bt_pending s') + acked_of as + flushed_of as \<and>
    (\<forall>m \<in># acked_of as. message_premium m = Some 0)"
  using assms
proof (induction evs arbitrary: s as)
  case (Cons ev evs)
  obtain s1 as1 where st: "batcher_step s ev = (s1, as1)" by force
  obtain as2 where r: "batcher_run s1 evs = (s', as2)" and as: "as = as1 @ as2"
    using Cons.prems(2) st by (auto split: prod.splits)
  note f = batcher_step_facts [OF Cons.prems(1) st]
  note g = Cons.IH [OF _ r]
  have "mset (bt_pending s) + (arrived ev + sum_list (map arrived evs)) =
      (mset (bt_pending s1) + sum_list (map arrived evs)) + (acked_of as1 + flushed_of as1)"
    using f by (metis add.assoc add.commute)
  also have "\<dots> = mset (bt_pending s') + acked_of as2 + flushed_of as2 + (acked_of as1 + flushed_of as1)"
    using g f by simp
  also have "\<dots> = mset (bt_pending s') + acked_of as + flushed_of as"
    unfolding as actions_append by (simp only: ac_simps)
  finally have "mset (bt_pending s) + sum_list (map arrived (ev # evs)) = mset (bt_pending s') + acked_of as + flushed_of as"
    by simp
  moreover have "batcher_ok s'" "\<forall>m \<in># acked_of as. message_premium m = Some 0" "\<forall>b \<in> set (batches_of as). batch_ok b"
    using f g unfolding as actions_append by auto
  ultimately show ?case by blast
qed simp

section \<open>Properties\<close>

definition batcher_ready :: batcher where
  "batcher_ready = setFlushCallback batcher_init"

text \<open>
  C11: the batcher loses and duplicates nothing. From its start, through any sequence of arrivals,
  timer firings and forced flushes, the accepted messages are exactly those acknowledged as
  zero-premium, those handed over in batches and those still pending, with multiplicity; fewer than
  three are ever pending and a non-empty buffer always has its timer running.
\<close>

theorem batcher_conserves_messages:
  "case batcher_run batcher_ready evs of (s, as) \<Rightarrow>
     sum_list (map arrived evs) = mset (bt_pending s) + acked_of as + flushed_of as \<and>
     length (bt_pending s) < MAX_BATCH_SIZE \<and> (bt_pending s = [] \<or> bt_timer s) \<and>
     {#m \<in># acked_of as. message_premium m \<noteq> Some 0#} = {#}"
proof -
  obtain s as where r: "batcher_run batcher_ready evs = (s, as)" by force
  have "batcher_ok batcher_ready"
    by (simp add: batcher_ok_def batcher_ready_def setFlushCallback_def batcher_init_def MAX_BATCH_SIZE_def)
  note f = batcher_run_facts [OF this r]
  have "bt_pending batcher_ready = []" by (simp add: batcher_ready_def setFlushCallback_def batcher_init_def)
  with f show ?thesis unfolding r by (auto simp: batcher_ok_def filter_mset_eq_conv)
qed

text \<open>
  C12: every emitted batch is settleable as one: not empty, at most three messages, all of one
  network and one endpoint slug, none with a zero or unreadable premium.
\<close>

theorem batches_uniform_and_bounded:
  assumes "b \<in> set (batches_of (snd (batcher_run batcher_ready evs)))"
  shows "b \<noteq> [] \<and> length b \<le> 3 \<and>
    (\<exists>network slug. \<forall>m \<in> set b. message_network m = network \<and> message_slug m = slug) \<and>
    (\<forall>m \<in> set b. \<exists>p. message_premium m = Some p \<and> p \<noteq> 0)"
proof -
  obtain s as where r: "batcher_run batcher_ready evs = (s, as)" by force
  have "batcher_ok batcher_ready"
    by (simp add: batcher_ok_def batcher_ready_def setFlushCallback_def batcher_init_def MAX_BATCH_SIZE_def)
  from batcher_run_facts [OF this r] assms r have ok: "batch_ok b" by simp
  then obtain m0 where m0: "m0 \<in> set b" by (cases b) (auto simp: batch_ok_def)
  with ok have "\<forall>m \<in> set b. message_network m = message_network m0 \<and> message_slug m = message_slug m0"
    unfolding batch_ok_def uniform_def group_key_def by blast
  moreover have "b \<noteq> []" "length b \<le> 3" "\<forall>m \<in> set b. \<exists>p. message_premium m = Some p \<and> p \<noteq> 0"
    using ok by (auto simp: batch_ok_def MAX_BATCH_SIZE_def)
  ultimately show ?thesis by blast
qed

theorem batches_uniform_and_bounded_witness:
  "let m = \<lparr>sm_id = ''1'', sm_data = [(''premiumLamports'', JNum 5), (''endpointSlug'', JStr ''fal'')]\<rparr>
   in batches_of (snd (batcher_run batcher_ready [Arrive m, TimerFires])) = [[m]] \<and> length [m] \<le> 3"
proof -
  let ?m = "\<lparr>sm_id = ''1'', sm_data = [(''premiumLamports'', JNum 5), (''endpointSlug'', JStr ''fal'')]\<rparr>"
  have "batches_of (snd (batcher_run batcher_ready [Arrive ?m, TimerFires])) = [[?m]]"
    by (simp add: batcher_ready_def setFlushCallback_def batcher_init_def push_def message_premium_def get_prop_def
        MAX_BATCH_SIZE_def flush_def partition_batches_def add_to_group_def Let_def batches_of_def)
  with batches_uniform_and_bounded [of "[?m]" "[Arrive ?m, TimerFires]"] show ?thesis by simp
qed

end
