(* ===== verification/Submitter.thy ===== *)
theory Submitter
  imports SettleWire FeeRules Batcher JsText "HOL-Library.Signed_Division"
begin

text \<open>
  \<open>packages/settler/src/submitter/submitter.service.ts\<close>: how a flushed batch becomes a
  \<open>settle_batch\<close> transaction. Messages are JSON payloads whose numbers are integers. The RPC node
  is an argument: \<open>acct\<close> answers \<open>getAccountInfo\<close> (an error, no account, or its data) during one
  batch, \<open>clock\<close> the time at which a slug is looked up. Base58, the address derivation and
  \<open>Date.parse\<close> on a string that is not in the \<open>toISOString\<close> form (implementation defined) are
  arguments too. An operation returns the new caches and an error or a value.
\<close>

section \<open>JavaScript conversions\<close>

definition nullish :: "json option \<Rightarrow> json \<Rightarrow> json" where
  "nullish v d = (case v of None \<Rightarrow> d | Some JNull \<Rightarrow> d | Some x \<Rightarrow> x)"

fun string_of_json :: "json \<Rightarrow> string" where
  "string_of_json JNull = ''null''"
| "string_of_json (JBool b) = (if b then ''true'' else ''false'')"
| "string_of_json (JNum n) = string_of_int n"
| "string_of_json (JStr s) = s"
| "string_of_json (JArr vs) = join_with '','' (List.map (\<lambda>v. if v = JNull then [] else string_of_json v) vs)"
| "string_of_json (JObj kvs) = ''[object Object]''"

text \<open>
  \<open>Number(v)\<close>; \<open>None\<close> is NaN. A numeric string is an integer literal here.
\<close>

fun number_of_json :: "json \<Rightarrow> int option" where
  "number_of_json (JNum n) = Some n"
| "number_of_json (JStr s) = bigint_of_string s"
| "number_of_json (JBool b) = Some (if b then 1 else 0)"
| "number_of_json JNull = Some 0"
| "number_of_json _ = None"

text \<open>\<open>parseInt(ab, 16)\<close> stored into a byte: NaN becomes 0, trailing junk is ignored.\<close>

definition parse_hex_pair :: "char \<Rightarrow> char \<Rightarrow> nat" where
  "parse_hex_pair a b =
     (let one = (\<lambda>c. case hex_val c of None \<Rightarrow> 0 | Some d \<Rightarrow> d) in
      if is_space a \<or> a = CHR ''+'' then one b
      else case hex_val a of None \<Rightarrow> 0
        | Some x \<Rightarrow> (case hex_val b of None \<Rightarrow> x | Some y \<Rightarrow> 16 * x + y))"

fun hex_pairs :: "string \<Rightarrow> bytes" where
  "hex_pairs (a # b # cs) = word_of_nat (parse_hex_pair a b) # hex_pairs cs"
| "hex_pairs _ = []"

definition parseCallId :: "string \<Rightarrow> bytes option" where
  "parseCallId callId =
     (let hex = filter (\<lambda>c. c \<noteq> CHR ''-'') callId in
      if length hex \<noteq> 32 then None else Some (hex_pairs hex))"

definition hex_of_bytes :: "bytes \<Rightarrow> string" where
  "hex_of_bytes bs = concat (List.map (\<lambda>b. [hex_char (unat b div 16), hex_char (unat b mod 16)]) bs)"

datatype chain_vm = VmSolana | VmEvm

definition formatAdapterCallId :: "chain_vm \<Rightarrow> string \<Rightarrow> string option" where
  "formatAdapterCallId vm callId =
     map_option (\<lambda>bs. if vm = VmEvm then ''0x'' @ hex_of_bytes bs else hex_of_bytes bs) (parseCallId callId)"

definition breachFromOutcome :: "string \<Rightarrow> bool" where
  "breachFromOutcome oc \<longleftrightarrow> oc \<noteq> ''ok''"

text \<open>
  \<open>parseEventTimestamp\<close>: \<open>None\<close> when it throws, \<open>Some None\<close> for NaN. \<open>date_parse\<close> is \<open>Date.parse\<close>
  in milliseconds.
\<close>

definition parseEventTimestamp :: "(string \<Rightarrow> int option) \<Rightarrow> payload \<Rightarrow> int option option" where
  "parseEventTimestamp date_parse d =
     (let tsField = (case get_prop d ''ts'' of None \<Rightarrow> get_prop d ''timestamp''
                     | Some JNull \<Rightarrow> get_prop d ''timestamp'' | Some v \<Rightarrow> Some v) in
      case tsField of
        Some (JNum n) \<Rightarrow> Some (Some n)
      | Some (JStr s) \<Rightarrow>
          if CHR ''T'' \<in> set s \<or> ends_with ''Z'' s then
            map_option (\<lambda>ms. Some (ms div 1000)) (date_parse s)
          else Some (bigint_of_string s)
      | _ \<Rightarrow> None)"

section \<open>State\<close>

datatype submit_error = BatchSubmitError string | SkipBatchError string | OtherError string

record endpoint_snapshot =
  es_loadedAt :: int
  es_config :: endpoint_account
  es_endpointConfigPda :: pubkey
  es_coveragePool :: pubkey
  es_poolVault :: pubkey

record submitter =
  su_treasuryVault :: "pubkey option"
  su_endpointCache :: "(string \<times> endpoint_snapshot) list"

record solana_ctx =
  sc_keys :: well_known
  sc_programId :: pubkey
  sc_usdcMint :: pubkey
  sc_settler :: pubkey
  sc_ataProgram :: pubkey
  sc_find :: pda_finder
  sc_b58 :: "bytes \<Rightarrow> string"
  sc_unb58 :: "string \<Rightarrow> bytes option"

type_synonym accounts = "pubkey \<Rightarrow> string + bytes option"

definition ENDPOINT_CACHE_TTL_MS :: int where "ENDPOINT_CACHE_TTL_MS = 60000"

type_synonym 'a sub = "submitter \<Rightarrow> submitter \<times> (submit_error + 'a)"

definition sub_return :: "'a \<Rightarrow> 'a sub" where "sub_return a = (\<lambda>s. (s, Inr a))"
definition sub_throw :: "string \<Rightarrow> 'a sub" where "sub_throw e = (\<lambda>s. (s, Inl (OtherError e)))"

definition sub_bind :: "'a sub \<Rightarrow> ('a \<Rightarrow> 'b sub) \<Rightarrow> 'b sub" where
  "sub_bind m f = (\<lambda>s. case m s of (s', Inl e) \<Rightarrow> (s', Inl e) | (s', Inr a) \<Rightarrow> f a s')"

definition sub_option :: "string \<Rightarrow> 'a option \<Rightarrow> 'a sub" where
  "sub_option e x = (case x of None \<Rightarrow> sub_throw e | Some a \<Rightarrow> sub_return a)"

definition extractSlug :: "payload \<Rightarrow> string option" where
  "extractSlug d = (case get_prop d ''endpointSlug'' of
     Some (JStr s) \<Rightarrow> (if s = [] then None else Some s) | _ \<Rightarrow> None)"

section \<open>Loading\<close>

definition get_account :: "accounts \<Rightarrow> pubkey \<Rightarrow> string \<Rightarrow> bytes sub" where
  "get_account acct k missing =
     (case acct k of Inl e \<Rightarrow> sub_throw e | Inr None \<Rightarrow> sub_throw missing | Inr (Some d) \<Rightarrow> sub_return d)"

definition fetch_endpoint :: "solana_ctx \<Rightarrow> accounts \<Rightarrow> int \<Rightarrow> string \<Rightarrow> endpoint_snapshot sub" where
  "fetch_endpoint ctx acct now slug =
     (let slugBuf = slugBytes slug in
      sub_bind (sub_option ''slug'' (getEndpointConfigPda (sc_find ctx) (sc_programId ctx) (Inl slugBuf))) (\<lambda>ep.
      sub_bind (sub_option ''slug'' (getCoveragePoolPda (sc_find ctx) (sc_programId ctx) (Inl slugBuf))) (\<lambda>cp.
      sub_bind (get_account acct (fst ep) ''EndpointConfig not found on-chain'') (\<lambda>epData.
      sub_bind (get_account acct (fst cp) ''CoveragePool not found on-chain'') (\<lambda>poolData.
      sub_bind (sub_option ''decodeEndpointConfig'' (decodeEndpointConfig (sc_b58 ctx) epData)) (\<lambda>config.
      sub_bind (sub_option ''decodeCoveragePool'' (decodeCoveragePool (sc_b58 ctx) poolData)) (\<lambda>pool.
      sub_bind (sub_option ''Invalid public key input'' (sc_unb58 ctx (cp_usdcVault pool))) (\<lambda>vault.
      let snapshot = \<lparr>es_loadedAt = now, es_config = config, es_endpointConfigPda = fst ep,
                      es_coveragePool = fst cp, es_poolVault = vault\<rparr>
      in (\<lambda>s. (s\<lparr>su_endpointCache := AList.update slug snapshot (su_endpointCache s)\<rparr>, Inr snapshot))))))))))"

definition loadEndpoint :: "solana_ctx \<Rightarrow> accounts \<Rightarrow> int \<Rightarrow> string \<Rightarrow> endpoint_snapshot sub" where
  "loadEndpoint ctx acct now slug = (\<lambda>s.
     case map_of (su_endpointCache s) slug of
       Some cached \<Rightarrow>
         if now - es_loadedAt cached < ENDPOINT_CACHE_TTL_MS then (s, Inr cached)
         else fetch_endpoint ctx acct now slug s
     | None \<Rightarrow> fetch_endpoint ctx acct now slug s)"

definition loadTreasuryVault :: "solana_ctx \<Rightarrow> accounts \<Rightarrow> pubkey sub" where
  "loadTreasuryVault ctx acct =
     sub_bind (get_account acct (fst (getTreasuryPda (sc_find ctx) (sc_programId ctx))) ''Treasury PDA not initialised'') (\<lambda>data.
     sub_bind (sub_option ''decodeTreasury'' (decodeTreasury (sc_b58 ctx) data)) (\<lambda>t.
     sub_option ''Invalid public key input'' (sc_unb58 ctx (tr_usdcVault t))))"

definition requireTreasuryVault :: "solana_ctx \<Rightarrow> accounts \<Rightarrow> pubkey sub" where
  "requireTreasuryVault ctx acct = (\<lambda>s.
     case su_treasuryVault s of
       Some v \<Rightarrow> (s, Inr v)
     | None \<Rightarrow> sub_bind (loadTreasuryVault ctx acct) (\<lambda>v s. (s\<lparr>su_treasuryVault := Some v\<rparr>, Inr v)) s)"

definition invalidateCacheForBatch :: "settle_batch \<Rightarrow> submitter \<Rightarrow> submitter" where
  "invalidateCacheForBatch batch s =
     (let slugs = List.map_filter (\<lambda>m. extractSlug (sm_data m)) batch in
      s\<lparr>su_endpointCache := fold AList.delete slugs (su_endpointCache s), su_treasuryVault := None\<rparr>)"

section \<open>Fee shares\<close>

record recipient_share =
  sh_kind :: int
  sh_pubkey :: string
  sh_amount :: int

definition fee_share :: "int \<Rightarrow> int \<Rightarrow> int" where
  "fee_share premium bps = (premium * bps) sdiv 10000"

text \<open>The loop over \<open>feeRecipientCount\<close>; an array shorter than its count is a \<open>TypeError\<close>.\<close>

fun fee_shares :: "solana_ctx \<Rightarrow> accounts \<Rightarrow> int \<Rightarrow> nat \<Rightarrow> fee_recipient list \<Rightarrow> recipient_share list sub" where
  "fee_shares ctx acct premium 0 rs = sub_return []"
| "fee_shares ctx acct premium (Suc n) [] = sub_throw ''TypeError''"
| "fee_shares ctx acct premium (Suc n) (r # rs) =
     sub_bind (if fr_kind r = KIND_Treasury then requireTreasuryVault ctx acct
               else sub_option ''Invalid public key input'' (sc_unb58 ctx (fr_destination r))) (\<lambda>dest.
     sub_bind (fee_shares ctx acct premium n rs) (\<lambda>shares.
     sub_return (\<lparr>sh_kind = fr_kind r, sh_pubkey = sc_b58 ctx dest, sh_amount = fee_share premium (fr_bps r)\<rparr> # shares)))"

definition computeFeeSharesForEvent ::
    "solana_ctx \<Rightarrow> accounts \<Rightarrow> int \<Rightarrow> endpoint_account \<Rightarrow> recipient_share list sub" where
  "computeFeeSharesForEvent ctx acct premium cfg =
     fee_shares ctx acct premium (nat (ec_feeRecipientCount cfg)) (ec_feeRecipients cfg)"

record evm_recipient =
  ev_kind :: int
  ev_recipient :: string
  ev_bps :: int

definition computeEvmFeeShares :: "int \<Rightarrow> evm_recipient list \<Rightarrow> recipient_share list" where
  "computeEvmFeeShares premium rs =
     List.map (\<lambda>r. \<lparr>sh_kind = ev_kind r, sh_pubkey = ev_recipient r, sh_amount = fee_share premium (ev_bps r)\<rparr>) rs"

section \<open>The direct path\<close>

definition deriveAssociatedTokenAccount :: "solana_ctx \<Rightarrow> pubkey \<Rightarrow> pubkey \<Rightarrow> pubkey" where
  "deriveAssociatedTokenAccount ctx owner mint =
     fst (sc_find ctx [owner, wk_token (sc_keys ctx), mint] (sc_ataProgram ctx))"

fun load_slugs ::
    "solana_ctx \<Rightarrow> accounts \<Rightarrow> (string \<Rightarrow> int) \<Rightarrow> string list \<Rightarrow> (string \<times> endpoint_snapshot) list \<Rightarrow>
     (string \<times> endpoint_snapshot) list sub" where
  "load_slugs ctx acct clock [] snaps = sub_return snaps"
| "load_slugs ctx acct clock (slug # slugs) snaps =
     sub_bind (loadEndpoint ctx acct (clock slug) slug) (\<lambda>snap.
     load_slugs ctx acct clock slugs (AList.update slug snap snaps))"

fun sub_map :: "('a \<Rightarrow> 'b sub) \<Rightarrow> 'a list \<Rightarrow> 'b list sub" where
  "sub_map f [] = sub_return []"
| "sub_map f (x # xs) = sub_bind (f x) (\<lambda>y. sub_bind (sub_map f xs) (\<lambda>ys. sub_return (y # ys)))"

text \<open>What one message becomes: the event, its call-record address and its shares.\<close>

definition message_event ::
    "solana_ctx \<Rightarrow> accounts \<Rightarrow> (string \<Rightarrow> int option) \<Rightarrow> (string \<times> endpoint_snapshot) list \<Rightarrow> settle_message \<Rightarrow>
     (batch_event \<times> pubkey \<times> recipient_share list) sub" where
  "message_event ctx acct date_parse snaps m =
     (let d = sm_data m in
      sub_bind (sub_option ''settlement event missing endpointSlug'' (extractSlug d)) (\<lambda>slug.
      sub_bind (sub_option ''TypeError'' (map_of snaps slug)) (\<lambda>snap.
      sub_bind (sub_option ''callId must be 16 bytes''
        (parseCallId (string_of_json (nullish (get_prop d ''callId'') (JStr []))))) (\<lambda>callId.
      sub_bind (sub_option ''Invalid public key input''
        (sc_unb58 ctx (string_of_json (nullish (get_prop d ''agentPubkey'') (JStr []))))) (\<lambda>agentOwner.
      sub_bind (sub_option ''SyntaxError'' (bigint_of_json (get_prop d ''premiumLamports''))) (\<lambda>premium.
      sub_bind (sub_option ''SyntaxError''
        (bigint_of_json (Some (nullish (get_prop d ''refundLamports'') (JStr ''0''))))) (\<lambda>refund.
      let latency = number_of_json (nullish (get_prop d ''latencyMs'') (JNum 0));
          outcomeStr = string_of_json (nullish (get_prop d ''outcome'') (JStr ''ok'')) in
      sub_bind (sub_option ''settlement event missing ts/timestamp'' (parseEventTimestamp date_parse d)) (\<lambda>ts.
      sub_bind (computeFeeSharesForEvent ctx acct premium (es_config snap)) (\<lambda>shares.
      sub_bind (sub_map (\<lambda>s. sub_option ''Invalid public key input'' (sc_unb58 ctx (sh_pubkey s))) shares) (\<lambda>atas.
      sub_bind (sub_option ''RangeError'' ts) (\<lambda>timestamp.
      sub_bind (sub_option ''call_id'' (getCallRecordPda (sc_find ctx) (sc_programId ctx) callId)) (\<lambda>pda.
      sub_return
        (\<lparr>se_callId = callId, se_agentOwner = agentOwner,
          se_agentAta = deriveAssociatedTokenAccount ctx agentOwner (sc_usdcMint ctx),
          se_endpointConfig = es_endpointConfigPda snap, se_coveragePool = es_coveragePool snap,
          se_poolVault = es_poolVault snap, se_slug = slugBytes slug,
          se_premiumLamports = premium, se_refundLamports = refund,
          se_latencyMs = or_default latency 0, se_breach = breachFromOutcome outcomeStr,
          se_timestamp = timestamp, se_feeRecipientAtas = atas\<rparr>, fst pda, shares)))))))))))))"

definition legacy_build ::
    "solana_ctx \<Rightarrow> accounts \<Rightarrow> (string \<Rightarrow> int option) \<Rightarrow> (string \<Rightarrow> int) \<Rightarrow> settle_batch \<Rightarrow>
     (tx_instruction \<times> pubkey list \<times> recipient_share list list) sub" where
  "legacy_build ctx acct date_parse clock batch =
     sub_bind (sub_map (\<lambda>m. sub_option ''settlement event missing endpointSlug'' (extractSlug (sm_data m))) batch) (\<lambda>slugs.
     sub_bind (load_slugs ctx acct clock (rev (remdups (rev slugs))) []) (\<lambda>snaps.
     sub_bind (sub_map (message_event ctx acct date_parse snaps) batch) (\<lambda>evs.
     let events = List.map fst evs;
         callRecordPdas = List.map (fst \<circ> snd) evs;
         perEventShares = List.map (snd \<circ> snd) evs in
     sub_bind (sub_option ''RangeError'' (buildSettleBatchIx (sc_keys ctx)
       \<lparr>sbp_programId = Some (sc_programId ctx), sbp_settler = sc_settler ctx,
        sbp_settlementAuthority = fst (getSettlementAuthorityPda (sc_find ctx) (sc_programId ctx)),
        sbp_protocolConfig = fst (getProtocolConfigPda (sc_find ctx) (sc_programId ctx)),
        sbp_events = events, sbp_callRecordPdas = callRecordPdas\<rparr>)) (\<lambda>ix.
     sub_return (ix, callRecordPdas, perEventShares)))))"

text \<open>
  \<open>findExistingCallRecordSignature\<close> from the account and the signatures the node reports for it. The
  answer is \<open>None\<close> when there is no record, and also when there is one but no signature is listed.
\<close>

type_synonym record_probe = "(string + bytes option) \<times> (string + string list)"

definition findExistingCallRecordSignature :: "record_probe \<Rightarrow> string + string option" where
  "findExistingCallRecordSignature probe =
     (case fst probe of Inl e \<Rightarrow> Inl e
      | Inr None \<Rightarrow> Inr None
      | Inr (Some d) \<Rightarrow> (case snd probe of Inl e \<Rightarrow> Inl e
          | Inr [] \<Rightarrow> Inr None | Inr (sig # _) \<Rightarrow> Inr (Some sig)))"

text \<open>
  \<open>sendWithRetry\<close>: \<open>send k\<close> is what the \<open>k\<close>-th attempt's transaction returns (a signature or an
  error), \<open>node pda k\<close> what the node answers about the record at \<open>pda\<close> before the \<open>k\<close>-th attempt; the
  check after the last attempt is number \<open>maxAttempts + 1\<close>. The first component lists the attempts
  that sent a transaction. The back-off sleeps are left out.
\<close>

definition attempt_send ::
    "(nat \<Rightarrow> string + string) \<Rightarrow> (nat \<Rightarrow> string + string option) \<Rightarrow> bool \<Rightarrow> nat \<Rightarrow> nat list \<times> (string + string)" where
  "attempt_send send lookup hasPdas attempt =
     (if attempt > 1 \<and> hasPdas then
        (case lookup attempt of
           Inl e \<Rightarrow> ([], Inl e)
         | Inr (Some sig) \<Rightarrow> ([], Inr sig)
         | Inr None \<Rightarrow> ([attempt], send attempt))
      else ([attempt], send attempt))"

fun retry_loop ::
    "(nat \<Rightarrow> string + string) \<Rightarrow> (nat \<Rightarrow> string + string option) \<Rightarrow> bool \<Rightarrow> nat \<Rightarrow> nat \<Rightarrow> string \<Rightarrow> nat list \<times> (string + string)" where
  "retry_loop send lookup hasPdas attempt 0 lastErr = ([], Inl lastErr)"
| "retry_loop send lookup hasPdas attempt (Suc left) lastErr =
     (case attempt_send send lookup hasPdas attempt of
        (sent, Inr sig) \<Rightarrow> (sent, Inr sig)
      | (sent, Inl e) \<Rightarrow>
          (case retry_loop send lookup hasPdas (attempt + 1) left e of (sent', r) \<Rightarrow> (sent @ sent', r)))"

definition sendWithRetry ::
    "(nat \<Rightarrow> string + string) \<Rightarrow> (pubkey \<Rightarrow> nat \<Rightarrow> record_probe) \<Rightarrow> nat \<Rightarrow> pubkey list \<Rightarrow> nat list \<times> (submit_error + string)" where
  "sendWithRetry send node maxAttempts callRecordPdas =
     (let hasPdas = (callRecordPdas \<noteq> []);
          lookup = (\<lambda>k. findExistingCallRecordSignature (node (hd callRecordPdas) k)) in
      case retry_loop send lookup hasPdas 1 maxAttempts ''undefined'' of
        (sent, Inr sig) \<Rightarrow> (sent, Inr sig)
      | (sent, Inl lastErr) \<Rightarrow>
          (sent,
           if hasPdas then
             (case lookup (maxAttempts + 1) of
                Inr (Some sig) \<Rightarrow> Inr sig
              | _ \<Rightarrow> Inl (BatchSubmitError lastErr))
           else Inl (BatchSubmitError lastErr)))"

record settlement_outcome =
  so_signature :: string
  so_perEventShares :: "recipient_share list list"

definition submitLegacyDirect ::
    "solana_ctx \<Rightarrow> accounts \<Rightarrow> (string \<Rightarrow> int option) \<Rightarrow> (string \<Rightarrow> int) \<Rightarrow>
     (tx_instruction \<Rightarrow> nat \<Rightarrow> string + string) \<Rightarrow> (pubkey \<Rightarrow> nat \<Rightarrow> record_probe) \<Rightarrow>
     settle_batch \<Rightarrow> settlement_outcome sub" where
  "submitLegacyDirect ctx acct date_parse clock send node batch =
     sub_bind (legacy_build ctx acct date_parse clock batch) (\<lambda>(ix, pdas, shares). \<lambda>s.
       case snd (sendWithRetry (send ix) node 3 pdas) of
         Inl e \<Rightarrow> (s, Inl e)
       | Inr sig \<Rightarrow> (s, Inr \<lparr>so_signature = sig, so_perEventShares = shares\<rparr>))"

section \<open>The adapter path\<close>

record adapter_event =
  ae_callId :: string
  ae_agent :: string
  ae_premiumBaseUnits :: int
  ae_breach :: bool
  ae_refundBaseUnits :: int
  ae_feeRecipientCountHint :: int
  ae_latencyMs :: "int option"
  ae_eventTimestamp :: int

text \<open>
  The network's \<open>ChainAdapter\<close>: its VM, whether a signer is loaded (Solana), \<open>getEndpoint\<close> if it has
  one, and \<open>submitSettleBatch\<close>.
\<close>

record chain_adapter =
  ca_vm :: chain_vm
  ca_signer :: "string + unit"
  ca_getEndpoint :: "(string \<Rightarrow> string + evm_recipient list) option"
  ca_submitSettleBatch :: "string \<Rightarrow> adapter_event list \<Rightarrow> string + string"

datatype fee_config = SolanaFees endpoint_account | EvmFees "evm_recipient list"

definition loadFeeConfig ::
    "solana_ctx \<Rightarrow> accounts \<Rightarrow> (string \<Rightarrow> int) \<Rightarrow> chain_adapter \<Rightarrow> string \<Rightarrow> fee_config sub" where
  "loadFeeConfig ctx acct clock adapter slug =
     (if ca_vm adapter = VmSolana then
        sub_bind (loadEndpoint ctx acct (clock slug) slug) (\<lambda>snap. sub_return (SolanaFees (es_config snap)))
      else case ca_getEndpoint adapter of
          None \<Rightarrow> sub_throw ''adapter does not implement getEndpoint''
        | Some getEndpoint \<Rightarrow> (case getEndpoint slug of Inl e \<Rightarrow> sub_throw e | Inr rs \<Rightarrow> sub_return (EvmFees rs)))"

definition fee_count :: "fee_config \<Rightarrow> int" where
  "fee_count fc = (case fc of SolanaFees cfg \<Rightarrow> ec_feeRecipientCount cfg | EvmFees rs \<Rightarrow> int (length rs))"

definition compute_shares :: "solana_ctx \<Rightarrow> accounts \<Rightarrow> fee_config \<Rightarrow> int \<Rightarrow> recipient_share list sub" where
  "compute_shares ctx acct fc premium =
     (case fc of SolanaFees cfg \<Rightarrow> computeFeeSharesForEvent ctx acct premium cfg
      | EvmFees rs \<Rightarrow> sub_return (computeEvmFeeShares premium rs))"

definition adapter_message ::
    "chain_vm \<Rightarrow> (string \<Rightarrow> int option) \<Rightarrow> int \<Rightarrow> settle_message \<Rightarrow> adapter_event sub" where
  "adapter_message vm date_parse hint m =
     (let d = sm_data m in
      sub_bind (sub_option ''callId must be 16 bytes''
        (formatAdapterCallId vm (string_of_json (nullish (get_prop d ''callId'') (JStr []))))) (\<lambda>callId.
      sub_bind (sub_option ''SyntaxError'' (bigint_of_json (get_prop d ''premiumLamports''))) (\<lambda>premium.
      sub_bind (sub_option ''SyntaxError''
        (bigint_of_json (Some (nullish (get_prop d ''refundLamports'') (JStr ''0''))))) (\<lambda>refund.
      sub_bind (sub_option ''settlement event missing ts/timestamp'' (parseEventTimestamp date_parse d)) (\<lambda>ts.
      sub_bind (sub_option ''RangeError'' ts) (\<lambda>timestamp.
      sub_return
        \<lparr>ae_callId = callId, ae_agent = string_of_json (nullish (get_prop d ''agentPubkey'') (JStr [])),
         ae_premiumBaseUnits = premium,
         ae_breach = breachFromOutcome (string_of_json (nullish (get_prop d ''outcome'') (JStr ''ok''))),
         ae_refundBaseUnits = refund, ae_feeRecipientCountHint = hint,
         ae_latencyMs = number_of_json (nullish (get_prop d ''latencyMs'') (JNum 0)),
         ae_eventTimestamp = timestamp\<rparr>))))))"

definition submitViaAdapter ::
    "solana_ctx \<Rightarrow> accounts \<Rightarrow> (string \<Rightarrow> int option) \<Rightarrow> (string \<Rightarrow> int) \<Rightarrow> chain_adapter \<Rightarrow>
     settle_batch \<Rightarrow> settlement_outcome sub" where
  "submitViaAdapter ctx acct date_parse clock adapter batch =
     sub_bind (case (if ca_vm adapter = VmSolana then ca_signer adapter else Inr ()) of
       Inl e \<Rightarrow> sub_throw e | Inr _ \<Rightarrow> sub_return ()) (\<lambda>_.
     sub_bind (case batch of [] \<Rightarrow> sub_throw ''TypeError''
       | m # _ \<Rightarrow> sub_option ''settlement event missing endpointSlug'' (extractSlug (sm_data m))) (\<lambda>slug.
     sub_bind (loadFeeConfig ctx acct clock adapter slug) (\<lambda>fc.
     sub_bind (sub_map (adapter_message (ca_vm adapter) date_parse (fee_count fc)) batch) (\<lambda>events.
     sub_bind (case ca_submitSettleBatch adapter slug events of Inl e \<Rightarrow> sub_throw e | Inr tx \<Rightarrow> sub_return tx) (\<lambda>txId.
     sub_bind (sub_map (\<lambda>m. sub_bind (sub_option ''SyntaxError'' (bigint_of_json (get_prop (sm_data m) ''premiumLamports'')))
       (compute_shares ctx acct fc)) batch) (\<lambda>shares.
     sub_return \<lparr>so_signature = txId, so_perEventShares = shares\<rparr>))))))"

text \<open>\<open>submit\<close>: the router. \<open>adapters\<close> is the map of the networks this instance serves.\<close>

definition submit ::
    "solana_ctx \<Rightarrow> accounts \<Rightarrow> (string \<Rightarrow> int option) \<Rightarrow> (string \<Rightarrow> int) \<Rightarrow>
     (tx_instruction \<Rightarrow> nat \<Rightarrow> string + string) \<Rightarrow> (pubkey \<Rightarrow> nat \<Rightarrow> record_probe) \<Rightarrow>
     bool \<Rightarrow> (string \<rightharpoonup> chain_adapter) \<Rightarrow> settle_batch \<Rightarrow> settlement_outcome sub" where
  "submit ctx acct date_parse clock send node legacyDirect adapters batch =
     (let network = (case batch of [] \<Rightarrow> ''solana-devnet'' | m # _ \<Rightarrow> message_network m) in
      if legacyDirect \<and> starts_with ''solana-'' network then
        submitLegacyDirect ctx acct date_parse clock send node batch
      else case adapters network of
          None \<Rightarrow> (\<lambda>s. (s, Inl (SkipBatchError network)))
        | Some adapter \<Rightarrow> submitViaAdapter ctx acct date_parse clock adapter batch)"

section \<open>Successful runs\<close>

lemma sub_return_ok [simp]: "sub_return a s = (s', Inr b) \<longleftrightarrow> s' = s \<and> b = a"
  by (auto simp: sub_return_def)

lemma sub_throw_ok [simp]: "sub_throw e s \<noteq> (s', Inr b)"
  by (simp add: sub_throw_def)

lemma sub_bind_ok: "sub_bind m f s = (s', Inr b) \<longleftrightarrow> (\<exists>s1 a. m s = (s1, Inr a) \<and> f a s1 = (s', Inr b))"
  by (auto simp: sub_bind_def split: prod.splits sum.splits)

lemma sub_option_ok [simp]: "sub_option e x s = (s', Inr a) \<longleftrightarrow> s' = s \<and> x = Some a"
  by (auto simp: sub_option_def sub_return_def sub_throw_def split: option.splits)

lemmas sub_ok = sub_bind_ok Let_def

lemma sub_map_ok:
  "sub_map f xs s = (s', Inr ys) \<Longrightarrow>
     length ys = length xs \<and> (\<forall>i < length xs. \<exists>s1 s2. f (xs ! i) s1 = (s2, Inr (ys ! i)))"
proof (induction xs arbitrary: s s' ys)
  case (Cons x xs)
  obtain s1 y s2 ys' where y: "f x s = (s1, Inr y)" and ys': "sub_map f xs s1 = (s2, Inr ys')" and ys: "ys = y # ys'"
    using Cons.prems by (auto simp: sub_ok)
  have "\<exists>s1 s2. f ((x # xs) ! i) s1 = (s2, Inr (ys ! i))" if "i < length (x # xs)" for i
    using that y Cons.IH [OF ys'] by (cases i) (auto simp: ys)
  then show ?case using Cons.IH [OF ys'] by (simp add: ys)
qed simp

lemma length_slugBytes [simp]: "length (slugBytes s) = 16"
  by (simp add: slugBytes_def js_simps)

text \<open>What the program will read for a message that became an event.\<close>

definition wire_matches :: "(string \<Rightarrow> int option) \<Rightarrow> payload \<Rightarrow> wire_event \<Rightarrow> bool" where
  "wire_matches date_parse d w \<longleftrightarrow>
     bigint_of_json (get_prop d ''premiumLamports'') = Some (we_premium_lamports w) \<and>
     bigint_of_json (Some (nullish (get_prop d ''refundLamports'') (JStr ''0''))) = Some (we_refund_lamports w) \<and>
     parseCallId (string_of_json (nullish (get_prop d ''callId'') (JStr []))) = Some (we_call_id w) \<and>
     map_option slugBytes (extractSlug d) = Some (we_endpoint_slug w) \<and>
     parseEventTimestamp date_parse d = Some (Some (we_timestamp w)) \<and>
     we_breach w = (if breachFromOutcome (string_of_json (nullish (get_prop d ''outcome'') (JStr ''ok''))) then 1 else 0)"

lemma message_event_ok:
  assumes "message_event ctx acct dp snaps m s = (s', Inr (ev, pda, shares))" and "base58_ok (sc_b58 ctx) (sc_unb58 ctx)"
  shows "wire_matches dp (sm_data m) (wire_of ev)" and "length (se_agentOwner ev) = 32"
    and "sc_unb58 ctx (string_of_json (nullish (get_prop (sm_data m) ''agentPubkey'') (JStr []))) = Some (we_agent_owner (wire_of ev))"
    and "pda = fst (sc_find ctx [ascii ''call'', se_callId ev] (sc_programId ctx))"
proof -
  from assms(1) show "wire_matches dp (sm_data m) (wire_of ev)"
    by (auto simp: message_event_def sub_ok wire_matches_def wire_of_def)
  from assms(1) show o: "sc_unb58 ctx (string_of_json (nullish (get_prop (sm_data m) ''agentPubkey'') (JStr []))) =
      Some (we_agent_owner (wire_of ev))"
    by (auto simp: message_event_def sub_ok wire_of_def)
  from base58_length [OF assms(2) o] show "length (se_agentOwner ev) = 32" by (simp add: wire_of_def)
  from assms(1) show "pda = fst (sc_find ctx [ascii ''call'', se_callId ev] (sc_programId ctx))"
    by (auto simp: message_event_def sub_ok getCallRecordPda_def normalizeCallId_def split: if_splits)
qed

lemma legacy_build_events:
  assumes b: "legacy_build ctx acct dp clock batch s = (s', Inr (ix, pdas, shares))"
    and k: "base58_ok (sc_b58 ctx) (sc_unb58 ctx)" and n: "length batch \<le> 50"
  shows "\<exists>ws. parse_batch (tl (ix_data ix)) = Some ws \<and> length ws = length batch \<and> length pdas = length batch \<and>
     length shares = length batch \<and>
     (\<forall>i < length batch. wire_matches dp (sm_data (batch ! i)) (ws ! i) \<and>
        pdas ! i = fst (sc_find ctx [ascii ''call'', we_call_id (ws ! i)] (sc_programId ctx)))"
proof -
  obtain snaps s1 s2 evs where evs: "sub_map (message_event ctx acct dp snaps) batch s1 = (s2, Inr evs)"
    and ix: "buildSettleBatchIx (sc_keys ctx)
       \<lparr>sbp_programId = Some (sc_programId ctx), sbp_settler = sc_settler ctx,
        sbp_settlementAuthority = fst (getSettlementAuthorityPda (sc_find ctx) (sc_programId ctx)),
        sbp_protocolConfig = fst (getProtocolConfigPda (sc_find ctx) (sc_programId ctx)),
        sbp_events = List.map fst evs, sbp_callRecordPdas = List.map (fst \<circ> snd) evs\<rparr> = Some ix"
    and out: "pdas = List.map (fst \<circ> snd) evs" "shares = List.map (snd \<circ> snd) evs"
    using b by (auto simp: legacy_build_def sub_ok)
  have len: "length evs = length batch" using sub_map_ok [OF evs] by simp
  have ev: "wire_matches dp (sm_data (batch ! i)) (wire_of (fst (evs ! i))) \<and> length (se_agentOwner (fst (evs ! i))) = 32 \<and>
      fst (snd (evs ! i)) = fst (sc_find ctx [ascii ''call'', se_callId (fst (evs ! i))] (sc_programId ctx))"
    if "i < length batch" for i
  proof -
    obtain t1 t2 where "message_event ctx acct dp snaps (batch ! i) t1 = (t2, Inr (evs ! i))"
      using sub_map_ok [OF evs] \<open>i < length batch\<close> by blast
    moreover obtain ev pda sh where "evs ! i = (ev, pda, sh)" by (cases "evs ! i")
    ultimately show ?thesis using message_event_ok [OF _ k] by (metis fst_conv snd_conv)
  qed
  have "\<forall>e \<in> set (List.map fst evs). length (se_agentOwner e) = 32"
    using ev len by (fastforce simp: in_set_conv_nth)
  with settle_batch_wire_lemma [OF ix] n len
  have "parse_batch (tl (ix_data ix)) = Some (List.map wire_of (List.map fst evs))" by simp
  then show ?thesis using ev len out by (intro exI) (auto simp: wire_of_def)
qed

section \<open>Fees\<close>

text \<open>The program's fee of an entry: \<open>(premium as u128 * bps / 10_000) as u64\<close>.\<close>

definition program_fee :: "64 word \<Rightarrow> 16 word \<Rightarrow> 64 word" where
  "program_fee premium bps = ucast ((ucast premium :: 128 word) * ucast bps div 10000)"

lemma fee_share_nonneg: "0 \<le> p \<Longrightarrow> 0 \<le> b \<Longrightarrow> fee_share p b = p * b div 10000"
  by (simp add: fee_share_def signed_divide_int_def sgn_if)

lemma fee_share_program:
  assumes "uint b \<le> 10000"
  shows "fee_share (uint p) (uint b) = uint (program_fee p b)"
proof -
  have p: "uint p < 2 ^ 64" using unsigned_less [of p, where ?'a = int] by simp
  have b: "0 \<le> uint p" "0 \<le> uint b" by simp_all
  have bu: "uint b < 2 ^ 16" using unsigned_less [of b, where ?'a = int] by simp
  have m: "uint p * uint b \<le> uint p * 10000" using assms by (intro mult_left_mono) simp_all
  then have small: "uint p * uint b < 2 ^ 128" "uint p * uint b div 10000 \<le> uint p" using p by simp_all
  have tb: "0 \<le> v \<Longrightarrow> v < 2 ^ n \<Longrightarrow> take_bit n v = v" for n and v :: int
    by (simp add: take_bit_int_eq_self)
  have up: "uint (ucast p :: 128 word) = uint p" "uint (ucast b :: 128 word) = uint b"
    using tb [of "uint p" 128] tb [of "uint b" 128] p bu by (simp_all add: unsigned_ucast_eq)
  have "uint ((ucast p :: 128 word) * ucast b) = take_bit 128 (uint p * uint b)"
    by (simp add: uint_word_ariths up take_bit_eq_mod)
  also have "\<dots> = uint p * uint b" using tb [of "uint p * uint b" 128] small(1) b by simp
  finally have "uint ((ucast p :: 128 word) * ucast b div 10000) = uint p * uint b div 10000"
    by (simp add: uint_div)
  moreover have "take_bit 64 (uint p * uint b div 10000) = uint p * uint b div 10000"
  proof (rule tb)
    show "uint p * uint b div 10000 < 2 ^ 64" using small(2) p by linarith
    show "0 \<le> uint p * uint b div 10000" using b by (simp add: pos_imp_zdiv_nonneg_iff)
  qed
  ultimately have "uint (program_fee p b) = uint p * uint b div 10000"
    by (simp add: program_fee_def unsigned_ucast_eq)
  then show ?thesis by (simp add: fee_share_nonneg)
qed

lemma fee_shares_ok:
  "fee_shares ctx acct premium n rs s = (s', Inr shares) \<Longrightarrow>
     n \<le> length rs \<and> length shares = n \<and>
     (\<forall>i < n. sh_kind (shares ! i) = fr_kind (rs ! i) \<and> sh_amount (shares ! i) = fee_share premium (fr_bps (rs ! i)) \<and>
        (fr_kind (rs ! i) \<noteq> KIND_Treasury \<longrightarrow>
           map_option (sc_b58 ctx) (sc_unb58 ctx (fr_destination (rs ! i))) = Some (sh_pubkey (shares ! i))))"
proof (induction ctx acct premium n rs arbitrary: s s' shares rule: fee_shares.induct)
  case (3 ctx acct premium n r rs)
  obtain s1 s2 dest shares' where dest: "(if fr_kind r = KIND_Treasury then requireTreasuryVault ctx acct
        else sub_option ''Invalid public key input'' (sc_unb58 ctx (fr_destination r))) s = (s1, Inr dest)"
    and rest: "fee_shares ctx acct premium n rs s1 = (s2, Inr shares')"
    and sh: "shares = \<lparr>sh_kind = fr_kind r, sh_pubkey = sc_b58 ctx dest, sh_amount = fee_share premium (fr_bps r)\<rparr> # shares'"
    using 3(2) by (auto simp: sub_ok)
  note ih = 3(1) [OF rest]
  have "sh_kind (shares ! i) = fr_kind ((r # rs) ! i) \<and> sh_amount (shares ! i) = fee_share premium (fr_bps ((r # rs) ! i)) \<and>
      (fr_kind ((r # rs) ! i) \<noteq> KIND_Treasury \<longrightarrow>
         map_option (sc_b58 ctx) (sc_unb58 ctx (fr_destination ((r # rs) ! i))) = Some (sh_pubkey (shares ! i)))"
    if "i < Suc n" for i
  proof (cases i)
    case 0
    then show ?thesis using dest by (auto simp: sh split: if_splits)
  next
    case (Suc j)
    then show ?thesis using ih that by (simp add: sh)
  qed
  then show ?case using ih by (auto simp: sh)
qed auto

lemma fee_sum_bound:
  assumes "0 \<le> p" and "\<forall>b \<in> set bs. 0 \<le> b" and "sum_list bs \<le> 10000"
  shows "sum_list (List.map (fee_share p) bs) \<le> p"
proof -
  have "10000 * sum_list (List.map (fee_share p) xs) \<le> p * sum_list xs" if "\<forall>b \<in> set xs. 0 \<le> b" for xs
    using that
  proof (induction xs)
    case (Cons x xs)
    have "10000 * fee_share p x \<le> p * x" using assms(1) Cons.prems by (simp add: fee_share_nonneg)
    with Cons show ?case by (simp add: algebra_simps)
  qed simp
  from this [OF assms(2)] have "10000 * sum_list (List.map (fee_share p) bs) \<le> p * sum_list bs" .
  also have "\<dots> \<le> p * 10000" using assms(1,3) by (rule mult_left_mono [rotated])
  finally show ?thesis by simp
qed

section \<open>A concrete settler\<close>

text \<open>For the witnesses: one endpoint with one affiliate entry of ten percent, and one message.\<close>

definition demo_find :: pda_finder where
  "demo_find seeds programId = (take 32 (concat seeds @ replicate 32 0), 255)"

definition demo_ctx :: solana_ctx where
  "demo_ctx = \<lparr>sc_keys = example_keys, sc_programId = replicate 32 12, sc_usdcMint = replicate 32 20,
     sc_settler = replicate 32 21, sc_ataProgram = replicate 32 22, sc_find = demo_find,
     sc_b58 = text_b58, sc_unb58 = text_unb58\<rparr>"

definition demo_entry :: rs_fee_recipient where
  "demo_entry = \<lparr>rf_kind = 2, rf_pad0 = replicate 7 0, rf_destination = replicate 32 7, rf_bps = 1000, rf_pad1 = replicate 6 0\<rparr>"

definition demo_endpoint :: rs_endpoint_config where
  "demo_endpoint = example_endpoint\<lparr>re_fee_recipients := replicate 8 demo_entry\<rparr>"

definition demo_acct :: accounts where
  "demo_acct k = (if hd k = of_char (CHR ''e'') then Inr (Some (endpoint_config_image demo_endpoint))
                  else Inr (Some (replicate 160 0)))"

definition demo_message :: settle_message where
  "demo_message = \<lparr>sm_id = ''1'', sm_data =
     [(''callId'', JStr (replicate 32 (CHR ''1''))), (''agentPubkey'', JStr (text_b58 (replicate 32 5))),
      (''premiumLamports'', JStr ''500''), (''refundLamports'', JStr ''10000''), (''endpointSlug'', JStr ''fal''),
      (''outcome'', JStr ''server_error''), (''ts'', JNum 1700000000)]\<rparr>"

definition demo_config :: endpoint_account where
  "demo_config = endpoint_config_view text_b58 demo_endpoint"

definition demo_snapshot :: endpoint_snapshot where
  "demo_snapshot = \<lparr>es_loadedAt = 0, es_config = demo_config,
     es_endpointConfigPda = fst (demo_find [ascii ''endpoint'', slugBytes ''fal''] (replicate 32 12)),
     es_coveragePool = fst (demo_find [ascii ''coverage_pool'', slugBytes ''fal''] (replicate 32 12)),
     es_poolVault = replicate 32 0\<rparr>"

lemma text_roundtrip [simp]: "length k = 32 \<Longrightarrow> text_unb58 (text_b58 k) = Some k"
  by (rule base58_decode [OF text_base58_ok])

lemma demo_decode: "decodeEndpointConfig text_b58 (endpoint_config_image demo_endpoint) = Some demo_config"
proof -
  have "decodeEndpointConfig text_b58 (endpoint_config_image demo_endpoint @ []) = Some (endpoint_config_view text_b58 demo_endpoint)"
    by (rule decodeEndpointConfig_image)
       (simp_all add: wf_endpoint_config_def wf_fee_recipient_def demo_endpoint_def example_endpoint_def demo_entry_def)
  then show ?thesis by (simp add: demo_config_def)
qed

lemma demo_pool: "map_option cp_usdcVault (decodeCoveragePool text_b58 (replicate 160 0)) = Some (text_b58 (replicate 32 0))"
  by (simp add: decodeCoveragePool_def js_simps readPubkey_def slice_def)

lemma demo_config_fields:
  "ec_feeRecipientCount demo_config = 1"
  "ec_feeRecipients demo_config = [\<lparr>fr_kind = 2, fr_destination = text_b58 (replicate 32 7), fr_bps = 1000\<rparr>]"
  by (simp_all add: demo_config_def endpoint_config_view_def demo_endpoint_def example_endpoint_def demo_entry_def
      fee_recipient_view_def)

lemma demo_load:
  "loadEndpoint demo_ctx demo_acct 0 ''fal'' \<lparr>su_treasuryVault = None, su_endpointCache = []\<rparr> =
     (\<lparr>su_treasuryVault = None, su_endpointCache = [(''fal'', demo_snapshot)]\<rparr>, Inr demo_snapshot)"
proof -
  obtain pool where pool: "decodeCoveragePool text_b58 (replicate 160 0) = Some pool" "cp_usdcVault pool = text_b58 (replicate 32 0)"
    using demo_pool by auto
  show ?thesis
    by (simp add: loadEndpoint_def fetch_endpoint_def demo_ctx_def getEndpointConfigPda_def getCoveragePoolPda_def
        normalizeSlug_def js_simps sub_bind_def sub_option_def sub_return_def get_account_def demo_acct_def
        demo_find_def ascii_def demo_decode pool demo_snapshot_def Let_def)
qed

definition demo_share :: recipient_share where
  "demo_share = \<lparr>sh_kind = 2, sh_pubkey = text_b58 (replicate 32 7), sh_amount = 50\<rparr>"

lemma demo_shares: "computeFeeSharesForEvent demo_ctx demo_acct 500 demo_config s = (s, Inr [demo_share])"
  by (simp add: computeFeeSharesForEvent_def demo_config_fields js_simps demo_ctx_def sub_bind_def sub_option_def
      sub_return_def fee_share_nonneg demo_share_def)

definition demo_batch_event :: batch_event where
  "demo_batch_event = \<lparr>se_callId = replicate 16 0x11, se_agentOwner = replicate 32 5,
     se_agentAta = fst (demo_find [replicate 32 5, replicate 32 13, replicate 32 20] (replicate 32 22)),
     se_endpointConfig = es_endpointConfigPda demo_snapshot, se_coveragePool = es_coveragePool demo_snapshot,
     se_poolVault = replicate 32 0, se_slug = slugBytes ''fal'', se_premiumLamports = 500,
     se_refundLamports = 10000, se_latencyMs = 0, se_breach = True, se_timestamp = 1700000000,
     se_feeRecipientAtas = [replicate 32 7]\<rparr>"

lemma demo_call_id: "parseCallId (replicate 32 (CHR ''1'')) = Some (replicate 16 0x11)"
  by (simp add: parseCallId_def numeral_eq_Suc parse_hex_pair_def is_space_def hex_val_def)

lemma demo_numbers: "bigint_of_string ''500'' = Some 500" "bigint_of_string ''10000'' = Some 10000"
  by code_simp+

lemma demo_event:
  "message_event demo_ctx demo_acct (\<lambda>_. None) [(''fal'', demo_snapshot)] demo_message s =
     (s, Inr (demo_batch_event, fst (demo_find [ascii ''call'', replicate 16 0x11] (replicate 32 12)), [demo_share]))"
proof -
  have c: "sc_b58 demo_ctx = text_b58" "sc_unb58 demo_ctx = text_unb58" "sc_find demo_ctx = demo_find"
    "sc_programId demo_ctx = replicate 32 12" "sc_usdcMint demo_ctx = replicate 32 20"
    "sc_ataProgram demo_ctx = replicate 32 22" "wk_token (sc_keys demo_ctx) = replicate 32 13"
    by (simp_all add: demo_ctx_def example_keys_def)
  have snap: "es_config demo_snapshot = demo_config" "es_poolVault demo_snapshot = replicate 32 0"
    by (simp_all add: demo_snapshot_def)
  show ?thesis
    by (simp add: message_event_def demo_message_def get_prop_def extractSlug_def nullish_def sub_bind_def sub_option_def
        sub_return_def demo_call_id demo_numbers c snap demo_shares parseEventTimestamp_def demo_share_def
        getCallRecordPda_def normalizeCallId_def deriveAssociatedTokenAccount_def breachFromOutcome_def
        or_default_def js_simps demo_batch_event_def)
qed

definition demo_state :: submitter where
  "demo_state = \<lparr>su_treasuryVault = None, su_endpointCache = []\<rparr>"

lemma demo_build:
  "\<exists>s' ix. legacy_build demo_ctx demo_acct (\<lambda>_. None) (\<lambda>_. 0) [demo_message] demo_state =
     (s', Inr (ix, [fst (demo_find [ascii ''call'', replicate 16 0x11] (replicate 32 12))], [[demo_share]]))"
proof -
  have slug: "extractSlug (sm_data demo_message) = Some ''fal''"
    by (simp add: extractSlug_def get_prop_def demo_message_def)
  let ?pda = "fst (demo_find [ascii ''call'', replicate 16 0x11] (replicate 32 12))"
  have "\<exists>ix. buildSettleBatchIx (sc_keys demo_ctx)
       \<lparr>sbp_programId = Some (sc_programId demo_ctx), sbp_settler = sc_settler demo_ctx,
        sbp_settlementAuthority = fst (getSettlementAuthorityPda (sc_find demo_ctx) (sc_programId demo_ctx)),
        sbp_protocolConfig = fst (getProtocolConfigPda (sc_find demo_ctx) (sc_programId demo_ctx)),
        sbp_events = [demo_batch_event], sbp_callRecordPdas = [?pda]\<rparr> = Some ix"
    by (simp add: buildSettleBatchIx_def demo_batch_event_def write_event_def js_simps asCallId_def asSlug_def
        write_uint_def write_i64_def Let_def)
  then show ?thesis
    by (auto simp: legacy_build_def sub_bind_def sub_option_def sub_return_def slug demo_load demo_state_def demo_event)
qed

section \<open>Properties\<close>

text \<open>
  C16: the batch the program reads is the batch that was billed. When the direct path builds an
  instruction for a batch of at most fifty messages, the program's parser recovers one event per
  message, in order, with exactly the premium, the refund, the call id, the padded slug, the
  timestamp and the breach flag of that message's payload, and the call-record addresses passed
  along are those of these call ids.
\<close>

theorem submitted_batch_is_billed:
  assumes "legacy_build ctx acct date_parse clock batch s = (s', Inr (ix, pdas, shares))"
    and "base58_ok (sc_b58 ctx) (sc_unb58 ctx)" and "length batch \<le> 50"
  shows "\<exists>ws. parse_batch (tl (ix_data ix)) = Some ws \<and> length ws = length batch \<and> length pdas = length batch
     \<and> (\<forall>i < length batch. wire_matches date_parse (sm_data (batch ! i)) (ws ! i)
          \<and> pdas ! i = fst (sc_find ctx [ascii ''call'', we_call_id (ws ! i)] (sc_programId ctx)))"
  using legacy_build_events [OF assms] by blast

theorem submitted_batch_is_billed_witness:
  "\<exists>s' ix pdas shares ws. legacy_build demo_ctx demo_acct (\<lambda>_. None) (\<lambda>_. 0) [demo_message] demo_state =
       (s', Inr (ix, pdas, shares))
     \<and> parse_batch (tl (ix_data ix)) = Some ws \<and> length ws = 1 \<and> we_premium_lamports (ws ! 0) = 500"
proof -
  obtain s' ix pdas shares where b: "legacy_build demo_ctx demo_acct (\<lambda>_. None) (\<lambda>_. 0) [demo_message] demo_state =
      (s', Inr (ix, pdas, shares))" using demo_build by blast
  have k: "base58_ok (sc_b58 demo_ctx) (sc_unb58 demo_ctx)" "length [demo_message] \<le> 50"
    by (simp_all add: demo_ctx_def)
  obtain ws where ws: "parse_batch (tl (ix_data ix)) = Some ws" "length ws = 1"
    "wire_matches (\<lambda>_. None) (sm_data demo_message) (ws ! 0)"
    using submitted_batch_is_billed [OF b k] by auto
  have "get_prop (sm_data demo_message) ''premiumLamports'' = Some (JStr ''500'')"
    by (simp add: demo_message_def get_prop_def)
  then have "we_premium_lamports (ws ! 0) = 500" using ws(3) by (simp add: wire_matches_def demo_numbers)
  with b ws show ?thesis by blast
qed

text \<open>
  C17: the shares reported to the indexer are the amounts the program pays. For a premium that fits
  64 bits and entries of at most 10,000 basis points, the shares computed off chain are one per
  counted entry of the endpoint, have the kinds of these entries in order and, amount by amount,
  equal the program's 128-bit fee computation; if moreover the counted entries sum to at most 10,000
  basis points, the shares together never exceed the premium.
\<close>

theorem shares_match_program:
  fixes premium :: "64 word"
  assumes "computeFeeSharesForEvent ctx acct (uint premium) cfg s = (s', Inr shares)"
    and "\<forall>r \<in> set (ec_feeRecipients cfg). 0 \<le> fr_bps r \<and> fr_bps r \<le> 10000"
    and "rs = take (nat (ec_feeRecipientCount cfg)) (ec_feeRecipients cfg)"
  shows "length shares = nat (ec_feeRecipientCount cfg)
    \<and> List.map sh_kind shares = List.map fr_kind rs
    \<and> List.map sh_amount shares = List.map (\<lambda>r. uint (program_fee premium (word_of_int (fr_bps r)))) rs
    \<and> (sum_list (List.map fr_bps rs) \<le> 10000 \<longrightarrow> sum_list (List.map sh_amount shares) \<le> uint premium)"
proof -
  have ok: "nat (ec_feeRecipientCount cfg) \<le> length (ec_feeRecipients cfg)" "length shares = nat (ec_feeRecipientCount cfg)"
    "\<And>i. i < nat (ec_feeRecipientCount cfg) \<Longrightarrow> sh_kind (shares ! i) = fr_kind (ec_feeRecipients cfg ! i) \<and>
       sh_amount (shares ! i) = fee_share (uint premium) (fr_bps (ec_feeRecipients cfg ! i))"
    using fee_shares_ok [OF assms(1) [unfolded computeFeeSharesForEvent_def]] by auto
  have len: "length rs = nat (ec_feeRecipientCount cfg)" using ok(1) assms(3) by simp
  have in_rs: "r \<in> set (ec_feeRecipients cfg)" if "r \<in> set rs" for r
    using that unfolding assms(3) by (rule in_set_takeD)
  have kinds: "List.map sh_kind shares = List.map fr_kind rs"
    by (rule nth_equalityI) (use ok len assms(3) in auto)
  have am: "List.map sh_amount shares = List.map (fee_share (uint premium)) (List.map fr_bps rs)"
    by (rule nth_equalityI) (use ok len assms(3) in auto)
  have "fee_share (uint premium) (fr_bps r) = uint (program_fee premium (word_of_int (fr_bps r)))" if "r \<in> set rs" for r
  proof -
    have b: "0 \<le> fr_bps r" "fr_bps r \<le> 10000" using assms(2) in_rs [OF that] by auto
    have "uint (word_of_int (fr_bps r) :: 16 word) = fr_bps r" using b by (intro uint_u16) auto
    then show ?thesis using fee_share_program [of "word_of_int (fr_bps r)" premium] b by simp
  qed
  then have "List.map sh_amount shares = List.map (\<lambda>r. uint (program_fee premium (word_of_int (fr_bps r)))) rs"
    unfolding am by simp
  moreover have "sum_list (List.map sh_amount shares) \<le> uint premium" if "sum_list (List.map fr_bps rs) \<le> 10000"
    unfolding am by (rule fee_sum_bound) (use assms(2) in_rs that in auto)
  ultimately show ?thesis using kinds ok(2) by blast
qed

theorem shares_match_program_witness:
  "\<exists>s' shares. computeFeeSharesForEvent demo_ctx demo_acct (uint (500 :: 64 word)) demo_config demo_state = (s', Inr shares)
     \<and> List.map sh_amount shares = [uint (program_fee 500 1000)] \<and> sum_list (List.map sh_amount shares) \<le> 500"
proof -
  have c: "computeFeeSharesForEvent demo_ctx demo_acct (uint (500 :: 64 word)) demo_config demo_state = (demo_state, Inr [demo_share])"
    using demo_shares by simp
  have h: "\<forall>r \<in> set (ec_feeRecipients demo_config). 0 \<le> fr_bps r \<and> fr_bps r \<le> 10000"
    by (simp_all add: demo_config_fields)
  from shares_match_program [OF c h refl] show ?thesis using c by (auto simp: demo_config_fields)
qed

lemma retry_loop_facts:
  assumes "retry_loop send lookup hasPdas attempt left lastErr = (sent, r)"
  shows "sorted_wrt (<) sent \<and> set sent \<subseteq> {attempt ..< attempt + left}
    \<and> (\<forall>k \<in> set sent. hasPdas \<and> 1 < k \<longrightarrow> lookup k = Inr None)
    \<and> (case r of
         Inr sig \<Rightarrow> (sent \<noteq> [] \<and> send (last sent) = Inr sig \<or>
                     hasPdas \<and> (\<exists>k. 1 < k \<and> attempt \<le> k \<and> k < attempt + left \<and> lookup k = Inr (Some sig) \<and> k \<notin> set sent))
           \<and> (\<forall>k \<in> set sent. (\<exists>e. send k = Inl e) \<or> k = last sent \<and> send k = Inr sig)
       | Inl e \<Rightarrow> \<forall>k \<in> set sent. \<exists>e. send k = Inl e)"
  using assms
proof (induction send lookup hasPdas attempt left lastErr arbitrary: sent r rule: retry_loop.induct)
  case (2 send lookup hasPdas attempt left lastErr)
  obtain sn res where a: "attempt_send send lookup hasPdas attempt = (sn, res)" by force
  have sn: "sn = [] \<or> sn = [attempt] \<and> res = send attempt" "\<And>x. sn = [attempt] \<Longrightarrow> attempt > 1 \<Longrightarrow> hasPdas \<Longrightarrow> lookup attempt = Inr None"
    "\<And>sig. sn = [] \<Longrightarrow> res = Inr sig \<Longrightarrow> attempt > 1 \<and> hasPdas \<and> lookup attempt = Inr (Some sig)"
    using a by (auto simp: attempt_send_def split: if_splits sum.splits option.splits)
  show ?case
  proof (cases res)
    case (Inr sig)
    with 2(2) a have out: "sent = sn" "r = Inr sig" by auto
    show ?thesis
    proof (cases "sn = []")
      case True
      with sn(3) Inr show ?thesis by (auto simp: out)
    next
      case False
      then have "sn = [attempt]" "send attempt = Inr sig" using sn(1) Inr by auto
      then show ?thesis using sn(2) by (auto simp: out)
    qed
  next
    case (Inl e)
    obtain sent' r' where r': "retry_loop send lookup hasPdas (attempt + 1) left e = (sent', r')" by force
    with 2(2) a Inl have out: "sent = sn @ sent'" "r = r'" by auto
    note ih = 2(1) [OF a [symmetric] Inl r']
    show ?thesis
    proof (cases "sn = []")
      case True
      with ih show ?thesis by (cases r') (auto simp: out)
    next
      case False
      then have "sn = [attempt]" "send attempt = Inl e" using sn(1) Inl by auto
      then show ?thesis using ih sn(2) by (cases r') (auto simp: out)
    qed
  qed
qed auto

lemma retry_loop_unseen:
  assumes "retry_loop send lookup hasPdas attempt left lastErr = (sent, Inl e)" "hasPdas"
    and "1 < k" "attempt \<le> k" "k < attempt + left"
  shows "lookup k \<noteq> Inr (Some sig)"
  using assms
proof (induction send lookup hasPdas attempt left lastErr arbitrary: sent rule: retry_loop.induct)
  case (2 send lookup hasPdas attempt left lastErr)
  obtain sn res where a: "attempt_send send lookup hasPdas attempt = (sn, res)" by force
  then obtain e' where res: "res = Inl e'" using 2(2) by (cases res) auto
  obtain sent' where l: "retry_loop send lookup hasPdas (attempt + 1) left e' = (sent', Inl e)"
    using 2(2) a res by (auto split: prod.splits)
  show ?case
  proof (cases "k = attempt")
    case True
    then show ?thesis using a res 2(3,4) by (auto simp: attempt_send_def)
  next
    case False
    then show ?thesis using 2(1) [OF a [symmetric] res l] 2(3-6) by simp
  qed
qed simp

lemma found_signature:
  "findExistingCallRecordSignature p = Inr (Some sig) \<longleftrightarrow> (\<exists>d rest. fst p = Inr (Some d) \<and> snd p = Inr (sig # rest))"
  "findExistingCallRecordSignature p = Inr None \<longleftrightarrow> fst p = Inr None \<or> (\<exists>d. fst p = Inr (Some d) \<and> snd p = Inr [])"
  by (auto simp: findExistingCallRecordSignature_def split: sum.splits option.splits list.splits)

text \<open>
  C18: when a batch is sent again. Whatever the node answers, the transaction is sent at most
  \<open>maxAttempts\<close> times, at increasing attempts, and every resend follows a check at which the node
  reported no record for the first call, or a record with no signature listed for it. A signature
  that is returned came from the last send, or was the first one listed for the record at a check,
  and every earlier send had failed. Otherwise the error is \<open>BatchSubmitError\<close>, every send failed, and
  no check, the one after the last attempt included, saw a record with a signature.
\<close>

theorem retry_resends_only_unrecorded:
  assumes "sendWithRetry send node n (pda # pdas) = (sent, r)" and "0 < n"
  shows "sorted_wrt (<) sent \<and> set sent \<subseteq> {1..n}
    \<and> (\<forall>k \<in> set sent. 1 < k \<longrightarrow> fst (node pda k) = Inr None
          \<or> (\<exists>d. fst (node pda k) = Inr (Some d)) \<and> snd (node pda k) = Inr [])
    \<and> (case r of
         Inr sig \<Rightarrow> (\<forall>k \<in> set sent. (\<exists>e. send k = Inl e) \<or> k = last sent \<and> send k = Inr sig)
           \<and> (sent \<noteq> [] \<and> send (last sent) = Inr sig
              \<or> (\<exists>k d rest. 1 < k \<and> k \<le> n + 1 \<and> k \<notin> set sent
                    \<and> fst (node pda k) = Inr (Some d) \<and> snd (node pda k) = Inr (sig # rest)))
       | Inl e \<Rightarrow> (\<exists>m. e = BatchSubmitError m) \<and> (\<forall>k \<in> set sent. \<exists>e. send k = Inl e)
           \<and> (\<forall>k. 1 < k \<and> k \<le> n + 1 \<longrightarrow>
                \<not> (\<exists>d sig rest. fst (node pda k) = Inr (Some d) \<and> snd (node pda k) = Inr (sig # rest))))"
proof -
  let ?lookup = "\<lambda>k. findExistingCallRecordSignature (node pda k)"
  obtain sent' r' where l: "retry_loop send ?lookup True 1 n ''undefined'' = (sent', r')" by force
  have s: "sent = sent'" using assms l by (auto simp: sendWithRetry_def split: sum.splits)
  note f = retry_loop_facts [OF l, unfolded s [symmetric]]
  have sends: "sorted_wrt (<) sent" "set sent \<subseteq> {1..n}"
    "\<forall>k \<in> set sent. 1 < k \<longrightarrow> fst (node pda k) = Inr None
          \<or> (\<exists>d. fst (node pda k) = Inr (Some d)) \<and> snd (node pda k) = Inr []"
    using f by (auto simp: found_signature)
  show ?thesis
  proof (cases r')
    case (Inr sig)
    then have r: "r = Inr sig" using assms l by (simp add: sendWithRetry_def)
    have ends: "sent \<noteq> [] \<and> send (last sent) = Inr sig \<or> (\<exists>k d rest. 1 < k \<and> k \<le> n + 1 \<and> k \<notin> set sent
        \<and> fst (node pda k) = Inr (Some d) \<and> snd (node pda k) = Inr (sig # rest))"
    proof (cases "sent \<noteq> [] \<and> send (last sent) = Inr sig")
      case False
      then obtain k where k: "1 < k" "k < 1 + n" "?lookup k = Inr (Some sig)" "k \<notin> set sent" using f Inr by auto
      then obtain d rest where "fst (node pda k) = Inr (Some d)" "snd (node pda k) = Inr (sig # rest)"
        by (auto simp: found_signature)
      moreover have "k \<le> n + 1" using k(2) by simp
      ultimately show ?thesis using k(1,4) by blast
    qed simp
    show ?thesis unfolding r using sends ends f Inr by simp
  next
    case (Inl e)
    then have r: "r = (case ?lookup (n + 1) of Inr (Some sig) \<Rightarrow> Inr sig | _ \<Rightarrow> Inl (BatchSubmitError e))"
      using assms l by (simp add: sendWithRetry_def)
    have fresh: "n + 1 \<notin> set sent" using f by auto
    show ?thesis
    proof (cases "\<exists>sig. ?lookup (n + 1) = Inr (Some sig)")
      case True
      then obtain sig where sig: "?lookup (n + 1) = Inr (Some sig)" by blast
      then obtain d rest where "1 < n + 1" "n + 1 \<le> n + 1" "fst (node pda (n + 1)) = Inr (Some d)" "snd (node pda (n + 1)) = Inr (sig # rest)"
        using assms(2) by (auto simp: found_signature)
      with fresh have "\<exists>k d rest. 1 < k \<and> k \<le> n + 1 \<and> k \<notin> set sent
          \<and> fst (node pda k) = Inr (Some d) \<and> snd (node pda k) = Inr (sig # rest)" by blast
      with f Inl sig sends show ?thesis unfolding r by simp
    next
      case False
      then have "r = Inl (BatchSubmitError e)" unfolding r by (auto split: sum.splits option.splits)
      moreover have "\<not> (\<exists>d sig rest. fst (node pda k) = Inr (Some d) \<and> snd (node pda k) = Inr (sig # rest))"
        if "1 < k" "k \<le> n + 1" for k
      proof -
        have "?lookup k \<noteq> Inr (Some sig)" for sig
          using retry_loop_unseen [OF l [unfolded Inl] _ that(1)] False that by (cases "k = n + 1") auto
        then show ?thesis by (auto simp: found_signature)
      qed
      ultimately show ?thesis using f Inl sends by simp
    qed
  qed
qed

theorem retry_resends_only_unrecorded_witness:
  "fst (sendWithRetry (\<lambda>_. Inl ''timeout'') (\<lambda>_ k. (Inr (Some []), Inr (if k = 3 then [''sig''] else []))) 3 [[0]]) = [1, 2]
   \<and> set [1, 2 :: nat] \<subseteq> {1..3}"
proof -
  let ?n = "\<lambda>_ k. (Inr (Some []), Inr (if k = 3 then [''sig''] else [])) :: record_probe"
  have r: "sendWithRetry (\<lambda>_. Inl ''timeout'') ?n 3 [[0]] = ([1, 2], Inr ''sig'')"
    by (simp add: sendWithRetry_def numeral_3_eq_3 attempt_send_def findExistingCallRecordSignature_def)
  from retry_resends_only_unrecorded [OF r] show ?thesis using r by simp
qed

text \<open>
  A landed batch can be reported as failed. When the first send lands but its answer is lost, and the
  node knows the record but lists no signature for it, the batch is sent again at every attempt and
  ends in \<open>BatchSubmitError\<close>, although the record is there at every check.
\<close>

theorem landed_unlisted_batch_fails:
  assumes "\<forall>k. \<exists>e. send k = Inl e" and "\<forall>k. \<exists>d. node pda k = (Inr (Some d), Inr [])"
  shows "fst (sendWithRetry send node 3 (pda # pdas)) = [1, 2, 3]
     \<and> (\<exists>e. snd (sendWithRetry send node 3 (pda # pdas)) = Inl (BatchSubmitError e))"
proof -
  obtain e1 e2 e3 where "send 1 = Inl e1" "send 2 = Inl e2" "send 3 = Inl e3" using assms(1) by blast
  moreover have "findExistingCallRecordSignature (node pda k) = Inr None" for k
    using assms(2) [rule_format, of k] by (auto simp: findExistingCallRecordSignature_def)
  ultimately show ?thesis by (simp add: sendWithRetry_def numeral_3_eq_3 numeral_2_eq_2 attempt_send_def)
qed

text \<open>
  A regrouped redelivery is reported as settled without being settled. Only the first event's
  call record is looked up. So when a batch holds an event that already landed, in front of others
  that never did, the program refuses every send (the duplicate aborts the transaction), the lookup
  of the first record finds the old signature, and the submitter returns it as the signature of the
  whole batch with shares for every message.
\<close>

theorem regrouped_batch_reported_settled:
  assumes "legacy_build ctx acct date_parse clock batch s = (s', Inr (ix, pdas, shares))" and "pdas \<noteq> []"
    and "\<forall>k. \<exists>e. send ix k = Inl e" and "\<forall>k. \<exists>d rest. node (hd pdas) k = (Inr (Some d), Inr (old # rest))"
  shows "submitLegacyDirect ctx acct date_parse clock send node batch s =
     (s', Inr \<lparr>so_signature = old, so_perEventShares = shares\<rparr>)"
proof -
  have "snd (sendWithRetry (send ix) node 3 pdas) = Inr old"
  proof -
    obtain e where "send ix 1 = Inl e" using assms(3) by blast
    moreover have "findExistingCallRecordSignature (node (hd pdas) k) = Inr (Some old)" for k
      using assms(4) [rule_format, of k] by (auto simp: findExistingCallRecordSignature_def)
    ultimately show ?thesis using assms(2) by (simp add: sendWithRetry_def numeral_3_eq_3 attempt_send_def)
  qed
  then show ?thesis using assms(1,2) by (simp add: submitLegacyDirect_def sub_bind_def)
qed

theorem regrouped_batch_reported_settled_witness:
  "map_sum id so_signature (snd (submitLegacyDirect demo_ctx demo_acct (\<lambda>_. None) (\<lambda>_. 0)
      (\<lambda>_ _. Inl ''DuplicateCallId'') (\<lambda>_ _. (Inr (Some []), Inr [''old''])) [demo_message] demo_state)) = Inr ''old''"
proof -
  let ?pdas = "[fst (demo_find [ascii ''call'', replicate 16 0x11] (replicate 32 12))]"
  obtain s' ix where b: "legacy_build demo_ctx demo_acct (\<lambda>_. None) (\<lambda>_. 0) [demo_message] demo_state =
      (s', Inr (ix, ?pdas, [[demo_share]]))" using demo_build by blast
  have "?pdas \<noteq> []" "\<forall>k. \<exists>e. (\<lambda>_ _. Inl ''DuplicateCallId'' :: string + string) ix k = Inl e"
    "\<forall>k. \<exists>d rest. (\<lambda>_ _. (Inr (Some []), Inr [''old'']) :: record_probe) (hd ?pdas) k = (Inr (Some d), Inr (''old'' # rest))" by simp_all
  from regrouped_batch_reported_settled [OF b this] show ?thesis by simp
qed

end
