(* ===== verification/Pusher.thy ===== *)
theory Pusher
  imports Submitter
begin

text \<open>
  \<open>packages/settler/src/indexer/indexer-pusher.service.ts\<close>: the body posted to the indexer after a
  batch is confirmed, and the retry around the request. The time of the push is an argument, and so
  is the answer to each request.
\<close>

definition js_String :: "json option \<Rightarrow> string" where
  "js_String v = (case v of None \<Rightarrow> ''undefined'' | Some j \<Rightarrow> string_of_json j)"

definition resolveBatchNetwork :: "settle_batch \<Rightarrow> string option" where
  "resolveBatchNetwork batch =
     (let network = (case batch of [] \<Rightarrow> ''solana-devnet'' | m # _ \<Rightarrow> message_network m) in
      if list_all (\<lambda>m. message_network m = network) batch then Some network else None)"

definition assertSingleSlug :: "settle_batch \<Rightarrow> unit option" where
  "assertSingleSlug batch =
     (case batch of [] \<Rightarrow> Some ()
      | first # _ \<Rightarrow> if list_all (\<lambda>m. message_slug m = message_slug first) batch then Some () else None)"

definition share_json :: "recipient_share \<Rightarrow> json" where
  "share_json s = JObj [(''kind'', JNum (sh_kind s)), (''pubkey'', JStr (sh_pubkey s)),
     (''amountLamports'', JStr (string_of_int (sh_amount s)))]"

text \<open>The entry of one message; a property the event lacks is \<open>undefined\<close> and omitted.\<close>

definition call_entry :: "string \<Rightarrow> string \<Rightarrow> recipient_share list \<Rightarrow> settle_message \<Rightarrow> payload" where
  "call_entry signature settledAt shares m =
     (let d = sm_data m in obj_of
        [(''callId'', get_prop d ''callId''), (''agentPubkey'', get_prop d ''agentPubkey''),
         (''endpointSlug'', get_prop d ''endpointSlug''),
         (''premiumLamports'', Some (JStr (js_String (get_prop d ''premiumLamports'')))),
         (''refundLamports'', Some (JStr (string_of_json (nullish (get_prop d ''refundLamports'') (JStr ''0''))))),
         (''latencyMs'', get_prop d ''latencyMs''),
         (''outcome'', Some (nullish (get_prop d ''outcome'') (JStr ''ok''))),
         (''source'', get_prop d ''source''), (''verdictSource'', get_prop d ''verdictSource''),
         (''payee'', get_prop d ''payee''), (''resource'', get_prop d ''resource''),
         (''network'', Some (nullish (get_prop d ''network'') (JStr ''solana-devnet''))),
         (''ts'', get_prop d ''ts''), (''settledAt'', Some (JStr settledAt)), (''signature'', Some (JStr signature)),
         (''shares'', Some (JArr (List.map share_json shares)))])"

text \<open>\<open>calls.reduce((sum, c) => sum + BigInt(c[k]), 0n)\<close>; \<open>None\<close> when \<open>BigInt\<close> throws.\<close>

fun sum_bigint :: "string \<Rightarrow> payload list \<Rightarrow> int option" where
  "sum_bigint k [] = Some 0"
| "sum_bigint k (c # cs) =
     (case bigint_of_json (get_prop c k) of None \<Rightarrow> None
      | Some v \<Rightarrow> map_option (\<lambda>t. v + t) (sum_bigint k cs))"

definition nth_shares :: "recipient_share list list \<Rightarrow> nat \<Rightarrow> recipient_share list" where
  "nth_shares ss i = (if i < length ss then ss ! i else [])"

definition push_calls :: "settlement_outcome \<Rightarrow> string \<Rightarrow> settle_batch \<Rightarrow> payload list" where
  "push_calls oc settledAt batch =
     List.map (\<lambda>(i, m). call_entry (so_signature oc) settledAt (nth_shares (so_perEventShares oc) i) m) (enumerate 0 batch)"

definition push_body :: "settlement_outcome \<Rightarrow> string \<Rightarrow> settle_batch \<Rightarrow> payload option" where
  "push_body oc settledAt batch =
     (case resolveBatchNetwork batch of None \<Rightarrow> None
      | Some network \<Rightarrow> (case assertSingleSlug batch of None \<Rightarrow> None
        | Some _ \<Rightarrow>
            let calls = push_calls oc settledAt batch in
            case sum_bigint ''premiumLamports'' calls of None \<Rightarrow> None
            | Some premiums \<Rightarrow> (case sum_bigint ''refundLamports'' calls of None \<Rightarrow> None
              | Some refunds \<Rightarrow> Some
                  [(''signature'', JStr (so_signature oc)), (''network'', JStr network),
                   (''batchSize'', JNum (int (length batch))),
                   (''totalPremiumsLamports'', JStr (string_of_int premiums)),
                   (''totalRefundsLamports'', JStr (string_of_int refunds)),
                   (''ts'', JStr settledAt), (''calls'', JArr (List.map JObj calls))])))"

datatype push_result = PushOk | IndexerPushError | PushThrows

text \<open>\<open>post k\<close>: whether the \<open>k\<close>-th request succeeded.\<close>

fun postWithRetry :: "(nat \<Rightarrow> bool) \<Rightarrow> nat \<Rightarrow> nat \<Rightarrow> push_result" where
  "postWithRetry post attempt 0 = IndexerPushError"
| "postWithRetry post attempt (Suc left) = (if post attempt then PushOk else postWithRetry post (attempt + 1) left)"

definition pusher_push :: "(payload \<Rightarrow> nat \<Rightarrow> bool) \<Rightarrow> string \<Rightarrow> settlement_outcome \<Rightarrow> settle_batch \<Rightarrow> push_result" where
  "pusher_push post settledAt oc batch =
     (case push_body oc settledAt batch of None \<Rightarrow> PushThrows
      | Some body \<Rightarrow> postWithRetry (post body) 1 3)"

section \<open>Lemmas\<close>

lemma uniform_resolves:
  assumes "uniform b"
  shows "resolveBatchNetwork b \<noteq> None \<and> assertSingleSlug b = Some ()"
proof (cases b)
  case (Cons m ms)
  have "m \<in> set b" by (simp add: Cons)
  then have k: "\<forall>x \<in> set b. message_network x = message_network m \<and> message_slug x = message_slug m"
    using assms unfolding uniform_def group_key_def by blast
  then have "list_all (\<lambda>x. message_network x = message_network m) b" "list_all (\<lambda>x. message_slug x = message_slug m) b"
    unfolding list_all_iff by blast+
  then show ?thesis by (simp add: Cons resolveBatchNetwork_def assertSingleSlug_def)
qed (simp add: resolveBatchNetwork_def assertSingleSlug_def)

text \<open>An amount that is a string or a number: what \<open>String(...)\<close> carries is what \<open>BigInt\<close> read.\<close>

definition textual :: "json option \<Rightarrow> bool" where
  "textual v \<longleftrightarrow> (case v of Some (JStr _) \<Rightarrow> True | Some (JNum _) \<Rightarrow> True | _ \<Rightarrow> False)"

lemma textual_bigint:
  "textual v \<Longrightarrow> bigint_of_json (Some (JStr (js_String v))) = bigint_of_json v"
  by (auto simp: textual_def js_String_def split: option.splits json.splits)

lemma get_prop_obj_Cons:
  "get_prop (obj_of ((k', v) # kvs)) k =
     (if k' = k \<and> v \<noteq> None then v else get_prop (obj_of kvs) k)"
  by (cases v) (simp_all add: get_prop_def)

lemma call_entry_props:
  "get_prop (call_entry sg at ss m) ''premiumLamports'' = Some (JStr (js_String (get_prop (sm_data m) ''premiumLamports'')))"
  "get_prop (call_entry sg at ss m) ''refundLamports'' =
     Some (JStr (string_of_json (nullish (get_prop (sm_data m) ''refundLamports'') (JStr ''0''))))"
  by (simp_all add: call_entry_def Let_def get_prop_obj_Cons del: get_prop_obj_of obj_of.simps)

lemma sum_bigint_ok:
  assumes "\<forall>i < length cs. bigint_of_json (get_prop (cs ! i) k) = Some (vs ! i)" and "length vs = length cs"
  shows "sum_bigint k cs = Some (sum_list vs)"
  using assms
proof (induction cs arbitrary: vs)
  case (Cons c cs)
  obtain v vs' where vs: "vs = v # vs'" using Cons.prems(2) by (cases vs) auto
  have "bigint_of_json (get_prop c k) = Some v" using Cons.prems(1) vs by fastforce
  moreover have "sum_bigint k cs = Some (sum_list vs')"
    using Cons.IH [of vs'] Cons.prems vs by fastforce
  ultimately show ?case by (simp add: vs)
qed simp

lemma push_calls_nth:
  "i < length batch \<Longrightarrow> push_calls oc at batch ! i = call_entry (so_signature oc) at (nth_shares (so_perEventShares oc) i) (batch ! i)"
  by (simp add: push_calls_def nth_enumerate_eq)

lemma push_body_totals:
  assumes u: "uniform batch" and b: "batch \<noteq> []"
    and p: "\<forall>m \<in> set batch. textual (get_prop (sm_data m) ''premiumLamports'') \<and>
        bigint_of_json (get_prop (sm_data m) ''premiumLamports'') = Some (prem m)"
    and r: "\<forall>m \<in> set batch. textual (Some (nullish (get_prop (sm_data m) ''refundLamports'') (JStr ''0''))) \<and>
        bigint_of_json (Some (nullish (get_prop (sm_data m) ''refundLamports'') (JStr ''0''))) = Some (refd m)"
  shows "\<exists>body. push_body oc at batch = Some body
     \<and> get_prop body ''network'' = Some (JStr (message_network (hd batch)))
     \<and> get_prop body ''totalPremiumsLamports'' = Some (JStr (string_of_int (sum_list (List.map prem batch))))
     \<and> get_prop body ''totalRefundsLamports'' = Some (JStr (string_of_int (sum_list (List.map refd batch))))
     \<and> get_prop body ''calls'' = Some (JArr (List.map JObj (push_calls oc at batch)))"
proof -
  let ?calls = "push_calls oc at batch"
  have len: "length ?calls = length batch" by (simp add: push_calls_def)
  have "bigint_of_json (get_prop (?calls ! i) ''premiumLamports'') = Some (List.map prem batch ! i)"
    "bigint_of_json (get_prop (?calls ! i) ''refundLamports'') = Some (List.map refd batch ! i)" if "i < length batch" for i
  proof -
    have m: "batch ! i \<in> set batch" using that by simp
    show "bigint_of_json (get_prop (?calls ! i) ''premiumLamports'') = Some (List.map prem batch ! i)"
      unfolding push_calls_nth [OF that] call_entry_props using p m that textual_bigint by simp
    show "bigint_of_json (get_prop (?calls ! i) ''refundLamports'') = Some (List.map refd batch ! i)"
      unfolding push_calls_nth [OF that] call_entry_props
      using r m that textual_bigint [of "Some (nullish (get_prop (sm_data (batch ! i)) ''refundLamports'') (JStr ''0''))"]
      by (simp add: js_String_def)
  qed
  then have s: "sum_bigint ''premiumLamports'' ?calls = Some (sum_list (List.map prem batch))"
    "sum_bigint ''refundLamports'' ?calls = Some (sum_list (List.map refd batch))"
    using len by (simp_all add: sum_bigint_ok)
  obtain n where n: "resolveBatchNetwork batch = Some n" "assertSingleSlug batch = Some ()"
    using uniform_resolves [OF u] by blast
  then have "n = message_network (hd batch)"
    using b by (cases batch) (auto simp: resolveBatchNetwork_def Let_def split: if_splits)
  with n s show ?thesis by (simp add: push_body_def Let_def get_prop_def)
qed

lemma post_attempts: "postWithRetry post attempt left = PushOk \<longleftrightarrow> (\<exists>k. attempt \<le> k \<and> k < attempt + left \<and> post k)"
proof (induction post attempt left rule: postWithRetry.induct)
  case (2 post attempt left)
  show ?case
  proof (cases "post attempt")
    case False
    then have "(\<exists>k. attempt \<le> k \<and> k < attempt + Suc left \<and> post k) \<longleftrightarrow> (\<exists>k. attempt + 1 \<le> k \<and> k < attempt + 1 + left \<and> post k)"
      by (metis Suc_eq_plus1 add_Suc_right add_Suc le_neq_implies_less not_less_eq_eq Suc_leD less_eq_Suc_le)
    with 2 False show ?thesis by simp
  qed (auto intro: exI [of _ attempt])
qed simp

end
