(* ===== verification/Pipeline.thy ===== *)
theory Pipeline
  imports Pusher
begin

text \<open>
  \<open>packages/settler/src/pipeline/pipeline.service.ts\<close>: what becomes of every message. The state holds
  the batcher, the submitter's caches, the batches in flight and a log of fates. A batch stays in
  flight until the event that completes it, so batches may finish in any order and messages may
  arrive meanwhile; the submit and the push of one batch are one step. The environment of a batch
  holds the answers it gets from the node, the chain adapters and the indexer. Metrics are left out.
\<close>

record settle_env =
  en_acct :: accounts
  en_clock :: "string \<Rightarrow> int"
  en_send :: "tx_instruction \<Rightarrow> nat \<Rightarrow> string + string"
  en_node :: "pubkey \<Rightarrow> nat \<Rightarrow> record_probe"
  en_adapters :: "string \<rightharpoonup> chain_adapter"
  en_post :: "payload \<Rightarrow> nat \<Rightarrow> bool"
  en_settledAt :: string

text \<open>
  \<open>Unresolved\<close>: an error escaped, so the message is neither acknowledged nor nacked. \<open>Dropped\<close>: it
  arrived during the shutdown. \<open>Refused\<close>: the batcher threw on its premium.
\<close>

datatype fate = Acked | Nacked | Unresolved | Dropped | Refused

record settler_config =
  cf_solana :: solana_ctx
  cf_date_parse :: "string \<Rightarrow> int option"
  cf_legacyDirect :: bool

definition submit_batch :: "settler_config \<Rightarrow> settle_env \<Rightarrow> settle_batch \<Rightarrow> settlement_outcome sub" where
  "submit_batch cf env batch =
     submit (cf_solana cf) (en_acct env) (cf_date_parse cf) (en_clock env) (en_send env) (en_node env)
       (cf_legacyDirect cf) (en_adapters env) batch"

definition push_fate :: "push_result \<Rightarrow> fate" where
  "push_fate r = (case r of PushOk \<Rightarrow> Acked | IndexerPushError \<Rightarrow> Nacked | PushThrows \<Rightarrow> Unresolved)"

definition processBatch :: "settler_config \<Rightarrow> settle_env \<Rightarrow> settle_batch \<Rightarrow> submitter \<Rightarrow> submitter \<times> fate" where
  "processBatch cf env batch su =
     (case submit_batch cf env batch su of
        (su', Inl (SkipBatchError n)) \<Rightarrow> (su', Acked)
      | (su', Inl (BatchSubmitError e)) \<Rightarrow> (invalidateCacheForBatch batch su', Nacked)
      | (su', Inl (OtherError e)) \<Rightarrow> (su', Unresolved)
      | (su', Inr oc) \<Rightarrow> (su', push_fate (pusher_push (en_post env) (en_settledAt env) oc batch)))"

record pipeline =
  pl_batcher :: batcher
  pl_submitter :: submitter
  pl_inflight :: "settle_batch list"
  pl_shuttingDown :: bool
  pl_log :: "(settle_message \<times> fate) list"

datatype pipeline_event = OnMessage settle_message | OnTimer | OnDestroy | OnComplete nat settle_env

definition log_all :: "fate \<Rightarrow> settle_message list \<Rightarrow> pipeline \<Rightarrow> pipeline" where
  "log_all f ms s = s\<lparr>pl_log := pl_log s @ List.map (\<lambda>m. (m, f)) ms\<rparr>"

fun do_action :: "pipeline \<Rightarrow> batcher_action \<Rightarrow> pipeline" where
  "do_action s (AckMessage m) = log_all Acked [m] s"
| "do_action s (FlushBatch b) = s\<lparr>pl_inflight := pl_inflight s @ [b]\<rparr>"

definition do_actions :: "batcher \<times> batcher_action list \<Rightarrow> pipeline \<Rightarrow> pipeline" where
  "do_actions r s = foldl do_action (s\<lparr>pl_batcher := fst r\<rparr>) (snd r)"

definition on_message :: "settle_message \<Rightarrow> pipeline \<Rightarrow> pipeline" where
  "on_message m s =
     (if pl_shuttingDown s then log_all Dropped [m] s
      else case push m (pl_batcher s) of Inl e \<Rightarrow> log_all Refused [m] s | Inr r \<Rightarrow> do_actions r s)"

definition onModuleDestroy :: "pipeline \<Rightarrow> pipeline" where
  "onModuleDestroy s = do_actions (flush (pl_batcher s)) (s\<lparr>pl_shuttingDown := True\<rparr>)"

text \<open>\<open>runTrackedBatch\<close>: the batch leaves the set of batches in flight whatever happened to it.\<close>

definition complete_batch :: "settler_config \<Rightarrow> nat \<Rightarrow> settle_env \<Rightarrow> pipeline \<Rightarrow> pipeline" where
  "complete_batch cf i env s =
     (if i < length (pl_inflight s) then
        let batch = pl_inflight s ! i in
        case processBatch cf env batch (pl_submitter s) of (su, f) \<Rightarrow>
          log_all f batch (s\<lparr>pl_submitter := su,
            pl_inflight := take i (pl_inflight s) @ drop (Suc i) (pl_inflight s)\<rparr>)
      else s)"

fun pipeline_step :: "settler_config \<Rightarrow> pipeline \<Rightarrow> pipeline_event \<Rightarrow> pipeline" where
  "pipeline_step cf s (OnMessage m) = on_message m s"
| "pipeline_step cf s OnTimer = do_actions (batcher_step (pl_batcher s) TimerFires) s"
| "pipeline_step cf s OnDestroy = onModuleDestroy s"
| "pipeline_step cf s (OnComplete i env) = complete_batch cf i env s"

definition pipeline_run :: "settler_config \<Rightarrow> pipeline \<Rightarrow> pipeline_event list \<Rightarrow> pipeline" where
  "pipeline_run cf s evs = foldl (pipeline_step cf) s evs"

text \<open>\<open>onModuleInit\<close> sets the callbacks; the submitter has initialised itself before.\<close>

definition pipeline_init :: "submitter \<Rightarrow> pipeline" where
  "pipeline_init su = \<lparr>pl_batcher = setFlushCallback batcher_init, pl_submitter = su,
     pl_inflight = [], pl_shuttingDown = False, pl_log = []\<rparr>"

section \<open>Lemmas\<close>

text \<open>Every message in the system: those with a fate, those in flight and those pending.\<close>

definition in_system :: "pipeline \<Rightarrow> settle_message multiset" where
  "in_system s = image_mset fst (mset (pl_log s)) + mset (concat (pl_inflight s)) + mset (bt_pending (pl_batcher s))"

definition arrivals :: "pipeline_event list \<Rightarrow> settle_message multiset" where
  "arrivals evs = mset (concat (List.map (\<lambda>ev. case ev of OnMessage m \<Rightarrow> [m] | _ \<Rightarrow> []) evs))"

definition pl_inv :: "pipeline \<Rightarrow> bool" where
  "pl_inv s \<longleftrightarrow> batcher_ok (pl_batcher s) \<and> (\<forall>b \<in> set (pl_inflight s). batch_ok b) \<and>
     (pl_shuttingDown s \<longrightarrow> bt_pending (pl_batcher s) = [])"

lemma log_all_simps [simp]:
  "pl_log (log_all f ms s) = pl_log s @ List.map (\<lambda>m. (m, f)) ms" "pl_batcher (log_all f ms s) = pl_batcher s"
  "pl_inflight (log_all f ms s) = pl_inflight s" "pl_shuttingDown (log_all f ms s) = pl_shuttingDown s"
  by (simp_all add: log_all_def)

lemma do_action_frame [simp]:
  "pl_batcher (do_action s a) = pl_batcher s" "pl_shuttingDown (do_action s a) = pl_shuttingDown s"
  "pl_submitter (do_action s a) = pl_submitter s"
  by (cases a; simp add: log_all_def)+

lemma do_action_fold:
  "pl_log (foldl do_action s as) = pl_log s @ concat (List.map (\<lambda>a. case a of AckMessage m \<Rightarrow> [(m, Acked)] | FlushBatch b \<Rightarrow> []) as)"
  "pl_inflight (foldl do_action s as) = pl_inflight s @ batches_of as"
  "pl_batcher (foldl do_action s as) = pl_batcher s"
  "pl_shuttingDown (foldl do_action s as) = pl_shuttingDown s"
  "pl_submitter (foldl do_action s as) = pl_submitter s"
  by (induction as arbitrary: s) (auto simp: log_all_def batches_of_def split: batcher_action.splits)

lemma acks_logged:
  "image_mset fst (mset (concat (List.map (\<lambda>a. case a of AckMessage m \<Rightarrow> [(m, Acked)] | FlushBatch b \<Rightarrow> []) as))) = acked_of as"
  by (induction as) (auto simp: acked_of_def split: batcher_action.splits)

lemma flushed_batches: "mset (concat (batches_of as)) = flushed_of as"
  by (induction as) (auto simp: flushed_of_def batches_of_def split: batcher_action.splits)

lemma do_actions_system:
  "in_system (do_actions (b, as) s) =
     image_mset fst (mset (pl_log s)) + mset (concat (pl_inflight s)) + (mset (bt_pending b) + acked_of as + flushed_of as)"
  by (simp add: in_system_def do_actions_def do_action_fold acks_logged flushed_batches image_mset_union)

text \<open>Whatever the batcher answers to an event, its actions keep the invariant and lose nothing.\<close>

lemma do_actions_step:
  assumes inv: "pl_inv s" and st: "batcher_step (pl_batcher s) ev = (b, as)"
    and ns: "pl_shuttingDown s \<longrightarrow> bt_pending b = []"
  shows "pl_inv (do_actions (b, as) s) \<and> in_system (do_actions (b, as) s) = in_system s + arrived ev"
proof -
  have ok: "batcher_ok (pl_batcher s)" using inv by (simp add: pl_inv_def)
  note f = batcher_step_facts [OF ok st]
  have "pl_inv (do_actions (b, as) s)"
    using inv f ns unfolding pl_inv_def do_actions_def
    by (auto simp: do_action_fold)
  moreover have "in_system (do_actions (b, as) s) = in_system s + arrived ev"
    unfolding do_actions_system using f by (simp add: in_system_def ac_simps)
  ultimately show ?thesis by blast
qed

lemma in_system_log_all: "in_system (log_all f ms s) = in_system s + mset ms"
  by (simp add: in_system_def image_mset.compositionality comp_def ac_simps)

lemma pl_inv_log_all [simp]: "pl_inv (log_all f ms s) = pl_inv s"
  by (simp add: pl_inv_def)

lemma on_message_step:
  assumes "pl_inv s"
  shows "pl_inv (on_message m s) \<and> in_system (on_message m s) = in_system s + {#m#}"
proof (cases "pl_shuttingDown s")
  case True
  with assms show ?thesis by (simp add: on_message_def in_system_log_all)
next
  case False
  show ?thesis
  proof (cases "push m (pl_batcher s)")
    case (Inl e)
    with assms False show ?thesis by (simp add: on_message_def in_system_log_all)
  next
    case (Inr r)
    then have "batcher_step (pl_batcher s) (Arrive m) = (fst r, snd r)" by simp
    moreover have "message_premium m \<noteq> None" using Inr by (auto simp: push_def split: option.splits)
    ultimately show ?thesis using do_actions_step [OF assms, of "Arrive m" "fst r" "snd r"] False Inr
      by (simp add: on_message_def)
  qed
qed

lemma flush_empties: "bt_pending (fst (flush s)) = []"
  by (simp add: flush_def Let_def)

lemma destroy_step:
  assumes "pl_inv s"
  shows "pl_inv (onModuleDestroy s) \<and> in_system (onModuleDestroy s) = in_system s \<and> pl_shuttingDown (onModuleDestroy s)"
proof -
  obtain b as where f: "flush (pl_batcher s) = (b, as)" by force
  have e: "bt_pending b = []" using flush_empties [of "pl_batcher s"] by (simp add: f)
  let ?s = "do_actions (b, as) s"
  have d: "onModuleDestroy s = ?s\<lparr>pl_shuttingDown := True\<rparr>"
    by (rule pipeline.equality)
      (simp_all add: onModuleDestroy_def f do_actions_def do_action_fold)
  have "pl_inv ?s \<and> in_system ?s = in_system s"
    using do_actions_step [OF assms, of FlushNow b as] f e by simp
  moreover have "pl_batcher ?s = b" by (simp add: do_actions_def do_action_fold)
  ultimately show ?thesis unfolding d using e by (simp add: pl_inv_def in_system_def)
qed

lemma complete_step:
  assumes inv: "pl_inv s"
  shows "pl_inv (complete_batch cf i env s) \<and> in_system (complete_batch cf i env s) = in_system s"
proof (cases "i < length (pl_inflight s)")
  case True
  let ?b = "pl_inflight s ! i"
  obtain su f where p: "processBatch cf env ?b (pl_submitter s) = (su, f)" by force
  let ?rest = "take i (pl_inflight s) @ drop (Suc i) (pl_inflight s)"
  let ?s = "s\<lparr>pl_submitter := su, pl_inflight := ?rest\<rparr>"
  have r: "complete_batch cf i env s = log_all f ?b ?s" using True p by (simp add: complete_batch_def)
  have "pl_inv (log_all f ?b ?s)" using inv by (auto simp: pl_inv_def dest: in_set_takeD in_set_dropD)
  moreover have "mset (concat (pl_inflight s)) = mset (concat ?rest) + mset ?b"
    by (subst id_take_nth_drop [OF True]) (simp add: ac_simps)
  then have "in_system (log_all f ?b ?s) = in_system s"
    unfolding in_system_log_all by (simp add: in_system_def ac_simps)
  ultimately show ?thesis by (simp add: r)
qed (use inv in \<open>simp add: complete_batch_def\<close>)

lemma pipeline_step_facts:
  assumes "pl_inv s"
  shows "pl_inv (pipeline_step cf s ev) \<and> in_system (pipeline_step cf s ev) = in_system s + arrivals [ev]"
proof (cases ev)
  case OnTimer
  obtain b as where st: "batcher_step (pl_batcher s) TimerFires = (b, as)" by force
  then have "bt_pending b = [] \<or> bt_pending b = bt_pending (pl_batcher s)"
    using flush_empties [of "pl_batcher s"] by (auto split: if_splits)
  then have "pl_shuttingDown s \<longrightarrow> bt_pending b = []" using assms by (auto simp: pl_inv_def)
  from do_actions_step [OF assms st this] show ?thesis by (simp add: OnTimer st arrivals_def del: batcher_step.simps)
qed (use assms in \<open>simp_all add: arrivals_def on_message_step destroy_step complete_step\<close>)

lemma pipeline_run_facts:
  "pl_inv s \<Longrightarrow> pl_inv (pipeline_run cf s evs) \<and> in_system (pipeline_run cf s evs) = in_system s + arrivals evs"
proof (induction evs arbitrary: s)
  case (Cons ev evs)
  note f = pipeline_step_facts [OF Cons.prems, of cf ev]
  have "arrivals (ev # evs) = arrivals [ev] + arrivals evs" by (simp add: arrivals_def)
  with f Cons.IH [of "pipeline_step cf s ev"] show ?case by (simp add: pipeline_run_def ac_simps)
qed (simp add: pipeline_run_def arrivals_def)

lemma pipeline_init_ok: "pl_inv (pipeline_init su)" "in_system (pipeline_init su) = {#}"
  by (simp_all add: pl_inv_def pipeline_init_def batcher_ok_def setFlushCallback_def batcher_init_def MAX_BATCH_SIZE_def in_system_def)

lemma pipeline_step_shutdown: "pl_inv s \<Longrightarrow> pl_shuttingDown s \<Longrightarrow> pl_shuttingDown (pipeline_step cf s ev)"
  by (cases ev)
    (auto simp: on_message_def do_actions_def do_action_fold destroy_step complete_batch_def Let_def split: prod.splits sum.splits)

lemma pipeline_run_shutdown: "pl_inv s \<Longrightarrow> pl_shuttingDown s \<Longrightarrow> pl_shuttingDown (pipeline_run cf s evs)"
  by (induction evs arbitrary: s) (auto simp: pipeline_run_def pipeline_step_shutdown pipeline_step_facts)

text \<open>What a successful submission has read of every message.\<close>

definition amounts_read :: "settle_message \<Rightarrow> bool" where
  "amounts_read m \<longleftrightarrow> bigint_of_json (get_prop (sm_data m) ''premiumLamports'') \<noteq> None \<and>
     bigint_of_json (Some (nullish (get_prop (sm_data m) ''refundLamports'') (JStr ''0''))) \<noteq> None"

lemma all_nthI: "length ys = length xs \<Longrightarrow> (\<And>i. i < length xs \<Longrightarrow> P (xs ! i)) \<Longrightarrow> \<forall>x \<in> set xs. P x"
  by (metis in_set_conv_nth)

lemma message_event_reads: "message_event ctx acct dp snaps m s = (s', Inr e) \<Longrightarrow> amounts_read m"
  by (auto simp: message_event_def sub_ok amounts_read_def)

lemma adapter_message_reads: "adapter_message vm dp hint m s = (s', Inr e) \<Longrightarrow> amounts_read m"
  by (auto simp: adapter_message_def sub_ok amounts_read_def)

lemma sub_map_all:
  assumes "sub_map f xs s = (s', Inr ys)" and "\<And>x s1 s2 y. f x s1 = (s2, Inr y) \<Longrightarrow> P x"
  shows "\<forall>x \<in> set xs. P x"
  using sub_map_ok [OF assms(1)] assms(2) by (metis in_set_conv_nth)

lemma submit_reads:
  assumes "submit_batch cf env batch s = (s', Inr oc)"
  shows "(\<forall>m \<in> set batch. amounts_read m) \<and> length (so_perEventShares oc) = length batch"
proof -
  let ?legacy = "submitLegacyDirect (cf_solana cf) (en_acct env) (cf_date_parse cf) (en_clock env) (en_send env) (en_node env) batch s = (s', Inr oc)"
  have "?legacy \<or> (\<exists>a. submitViaAdapter (cf_solana cf) (en_acct env) (cf_date_parse cf) (en_clock env) a batch s = (s', Inr oc))"
    using assms by (auto simp: submit_batch_def submit_def Let_def split: if_splits option.splits)
  then show ?thesis
  proof
    assume ?legacy
    then obtain s1 ix pdas where b: "legacy_build (cf_solana cf) (en_acct env) (cf_date_parse cf) (en_clock env) batch s =
        (s1, Inr (ix, pdas, so_perEventShares oc))"
      by (auto simp: submitLegacyDirect_def sub_bind_def split: prod.split_asm sum.split_asm)
    then obtain snaps s2 s3 evs where e: "sub_map (message_event (cf_solana cf) (en_acct env) (cf_date_parse cf) snaps) batch s2 = (s3, Inr evs)"
      and "so_perEventShares oc = List.map (snd \<circ> snd) evs"
      by (auto simp: legacy_build_def sub_ok)
    then show ?thesis using sub_map_ok [OF e] sub_map_all [OF e, of amounts_read] message_event_reads by auto
  next
    assume "\<exists>a. submitViaAdapter (cf_solana cf) (en_acct env) (cf_date_parse cf) (en_clock env) a batch s = (s', Inr oc)"
    then obtain a where a: "submitViaAdapter (cf_solana cf) (en_acct env) (cf_date_parse cf) (en_clock env) a batch s = (s', Inr oc)" by blast
    obtain fc s2 s3 evs s4 s5 where e: "sub_map (adapter_message (ca_vm a) (cf_date_parse cf) (fee_count fc)) batch s2 = (s3, Inr evs)"
      and sh: "sub_map (\<lambda>m. sub_bind (sub_option ''SyntaxError'' (bigint_of_json (get_prop (sm_data m) ''premiumLamports'')))
       (compute_shares (cf_solana cf) (en_acct env) fc)) batch s4 = (s5, Inr (so_perEventShares oc))"
      using a unfolding submitViaAdapter_def sub_ok by auto
    show ?thesis using sub_map_ok [OF sh] sub_map_all [OF e, of amounts_read] adapter_message_reads by auto
  qed
qed

text \<open>The adapter path only raises plain errors.\<close>

definition plain :: "'a sub \<Rightarrow> bool" where
  "plain f \<longleftrightarrow> (\<forall>s s' e. f s = (s', Inl e) \<longrightarrow> (\<exists>x. e = OtherError x))"

lemma plain_return [simp]: "plain (sub_return a)" by (simp add: plain_def sub_return_def)
lemma plain_throw [simp]: "plain (sub_throw e)" by (simp add: plain_def sub_throw_def)
lemma plain_option [simp]: "plain (sub_option e x)" by (cases x) (simp_all add: sub_option_def)

lemma plain_bind: "plain m \<Longrightarrow> (\<And>a. plain (f a)) \<Longrightarrow> plain (sub_bind m f)"
  unfolding plain_def sub_bind_def by (fastforce split: prod.splits sum.splits)

lemma plain_map: "(\<And>x. plain (f x)) \<Longrightarrow> plain (sub_map f xs)"
  by (induction xs) (auto intro!: plain_bind)

lemma plain_get_account: "plain (get_account acct k e)"
  by (auto simp: get_account_def split: sum.splits option.splits)

lemma plain_loadEndpoint: "plain (loadEndpoint ctx acct now slug)"
proof -
  have "plain (fetch_endpoint ctx acct now slug)"
    unfolding fetch_endpoint_def Let_def
    by (intro plain_bind plain_option plain_get_account) (simp add: plain_def)
  then show ?thesis by (auto simp: loadEndpoint_def plain_def split: option.splits if_splits)
qed

lemma plain_treasury: "plain (requireTreasuryVault ctx acct)"
proof -
  have "plain (loadTreasuryVault ctx acct)"
    unfolding loadTreasuryVault_def by (intro plain_bind plain_option plain_get_account)
  then have "plain (sub_bind (loadTreasuryVault ctx acct) (\<lambda>v s. (s\<lparr>su_treasuryVault := Some v\<rparr>, Inr v)))"
    by (rule plain_bind) (simp add: plain_def)
  then show ?thesis by (auto simp: requireTreasuryVault_def plain_def split: option.splits)
qed

lemma plain_shares: "plain (compute_shares ctx acct fc premium)"
proof -
  have "plain (fee_shares ctx acct premium n rs)" for n rs
    by (induction ctx acct premium n rs rule: fee_shares.induct) (auto intro!: plain_bind plain_treasury)
  then show ?thesis by (auto simp: compute_shares_def computeFeeSharesForEvent_def split: fee_config.splits)
qed

lemma plain_adapter: "plain (submitViaAdapter ctx acct dp clock a batch)"
  unfolding submitViaAdapter_def adapter_message_def loadFeeConfig_def Let_def
  by (auto intro!: plain_bind plain_map plain_loadEndpoint plain_shares split: sum.splits option.splits list.splits)

section \<open>Properties\<close>

text \<open>
  C19: the settler loses track of no message. Whatever arrives, whenever the timer fires, in whatever
  order batches finish and whatever they return, the messages that arrived are exactly those with a
  recorded fate, those in flight and those pending, each counted once; fewer than three are pending,
  and once the module is destroyed none is ever pending again.
\<close>

theorem pipeline_conserves_messages:
  "case pipeline_run cf (pipeline_init su) evs of s \<Rightarrow>
     arrivals evs = image_mset fst (mset (pl_log s)) + mset (concat (pl_inflight s)) + mset (bt_pending (pl_batcher s))
     \<and> length (bt_pending (pl_batcher s)) < 3
     \<and> bt_pending (pl_batcher (pipeline_run cf (onModuleDestroy s) rest)) = []"
proof -
  let ?s = "pipeline_run cf (pipeline_init su) evs"
  note f = pipeline_run_facts [OF pipeline_init_ok(1), of cf su evs]
  have d: "pl_inv (onModuleDestroy ?s)" "pl_shuttingDown (onModuleDestroy ?s)" using destroy_step f by blast+
  have "pl_inv (pipeline_run cf (onModuleDestroy ?s) rest)" "pl_shuttingDown (pipeline_run cf (onModuleDestroy ?s) rest)"
    using pipeline_run_facts [OF d(1), of cf] pipeline_run_shutdown [OF d] by blast+
  then have "bt_pending (pl_batcher (pipeline_run cf (onModuleDestroy ?s) rest)) = []" by (simp add: pl_inv_def)
  moreover have "length (bt_pending (pl_batcher ?s)) < 3"
    using f by (simp add: pl_inv_def batcher_ok_def MAX_BATCH_SIZE_def)
  moreover have "arrivals evs = in_system ?s" using f by (simp only: pipeline_init_ok(2) add_0)
  ultimately show ?thesis by (simp add: in_system_def)
qed

lemma processBatch_acked:
  assumes "processBatch cf env batch su = (su', Acked)"
  shows "(\<exists>n. submit_batch cf env batch su = (su', Inl (SkipBatchError n))) \<or>
    (\<exists>oc. submit_batch cf env batch su = (su', Inr oc) \<and>
       pusher_push (en_post env) (en_settledAt env) oc batch = PushOk)"
  using assms by (auto simp: processBatch_def push_fate_def split: prod.splits sum.splits submit_error.splits push_result.splits)

lemma sendWithRetry_errors: "snd (sendWithRetry snds node n pdas) = Inl e \<Longrightarrow> \<exists>x. e = BatchSubmitError x"
  by (auto simp: sendWithRetry_def Let_def split: prod.split_asm sum.split_asm option.split_asm if_split_asm)

lemma submit_skips:
  assumes "submit_batch cf env batch su = (su', Inl (SkipBatchError n))" and "batch \<noteq> []"
  shows "n = message_network (hd batch) \<and> en_adapters env n = None \<and> \<not> (cf_legacyDirect cf \<and> starts_with ''solana-'' n)"
proof -
  have l: "submitLegacyDirect (cf_solana cf) (en_acct env) (cf_date_parse cf) (en_clock env) (en_send env) (en_node env) batch su \<noteq> (su', Inl (SkipBatchError n))"
  proof
    assume a: "submitLegacyDirect (cf_solana cf) (en_acct env) (cf_date_parse cf) (en_clock env) (en_send env) (en_node env) batch su = (su', Inl (SkipBatchError n))"
    have "plain (message_event (cf_solana cf) (en_acct env) (cf_date_parse cf) snaps m)" for snaps m
      unfolding message_event_def Let_def
      by (auto intro!: plain_bind plain_map plain_shares [of _ _ "SolanaFees cfg" for cfg, unfolded compute_shares_def fee_config.case])
    moreover have "plain (load_slugs (cf_solana cf) (en_acct env) (en_clock env) slugs snaps)" for slugs snaps
      by (induction slugs arbitrary: snaps) (auto intro!: plain_bind plain_loadEndpoint)
    ultimately have "plain (legacy_build (cf_solana cf) (en_acct env) (cf_date_parse cf) (en_clock env) batch)"
      unfolding legacy_build_def Let_def by (auto intro!: plain_bind plain_map)
    then show False using a sendWithRetry_errors
      by (fastforce simp: submitLegacyDirect_def sub_bind_def plain_def
          split: prod.split_asm sum.split_asm)
  qed
  obtain m ms where b: "batch = m # ms" using assms(2) by (cases batch) auto
  have "submitViaAdapter (cf_solana cf) (en_acct env) (cf_date_parse cf) (en_clock env) a batch su \<noteq> (su', Inl (SkipBatchError n))" for a
    using plain_adapter unfolding plain_def by (metis submit_error.distinct(5))
  with assms(1) l show ?thesis
    by (auto simp: submit_batch_def submit_def Let_def b split: if_splits option.splits)
qed

text \<open>What one event adds to the log: zero-premium acknowledgements and refusals, or one batch's fate.\<close>

lemma do_actions_log:
  assumes "pl_inv s" and "batcher_step (pl_batcher s) ev = (b, as)"
  shows "\<exists>added. pl_log (do_actions (b, as) s) = pl_log s @ added \<and> (\<forall>(m, f) \<in> set added. message_premium m = Some 0)"
proof -
  have "message_premium m = Some 0" if "AckMessage m \<in> set as" for m
  proof -
    have "m \<in># acked_of as" using that
      by (induction as) (auto simp: acked_of_def split: batcher_action.splits)
    then show ?thesis using batcher_step_facts [OF _ assms(2)] assms(1) by (simp add: pl_inv_def)
  qed
  then show ?thesis by (fastforce simp: do_actions_def do_action_fold split: batcher_action.splits)
qed

lemma step_log:
  assumes "pl_inv s"
  obtains (acks) added where "pl_log (pipeline_step cf s ev) = pl_log s @ added"
      "\<forall>(m, f) \<in> set added. f = Acked \<longrightarrow> message_premium m = Some 0"
    | (completion) i env f su' where "ev = OnComplete i env" "i < length (pl_inflight s)"
      "processBatch cf env (pl_inflight s ! i) (pl_submitter s) = (su', f)"
      "pl_log (pipeline_step cf s ev) = pl_log s @ List.map (\<lambda>m. (m, f)) (pl_inflight s ! i)"
proof (cases ev)
  case (OnMessage m)
  show ?thesis
  proof (cases "pl_shuttingDown s \<or> (\<exists>e. push m (pl_batcher s) = Inl e)")
    case True
    then have "pl_log (pipeline_step cf s ev) = pl_log s @ [(m, Dropped)] \<or> pl_log (pipeline_step cf s ev) = pl_log s @ [(m, Refused)]"
      using OnMessage by (auto simp: on_message_def)
    then show ?thesis by (elim disjE) (rule acks, assumption, simp)+
  next
    case False
    then obtain r where r: "push m (pl_batcher s) = Inr r" "\<not> pl_shuttingDown s" by (cases "push m (pl_batcher s)") auto
    then have "batcher_step (pl_batcher s) (Arrive m) = (fst r, snd r)" by simp
    from do_actions_log [OF assms this] r show ?thesis by (fastforce simp: OnMessage on_message_def intro: acks)
  qed
next
  case OnTimer
  obtain b as where st: "batcher_step (pl_batcher s) TimerFires = (b, as)" by force
  from do_actions_log [OF assms st] st show ?thesis
    by (fastforce simp: OnTimer simp del: batcher_step.simps intro: acks)
next
  case OnDestroy
  obtain b as where f: "flush (pl_batcher s) = (b, as)" by force
  then have "batcher_step (pl_batcher s) FlushNow = (b, as)" by simp
  from do_actions_log [OF assms this] f show ?thesis
    by (fastforce simp: OnDestroy onModuleDestroy_def do_actions_def do_action_fold intro: acks)
next
  case (OnComplete i env)
  obtain su f where p: "processBatch cf env (pl_inflight s ! i) (pl_submitter s) = (su, f)" by force
  show ?thesis
  proof (cases "i < length (pl_inflight s)")
    case True
    with OnComplete p show ?thesis by (intro completion) (simp_all add: complete_batch_def)
  next
    case False
    with OnComplete show ?thesis by (intro acks [of "[]"]) (simp_all add: complete_batch_def)
  qed
qed

lemma ack_origin:
  assumes "k < length (pl_log (pipeline_run cf (pipeline_init su) evs))"
    and "pl_log (pipeline_run cf (pipeline_init su) evs) ! k = (m, Acked)"
  shows "message_premium m = Some 0 \<or>
    (\<exists>pre i env post before batch su'. evs = pre @ OnComplete i env # post \<and> before = pipeline_run cf (pipeline_init su) pre \<and>
       i < length (pl_inflight before) \<and> batch = pl_inflight before ! i \<and>
       length (pl_log before) \<le> k \<and> k < length (pl_log before) + length batch \<and> batch ! (k - length (pl_log before)) = m \<and>
       processBatch cf env batch (pl_submitter before) = (su', Acked))"
  using assms
proof (induction evs rule: rev_induct)
  case Nil
  then show ?case by (simp add: pipeline_run_def pipeline_init_def)
next
  case (snoc ev evs)
  let ?s = "pipeline_run cf (pipeline_init su) evs"
  have inv: "pl_inv ?s" using pipeline_run_facts [OF pipeline_init_ok(1), of cf su evs] by blast
  have step: "pipeline_run cf (pipeline_init su) (evs @ [ev]) = pipeline_step cf ?s ev" by (simp add: pipeline_run_def)
  show ?case
  proof (cases "k < length (pl_log ?s)")
    case True
    have "\<exists>added. pl_log (pipeline_run cf (pipeline_init su) (evs @ [ev])) = pl_log ?s @ added"
      unfolding step by (rule step_log [OF inv, of cf ev]) blast+
    then have "pl_log ?s ! k = (m, Acked)" using snoc.prems(2) True by (auto simp: nth_append)
    from snoc.IH [OF True this] show ?thesis
    proof (elim disjE exE conjE)
      fix pre i env post before batch su'
      assume "evs = pre @ OnComplete i env # post" "before = pipeline_run cf (pipeline_init su) pre"
        "i < length (pl_inflight before)" "batch = pl_inflight before ! i"
        "length (pl_log before) \<le> k" "k < length (pl_log before) + length batch" "batch ! (k - length (pl_log before)) = m"
        "processBatch cf env batch (pl_submitter before) = (su', Acked)"
      moreover from this have "evs @ [ev] = pre @ OnComplete i env # (post @ [ev])" by simp
      ultimately show ?thesis by blast
    qed simp
  next
    case False
    show ?thesis
    proof (rule step_log [OF inv, of cf ev])
      fix added assume "pl_log (pipeline_step cf ?s ev) = pl_log ?s @ added"
        and "\<forall>(m, f) \<in> set added. f = Acked \<longrightarrow> message_premium m = Some 0"
      moreover from this have "k - length (pl_log ?s) < length added" "added ! (k - length (pl_log ?s)) = (m, Acked)"
        using snoc.prems False by (auto simp: step nth_append)
      then have "(m, Acked) \<in> set added" by (metis nth_mem)
      ultimately show ?thesis by blast
    next
      fix i env f su'
      assume c: "ev = OnComplete i env" "i < length (pl_inflight ?s)"
        "processBatch cf env (pl_inflight ?s ! i) (pl_submitter ?s) = (su', f)"
        "pl_log (pipeline_step cf ?s ev) = pl_log ?s @ List.map (\<lambda>m. (m, f)) (pl_inflight ?s ! i)"
      then have k: "k - length (pl_log ?s) < length (pl_inflight ?s ! i)" "pl_inflight ?s ! i ! (k - length (pl_log ?s)) = m" "f = Acked"
        using snoc.prems [unfolded step c(4)] False by (simp_all add: nth_append split: if_split_asm)
      have "evs @ [ev] = evs @ OnComplete i env # []" "length (pl_log ?s) \<le> k"
        "k < length (pl_log ?s) + length (pl_inflight ?s ! i)" using False k(1) c(1) by auto
      with c(2,3) k(2,3) show ?thesis by blast
    qed
  qed
qed

text \<open>
  C20: an acknowledged message is done. The queue is told to forget a message only when its premium is
  zero or when its own batch has been completed: in the run there is an event completing a batch that
  was in flight, which put this entry into the log, and in the environment and with the submitter's
  caches of that very event either the batch's network has no adapter on this instance (and is not
  settled directly), or the batch was submitted successfully and the indexer accepted the report.
\<close>

theorem acked_message_is_done:
  assumes "k < length (pl_log (pipeline_run cf (pipeline_init su) evs))"
    and "pl_log (pipeline_run cf (pipeline_init su) evs) ! k = (m, Acked)"
  shows "message_premium m = Some 0 \<or>
    (\<exists>pre i env post before batch. evs = pre @ OnComplete i env # post \<and> before = pipeline_run cf (pipeline_init su) pre \<and>
       i < length (pl_inflight before) \<and> batch = pl_inflight before ! i \<and> length batch \<le> 3 \<and>
       length (pl_log before) \<le> k \<and> k < length (pl_log before) + length batch \<and> batch ! (k - length (pl_log before)) = m \<and>
       (en_adapters env (message_network m) = None \<and> \<not> (cf_legacyDirect cf \<and> starts_with ''solana-'' (message_network m)) \<or>
        (\<exists>su' oc. submit_batch cf env batch (pl_submitter before) = (su', Inr oc) \<and>
           pusher_push (en_post env) (en_settledAt env) oc batch = PushOk)))"
proof -
  from ack_origin [OF assms] consider "message_premium m = Some 0"
    | pre i env post batch su' where "evs = pre @ OnComplete i env # post"
      "i < length (pl_inflight (pipeline_run cf (pipeline_init su) pre))" "batch = pl_inflight (pipeline_run cf (pipeline_init su) pre) ! i"
      "length (pl_log (pipeline_run cf (pipeline_init su) pre)) \<le> k"
      "k < length (pl_log (pipeline_run cf (pipeline_init su) pre)) + length batch"
      "batch ! (k - length (pl_log (pipeline_run cf (pipeline_init su) pre))) = m"
      "processBatch cf env batch (pl_submitter (pipeline_run cf (pipeline_init su) pre)) = (su', Acked)"
    by blast
  then show ?thesis
  proof cases
    case 2
    let ?before = "pipeline_run cf (pipeline_init su) pre"
    have ok: "batch_ok batch"
      using pipeline_run_facts [OF pipeline_init_ok(1), of cf su pre] 2(2,3) by (simp add: pl_inv_def)
    have l: "length batch \<le> 3" "batch \<noteq> []" using ok by (auto simp: batch_ok_def MAX_BATCH_SIZE_def)
    have "m \<in> set batch" using 2(4-6) by (metis add_diff_cancel_left' le_Suc_ex nat_add_left_cancel_less nth_mem)
    then have u: "message_network (hd batch) = message_network m"
      using ok l(2) unfolding batch_ok_def uniform_def group_key_def by (metis Pair_inject hd_in_set)
    from processBatch_acked [OF 2(7)] have
      "en_adapters env (message_network m) = None \<and> \<not> (cf_legacyDirect cf \<and> starts_with ''solana-'' (message_network m)) \<or>
        (\<exists>su' oc. submit_batch cf env batch (pl_submitter ?before) = (su', Inr oc) \<and>
           pusher_push (en_post env) (en_settledAt env) oc batch = PushOk)"
      using submit_skips [OF _ l(2)] u by metis
    with 2(1-6) l(1) show ?thesis by blast
  qed simp
qed

definition demo_env :: settle_env where
  "demo_env = \<lparr>en_acct = demo_acct, en_clock = (\<lambda>_. 0), en_send = (\<lambda>_ _. Inr ''sig''), en_node = (\<lambda>_ _. (Inr None, Inr [])),
     en_adapters = Map.empty, en_post = (\<lambda>_ _. True), en_settledAt = ''2026-01-01T00:00:00.000Z''\<rparr>"

definition demo_settler :: settler_config where
  "demo_settler = \<lparr>cf_solana = demo_ctx, cf_date_parse = (\<lambda>_. None), cf_legacyDirect = True\<rparr>"

definition arc_message :: settle_message where
  "arc_message = \<lparr>sm_id = ''9'', sm_data = [(''premiumLamports'', JNum 1000), (''network'', JStr ''arc-testnet''),
     (''endpointSlug'', JStr ''fal'')]\<rparr>"

lemmas pipeline_eval = pipeline_run_def pipeline_init_def on_message_def push_def message_premium_def get_prop_def
  setFlushCallback_def batcher_init_def MAX_BATCH_SIZE_def flush_def partition_batches_def add_to_group_def Let_def
  do_actions_def log_all_def

lemma arc_message_flushed:
  "pl_inflight (pipeline_run cf (pipeline_init su) [OnMessage arc_message, OnTimer]) = [[arc_message]]"
  by (simp add: pipeline_eval arc_message_def)

lemma arc_message_props [simp]: "message_network arc_message = ''arc-testnet''" "message_premium arc_message = Some 1000"
  by (simp_all add: arc_message_def message_network_def message_premium_def get_prop_def)

theorem acked_message_is_done_witness:
  "pl_log (pipeline_run demo_settler (pipeline_init demo_state) [OnMessage arc_message, OnTimer, OnComplete 0 demo_env]) =
     [(arc_message, Acked)] \<and>
   (\<exists>pre i env post. [OnMessage arc_message, OnTimer, OnComplete 0 demo_env] = pre @ OnComplete i env # post)"
proof -
  let ?evs = "[OnMessage arc_message, OnTimer, OnComplete 0 demo_env]"
  let ?s = "pipeline_run demo_settler (pipeline_init demo_state) [OnMessage arc_message, OnTimer]"
  have "submit_batch demo_settler demo_env [arc_message] su = (su, Inl (SkipBatchError ''arc-testnet''))" for su
    by (simp add: submit_batch_def submit_def demo_settler_def demo_env_def Let_def starts_with_def)
  then have "processBatch demo_settler demo_env [arc_message] su = (su, Acked)" for su by (simp add: processBatch_def)
  then have "pl_log (complete_batch demo_settler 0 demo_env ?s) = pl_log ?s @ [(arc_message, Acked)]"
    by (simp add: complete_batch_def arc_message_flushed)
  moreover have "pl_log ?s = []" by (simp add: pipeline_eval arc_message_def)
  ultimately have r: "pl_log (pipeline_run demo_settler (pipeline_init demo_state) ?evs) = [(arc_message, Acked)]"
    by (simp add: pipeline_run_def)
  have "0 < length (pl_log (pipeline_run demo_settler (pipeline_init demo_state) ?evs))"
    "pl_log (pipeline_run demo_settler (pipeline_init demo_state) ?evs) ! 0 = (arc_message, Acked)" by (simp_all add: r)
  from acked_message_is_done [OF this] r show ?thesis by fastforce
qed

text \<open>
  A failure of the chain adapter leaves its batch without an answer. On the adapter path every error
  is a plain one, never \<open>BatchSubmitError\<close>: the batch's messages are neither acknowledged nor nacked,
  and the submitter's caches are kept as they were.
\<close>

theorem adapter_failure_unresolved:
  assumes "i < length (pl_inflight s)" and "batch = pl_inflight s ! i" and "batch \<noteq> []"
    and "\<not> (cf_legacyDirect cf \<and> starts_with ''solana-'' (message_network (hd batch)))"
    and "en_adapters env (message_network (hd batch)) \<noteq> None"
    and "submit_batch cf env batch (pl_submitter s) = (su', Inl e)"
  shows "pl_log (complete_batch cf i env s) = pl_log s @ List.map (\<lambda>m. (m, Unresolved)) batch \<and>
    pl_submitter (complete_batch cf i env s) = su'"
proof -
  obtain m ms where b: "batch = m # ms" using assms(3) by (cases batch) auto
  obtain a where "submitViaAdapter (cf_solana cf) (en_acct env) (cf_date_parse cf) (en_clock env) a batch (pl_submitter s) = (su', Inl e)"
    using assms(4-6) by (auto simp: submit_batch_def submit_def Let_def b split: if_splits)
  then obtain x where "e = OtherError x" using plain_adapter unfolding plain_def by blast
  then have "processBatch cf env batch (pl_submitter s) = (su', Unresolved)" using assms(6) by (simp add: processBatch_def)
  then show ?thesis using assms(1,2) by (simp add: complete_batch_def log_all_def)
qed

definition failing_adapter :: chain_adapter where
  "failing_adapter = \<lparr>ca_vm = VmEvm, ca_signer = Inr (), ca_getEndpoint = Some (\<lambda>_. Inl ''timeout''),
     ca_submitSettleBatch = (\<lambda>_ _. Inl ''timeout'')\<rparr>"

theorem adapter_failure_unresolved_witness:
  "pl_log (pipeline_run demo_settler (pipeline_init demo_state)
     [OnMessage arc_message, OnTimer, OnComplete 0 (demo_env\<lparr>en_adapters := [''arc-testnet'' \<mapsto> failing_adapter]\<rparr>)]) =
   [(arc_message, Unresolved)]"
proof -
  let ?env = "demo_env\<lparr>en_adapters := [''arc-testnet'' \<mapsto> failing_adapter]\<rparr>"
  let ?s = "pipeline_run demo_settler (pipeline_init demo_state) [OnMessage arc_message, OnTimer]"
  have e: "extractSlug (sm_data arc_message) = Some ''fal''" by (simp add: extractSlug_def arc_message_def get_prop_def)
  have sub: "submit_batch demo_settler ?env [arc_message] su = (su, Inl (OtherError ''timeout''))" for su
    by (simp add: submit_batch_def submit_def demo_settler_def demo_env_def Let_def starts_with_def submitViaAdapter_def
        failing_adapter_def sub_bind_def sub_return_def sub_option_def sub_throw_def e loadFeeConfig_def)
  have fl: "pl_inflight ?s = [[arc_message]]" by (rule arc_message_flushed)
  have "pl_log (complete_batch demo_settler 0 ?env ?s) = pl_log ?s @ List.map (\<lambda>m. (m, Unresolved)) [arc_message]"
    by (rule adapter_failure_unresolved [of 0 ?s "[arc_message]" demo_settler ?env "pl_submitter ?s" "OtherError ''timeout''", THEN conjunct1])
      (use sub [of "pl_submitter ?s"] in \<open>simp_all add: fl starts_with_def demo_env_def\<close>)
  moreover have "pl_log ?s = []" by (simp add: pipeline_eval arc_message_def)
  ultimately show ?thesis by (simp add: pipeline_run_def)
qed

text \<open>
  C21: what is settled is reported in full. For every batch the batcher hands over whose submission
  succeeds, with amounts that are strings or numbers, the pusher builds its body: the batch's network,
  the exact sums of the premiums and refunds that were submitted, one call per message in order, each
  with its own share list. No guard of the pusher throws, so the batch ends acknowledged or nacked.
\<close>

theorem settled_batch_is_reported:
  assumes "batch \<in> set (pl_inflight (pipeline_run cf (pipeline_init su) evs))"
    and "submit_batch cf env batch su1 = (su2, Inr oc)"
    and "\<forall>m \<in> set batch. textual (get_prop (sm_data m) ''premiumLamports'') \<and>
       textual (Some (nullish (get_prop (sm_data m) ''refundLamports'') (JStr ''0'')))"
  shows "(\<exists>body. push_body oc (en_settledAt env) batch = Some body
      \<and> get_prop body ''network'' = Some (JStr (message_network (hd batch)))
      \<and> get_prop body ''totalPremiumsLamports'' = Some (JStr (string_of_int (sum_list
          (List.map (\<lambda>m. the (bigint_of_json (get_prop (sm_data m) ''premiumLamports''))) batch))))
      \<and> get_prop body ''totalRefundsLamports'' = Some (JStr (string_of_int (sum_list
          (List.map (\<lambda>m. the (bigint_of_json (Some (nullish (get_prop (sm_data m) ''refundLamports'') (JStr ''0''))))) batch))))
      \<and> get_prop body ''calls'' = Some (JArr (List.map JObj (List.map2 (call_entry (so_signature oc) (en_settledAt env))
          (so_perEventShares oc) batch))))
    \<and> (snd (processBatch cf env batch su1) = Acked \<or> snd (processBatch cf env batch su1) = Nacked)"
proof -
  have "batch_ok batch" using pipeline_run_facts [OF pipeline_init_ok(1), of cf su evs] assms(1) by (simp add: pl_inv_def)
  then have u: "uniform batch" "batch \<noteq> []" by (simp_all add: batch_ok_def)
  have r: "\<forall>m \<in> set batch. amounts_read m" and len: "length (so_perEventShares oc) = length batch"
    using submit_reads [OF assms(2)] by auto
  have calls: "push_calls oc (en_settledAt env) batch = List.map2 (call_entry (so_signature oc) (en_settledAt env)) (so_perEventShares oc) batch"
    by (rule nth_equalityI) (simp_all add: push_calls_def nth_enumerate_eq len nth_shares_def)
  have p: "\<forall>m \<in> set batch. textual (get_prop (sm_data m) ''premiumLamports'') \<and>
        bigint_of_json (get_prop (sm_data m) ''premiumLamports'') = Some (the (bigint_of_json (get_prop (sm_data m) ''premiumLamports'')))"
    and q: "\<forall>m \<in> set batch. textual (Some (nullish (get_prop (sm_data m) ''refundLamports'') (JStr ''0''))) \<and>
        bigint_of_json (Some (nullish (get_prop (sm_data m) ''refundLamports'') (JStr ''0''))) =
        Some (the (bigint_of_json (Some (nullish (get_prop (sm_data m) ''refundLamports'') (JStr ''0'')))))"
    using r assms(3) by (auto simp: amounts_read_def)
  note body = push_body_totals [OF u p q, of oc "en_settledAt env", unfolded calls]
  then obtain b where b: "push_body oc (en_settledAt env) batch = Some b" by blast
  have "postWithRetry (en_post env b) 1 3 \<noteq> PushThrows" by (simp add: numeral_3_eq_3)
  then have "snd (processBatch cf env batch su1) = Acked \<or> snd (processBatch cf env batch su1) = Nacked"
    unfolding processBatch_def assms(2) by (cases "postWithRetry (en_post env b) 1 3") (simp_all add: pusher_push_def b push_fate_def)
  with body show ?thesis by blast
qed

lemma demo_submit:
  "\<exists>s'. submit_batch demo_settler demo_env [demo_message] demo_state =
     (s', Inr \<lparr>so_signature = ''sig'', so_perEventShares = [[demo_share]]\<rparr>)"
proof -
  let ?pda = "fst (demo_find [ascii ''call'', replicate 16 0x11] (replicate 32 12))"
  obtain s' ix where b: "legacy_build demo_ctx demo_acct (\<lambda>_. None) (\<lambda>_. 0) [demo_message] demo_state =
      (s', Inr (ix, [?pda], [[demo_share]]))" using demo_build by blast
  have n: "message_network demo_message = ''solana-devnet''" by (simp add: message_network_def get_prop_def demo_message_def)
  have "submit_batch demo_settler demo_env [demo_message] =
      submitLegacyDirect demo_ctx demo_acct (\<lambda>_. None) (\<lambda>_. 0) (\<lambda>_ _. Inr ''sig'') (\<lambda>_ _. (Inr None, Inr [])) [demo_message]"
    by (simp add: submit_batch_def submit_def demo_settler_def demo_env_def n starts_with_def)
  then show ?thesis
    by (simp add: submitLegacyDirect_def sub_bind_def b sendWithRetry_def numeral_3_eq_3 attempt_send_def)
qed

theorem settled_batch_is_reported_witness:
  "[demo_message] \<in> set (pl_inflight (pipeline_run demo_settler (pipeline_init demo_state) [OnMessage demo_message, OnTimer]))
   \<and> (\<exists>oc body. push_body oc (en_settledAt demo_env) [demo_message] = Some body
      \<and> get_prop body ''totalPremiumsLamports'' = Some (JStr (string_of_int 500)))
   \<and> (snd (processBatch demo_settler demo_env [demo_message] demo_state) = Acked
      \<or> snd (processBatch demo_settler demo_env [demo_message] demo_state) = Nacked)"
proof -
  have amounts: "get_prop (sm_data demo_message) ''premiumLamports'' = Some (JStr ''500'')"
    "get_prop (sm_data demo_message) ''refundLamports'' = Some (JStr ''10000'')"
    by (simp_all add: demo_message_def get_prop_def)
  have prem: "message_premium demo_message = Some 500" by (simp add: message_premium_def amounts demo_numbers)
  have i: "[demo_message] \<in> set (pl_inflight (pipeline_run demo_settler (pipeline_init demo_state) [OnMessage demo_message, OnTimer]))"
    by (simp add: pipeline_eval prem [unfolded message_premium_def get_prop_def])
  obtain s' where s: "submit_batch demo_settler demo_env [demo_message] demo_state =
      (s', Inr \<lparr>so_signature = ''sig'', so_perEventShares = [[demo_share]]\<rparr>)" using demo_submit by blast
  have "\<forall>m \<in> set [demo_message]. textual (get_prop (sm_data m) ''premiumLamports'') \<and>
      textual (Some (nullish (get_prop (sm_data m) ''refundLamports'') (JStr ''0'')))"
    by (simp add: amounts textual_def nullish_def)
  from settled_batch_is_reported [OF i s this] i show ?thesis by (simp add: amounts demo_numbers) blast
qed

end
