(* ===== verification/IndexerEvents.thy ===== *)
theory IndexerEvents
  imports Prelude "HOL-Library.List_Lexorder" "HOL-Library.Char_ord"
begin

text \<open>
  The indexer's ingest of settled batches: \<open>packages/indexer/src/events\<close> (the controller, the service
  and its wire shapes). The database is a record of tables; a transaction works on it and either
  commits or leaves it as it was. Arguments stand for what the code relies on: \<open>date_of\<close> is
  \<open>new Date\<close> (\<open>None\<close> is an invalid date, which Prisma refuses), \<open>accepts\<close> says whether the columns of
  \<open>Call\<close> can hold a row, and \<open>aborts\<close> whether a statement that failed makes the database refuse every
  later statement of the transaction (PostgreSQL does). Amounts are the decimal strings of the
  settler's body.
\<close>

section \<open>Wire shapes\<close>

record share_dto =
  sd_kind :: int
  sd_pubkey :: string
  sd_amount :: string

record call_dto =
  cd_callId :: string
  cd_agent :: string
  cd_slug :: string
  cd_premium :: string
  cd_refund :: string
  cd_latencyMs :: int
  cd_outcome :: string
  cd_source :: "string option"
  cd_verdictSource :: "string option"
  cd_payee :: "string option"
  cd_resource :: "string option"
  cd_ts :: string
  cd_settledAt :: string
  cd_signature :: string
  cd_shares :: "share_dto list option"
  cd_network :: "string option"

record event_dto =
  ed_signature :: string
  ed_batchSize :: int
  ed_totalPremiums :: string
  ed_totalRefunds :: string
  ed_ts :: string
  ed_calls :: "call_dto list"
  ed_network :: "string option"

definition outcomeToBreach :: "string \<Rightarrow> (bool \<times> string option) option" where
  "outcomeToBreach oc =
     (if oc = ''ok'' then Some (False, None)
      else if oc = ''latency_breach'' then Some (True, Some ''latency_breach'')
      else if oc = ''server_error'' then Some (True, Some ''server_error'')
      else if oc = ''client_error'' then Some (False, Some ''client_error'')
      else if oc = ''network_error'' then Some (True, Some ''network_error'')
      else None)"

section \<open>Tables\<close>

record call_row =
  cw_agentPubkey :: string
  cw_endpointSlug :: string
  cw_premium :: int
  cw_refund :: int
  cw_latency :: int
  cw_breached :: bool
  cw_breachReason :: "string option"
  cw_tags :: "string option list"
  cw_ts :: int
  cw_settledAt :: int
  cw_signature :: string

record agent_row =
  ag_totalPremiums :: int
  ag_totalRefunds :: int
  ag_callCount :: int
  ag_lastCallAt :: "int option"
  ag_createdAt :: int

record endpoint_entry =
  er_flatPremium :: int
  er_percentBps :: int
  er_slaLatencyMs :: int
  er_imputedCost :: int
  er_exposureCap :: int
  er_paused :: bool
  er_upstreamBase :: string
  er_displayName :: string
  er_registeredAt :: int
  er_lastUpdated :: int

record settlement_row =
  st_batchSize :: int
  st_totalPremiums :: int
  st_totalRefunds :: int
  st_ts :: int

record share_row =
  sr_network :: string
  sr_settlementSig :: string
  sr_kind :: int
  sr_pubkey :: string
  sr_amount :: int

record pool_row =
  po_balance :: int
  po_deposits :: int
  po_premiums :: int
  po_fees :: int
  po_refunds :: int
  po_lastUpdated :: int

record earnings_row =
  ea_kind :: int
  ea_lifetime :: int
  ea_lastUpdated :: int

text \<open>Keys are \<open>(network, id)\<close> except for agents. Calls and shares are lists, since the code counts them.\<close>

record indexer_db =
  db_calls :: "((string \<times> string) \<times> call_row) list"
  db_agents :: "string \<rightharpoonup> agent_row"
  db_endpoints :: "string \<times> string \<rightharpoonup> endpoint_entry"
  db_settlements :: "string \<times> string \<rightharpoonup> settlement_row"
  db_shares :: "share_row list"
  db_pools :: "string \<times> string \<rightharpoonup> pool_row"
  db_earnings :: "string \<times> string \<rightharpoonup> earnings_row"

section \<open>Before the transaction\<close>

definition batch_network :: "event_dto \<Rightarrow> string" where
  "batch_network dto =
     (case ed_network dto of Some n \<Rightarrow> n
      | None \<Rightarrow> (case ed_calls dto of [] \<Rightarrow> ''solana-devnet''
          | c # _ \<Rightarrow> (case cd_network c of Some n \<Rightarrow> n | None \<Rightarrow> ''solana-devnet'')))"

definition validate_dto :: "event_dto \<Rightarrow> bool" where
  "validate_dto dto \<longleftrightarrow> list_all (\<lambda>c. cd_shares c \<noteq> None) (ed_calls dto) \<and>
     list_all (\<lambda>c. case cd_network c of None \<Rightarrow> True | Some n \<Rightarrow> n = batch_network dto) (ed_calls dto)"

definition earliest_ts :: "call_dto list \<Rightarrow> string \<rightharpoonup> string" where
  "earliest_ts cs = foldl (\<lambda>m c.
     case m (cd_agent c) of None \<Rightarrow> m(cd_agent c \<mapsto> cd_ts c)
     | Some prev \<Rightarrow> if cd_ts c < prev then m(cd_agent c \<mapsto> cd_ts c) else m) Map.empty cs"

definition sorted_agents :: "call_dto list \<Rightarrow> string list" where
  "sorted_agents cs = sort (remdups (List.map cd_agent cs))"

definition sorted_slugs :: "call_dto list \<Rightarrow> string list" where
  "sorted_slugs cs = sort (remdups (List.map cd_slug cs))"

section \<open>The transaction\<close>

definition fresh_agent :: "int \<Rightarrow> agent_row" where
  "fresh_agent ts = \<lparr>ag_totalPremiums = 0, ag_totalRefunds = 0, ag_callCount = 0, ag_lastCallAt = None, ag_createdAt = ts\<rparr>"

fun upsert_agents :: "(string \<Rightarrow> int option) \<Rightarrow> (string \<rightharpoonup> string) \<Rightarrow> string list \<Rightarrow> indexer_db \<Rightarrow> indexer_db option" where
  "upsert_agents date_of earliest [] db = Some db"
| "upsert_agents date_of earliest (pk # pks) db =
     (case Option.bind (earliest pk) date_of of None \<Rightarrow> None
      | Some ts \<Rightarrow> upsert_agents date_of earliest pks
          (if db_agents db pk = None
           then db\<lparr>db_agents := (db_agents db)(pk \<mapsto> fresh_agent ts)\<rparr>
           else db))"

fun upsert_endpoints :: "int option \<Rightarrow> string \<Rightarrow> string list \<Rightarrow> indexer_db \<Rightarrow> indexer_db option" where
  "upsert_endpoints ts net [] db = Some db"
| "upsert_endpoints ts net (slug # slugs) db =
     (case ts of None \<Rightarrow> None
      | Some t \<Rightarrow> upsert_endpoints ts net slugs
          (if db_endpoints db (net, slug) = None
           then db\<lparr>db_endpoints := (db_endpoints db)((net, slug) \<mapsto>
             \<lparr>er_flatPremium = 0, er_percentBps = 0, er_slaLatencyMs = 0, er_imputedCost = 0, er_exposureCap = 0,
              er_paused = True, er_upstreamBase = [], er_displayName = slug, er_registeredAt = t, er_lastUpdated = t\<rparr>)\<rparr>
           else db))"

definition call_row_of :: "(string \<Rightarrow> int option) \<Rightarrow> call_dto \<Rightarrow> call_row option" where
  "call_row_of date_of c =
     (case (outcomeToBreach (cd_outcome c), bigint_of_string (cd_premium c), bigint_of_string (cd_refund c),
            date_of (cd_ts c), date_of (cd_settledAt c)) of
        (Some (breach, reason), Some premium, Some refund, Some ts, Some settledAt) \<Rightarrow> Some
          \<lparr>cw_agentPubkey = cd_agent c, cw_endpointSlug = cd_slug c, cw_premium = premium, cw_refund = refund,
           cw_latency = cd_latencyMs c, cw_breached = breach, cw_breachReason = reason,
           cw_tags = [cd_source c, cd_verdictSource c, cd_payee c, cd_resource c],
           cw_ts = ts, cw_settledAt = settledAt, cw_signature = cd_signature c\<rparr>
      | _ \<Rightarrow> None)"

text \<open>\<open>tryInsertCall\<close>: \<open>None\<close> is an error that is rethrown, \<open>Some None\<close> the duplicate (P2002).\<close>

definition tryInsertCall ::
    "(string \<Rightarrow> int option) \<Rightarrow> (call_row \<Rightarrow> bool) \<Rightarrow> string \<Rightarrow> call_dto \<Rightarrow> indexer_db \<Rightarrow> indexer_db option option" where
  "tryInsertCall date_of accepts net c db =
     (case call_row_of date_of c of None \<Rightarrow> None
      | Some row \<Rightarrow>
          if \<not> accepts row then None
          else if map_of (db_calls db) (net, cd_callId c) \<noteq> None then Some None
          else Some (Some (db\<lparr>db_calls := db_calls db @ [((net, cd_callId c), row)]\<rparr>)))"

text \<open>
  The inserts: the new tables, the calls inserted and whether a statement of the transaction has
  failed; once it has and the database aborts, the next insert throws.
\<close>

fun insert_calls ::
    "(string \<Rightarrow> int option) \<Rightarrow> (call_row \<Rightarrow> bool) \<Rightarrow> bool \<Rightarrow> string \<Rightarrow> call_dto list \<Rightarrow> bool \<Rightarrow> indexer_db \<Rightarrow>
     (indexer_db \<times> call_dto list \<times> bool) option" where
  "insert_calls date_of accepts aborts net [] failed db = Some (db, [], failed)"
| "insert_calls date_of accepts aborts net (c # cs) failed db =
     (if failed then None
      else case tryInsertCall date_of accepts net c db of
          None \<Rightarrow> None
        | Some None \<Rightarrow> insert_calls date_of accepts aborts net cs aborts db
        | Some (Some db') \<Rightarrow>
            map_option (\<lambda>(db'', ins, f). (db'', c # ins, f)) (insert_calls date_of accepts aborts net cs False db'))"

section \<open>Aggregates\<close>

record agent_delta =
  ad_callCount :: int
  ad_premium :: int
  ad_refund :: int
  ad_lastCallAt :: int

record pool_delta =
  pd_premium :: int
  pd_refund :: int
  pd_feesPaid :: int

text \<open>\<open>BigInt\<close> and \<open>new Date\<close> of a field the insert has accepted.\<close>

definition amount :: "string \<Rightarrow> int" where
  "amount s = (case bigint_of_string s of None \<Rightarrow> 0 | Some n \<Rightarrow> n)"

definition instant :: "(string \<Rightarrow> int option) \<Rightarrow> string \<Rightarrow> int" where
  "instant date_of s = (case date_of s of None \<Rightarrow> 0 | Some t \<Rightarrow> t)"

definition shares_of :: "call_dto \<Rightarrow> share_dto list" where
  "shares_of c = (case cd_shares c of None \<Rightarrow> [] | Some ss \<Rightarrow> ss)"

definition call_fees :: "call_dto \<Rightarrow> int" where
  "call_fees c = sum_list (List.map (\<lambda>s. amount (sd_amount s)) (shares_of c))"

definition perAgent :: "(string \<Rightarrow> int option) \<Rightarrow> call_dto list \<Rightarrow> string \<rightharpoonup> agent_delta" where
  "perAgent date_of cs = foldl (\<lambda>m c.
     let t = instant date_of (cd_ts c);
         slot = (case m (cd_agent c) of Some d \<Rightarrow> d
           | None \<Rightarrow> \<lparr>ad_callCount = 0, ad_premium = 0, ad_refund = 0, ad_lastCallAt = t\<rparr>)
     in m(cd_agent c \<mapsto> \<lparr>ad_callCount = ad_callCount slot + 1, ad_premium = ad_premium slot + amount (cd_premium c),
          ad_refund = ad_refund slot + amount (cd_refund c),
          ad_lastCallAt = (if t > ad_lastCallAt slot then t else ad_lastCallAt slot)\<rparr>)) Map.empty cs"

definition perEndpoint :: "call_dto list \<Rightarrow> string \<rightharpoonup> pool_delta" where
  "perEndpoint cs = foldl (\<lambda>m c.
     let slot = (case m (cd_slug c) of Some d \<Rightarrow> d | None \<Rightarrow> \<lparr>pd_premium = 0, pd_refund = 0, pd_feesPaid = 0\<rparr>)
     in m(cd_slug c \<mapsto> \<lparr>pd_premium = pd_premium slot + amount (cd_premium c),
          pd_refund = pd_refund slot + amount (cd_refund c), pd_feesPaid = pd_feesPaid slot + call_fees c\<rparr>)) Map.empty cs"

text \<open>The recipients in the order of their first share; the code's key \<open>kind:pubkey\<close> is the pair.\<close>

definition perRecipient :: "call_dto list \<Rightarrow> ((int \<times> string) \<times> int) list" where
  "perRecipient cs = foldl (\<lambda>m s.
     let k = (sd_kind s, sd_pubkey s);
         old = (case map_of m k of None \<Rightarrow> 0 | Some a \<Rightarrow> a)
     in AList.update k (old + amount (sd_amount s)) m) [] (concat (List.map shares_of cs))"

definition agent_add :: "agent_delta \<Rightarrow> agent_row \<Rightarrow> agent_row" where
  "agent_add d a = a\<lparr>ag_lastCallAt := Some (ad_lastCallAt d), ag_callCount := ag_callCount a + ad_callCount d,
     ag_totalPremiums := ag_totalPremiums a + ad_premium d, ag_totalRefunds := ag_totalRefunds a + ad_refund d\<rparr>"

text \<open>The agent rows exist: the same transaction has upserted them.\<close>

definition apply_agents :: "(string \<rightharpoonup> agent_delta) \<Rightarrow> string list \<Rightarrow> indexer_db \<Rightarrow> indexer_db" where
  "apply_agents delta pks db = foldl (\<lambda>db pk.
     case delta pk of None \<Rightarrow> db
     | Some d \<Rightarrow> db\<lparr>db_agents := (db_agents db)(pk := map_option (agent_add d) (db_agents db pk))\<rparr>) db pks"

definition earnings_add :: "int \<Rightarrow> int \<Rightarrow> int \<Rightarrow> earnings_row option \<Rightarrow> earnings_row" where
  "earnings_add now kind a row = (case row of
     None \<Rightarrow> \<lparr>ea_kind = kind, ea_lifetime = a, ea_lastUpdated = now\<rparr>
   | Some e \<Rightarrow> e\<lparr>ea_lifetime := ea_lifetime e + a, ea_lastUpdated := now\<rparr>)"

definition apply_earnings :: "string \<Rightarrow> int \<Rightarrow> ((int \<times> string) \<times> int) list \<Rightarrow> indexer_db \<Rightarrow> indexer_db" where
  "apply_earnings net now shares db = foldl (\<lambda>db ((kind, pk), a).
     db\<lparr>db_earnings := (db_earnings db)((net, pk) \<mapsto> earnings_add now kind a (db_earnings db (net, pk)))\<rparr>) db
     (sort_key (\<lambda>((kind, pk), a). pk) shares)"

definition apply_shares :: "string \<Rightarrow> string \<Rightarrow> int \<Rightarrow> ((int \<times> string) \<times> int) list \<Rightarrow> indexer_db \<Rightarrow> indexer_db" where
  "apply_shares net sig now shares db =
     (if filter (\<lambda>r. sr_network r = net \<and> sr_settlementSig r = sig) (db_shares db) = [] \<and> shares \<noteq> [] then
        apply_earnings net now shares
          (db\<lparr>db_shares := db_shares db @ List.map (\<lambda>((kind, pk), a).
             \<lparr>sr_network = net, sr_settlementSig = sig, sr_kind = kind, sr_pubkey = pk, sr_amount = a\<rparr>) shares\<rparr>)
      else db)"

definition pool_add :: "int \<Rightarrow> pool_delta \<Rightarrow> pool_row option \<Rightarrow> pool_row" where
  "pool_add now d row =
     (let balanceDelta = pd_premium d - pd_refund d - pd_feesPaid d in
      case row of
        None \<Rightarrow> \<lparr>po_balance = balanceDelta, po_deposits = 0, po_premiums = pd_premium d,
          po_fees = pd_feesPaid d, po_refunds = pd_refund d, po_lastUpdated = now\<rparr>
      | Some p \<Rightarrow> p\<lparr>po_balance := po_balance p + balanceDelta, po_premiums := po_premiums p + pd_premium d,
          po_fees := po_fees p + pd_feesPaid d, po_refunds := po_refunds p + pd_refund d, po_lastUpdated := now\<rparr>)"

definition apply_pools :: "string \<Rightarrow> int \<Rightarrow> (string \<rightharpoonup> pool_delta) \<Rightarrow> string list \<Rightarrow> indexer_db \<Rightarrow> indexer_db" where
  "apply_pools net now delta slugs db = foldl (\<lambda>db slug.
     case delta slug of None \<Rightarrow> db
     | Some d \<Rightarrow> db\<lparr>db_pools := (db_pools db)((net, slug) \<mapsto> pool_add now d (db_pools db (net, slug)))\<rparr>) db slugs"

text \<open>The statements after the inserts, when at least one call is new; \<open>None\<close> is an error.\<close>

definition record_settlement ::
    "(string \<Rightarrow> int option) \<Rightarrow> event_dto \<Rightarrow> call_dto list \<Rightarrow> indexer_db \<Rightarrow> indexer_db option" where
  "record_settlement date_of dto ins db =
     (let net = batch_network dto; key = (net, ed_signature dto) in
      case (bigint_of_string (ed_totalPremiums dto), bigint_of_string (ed_totalRefunds dto), date_of (ed_ts dto)) of
        (Some premiums, Some refunds, Some now) \<Rightarrow>
          if list_all (\<lambda>c. list_all (\<lambda>s. bigint_of_string (sd_amount s) \<noteq> None) (shares_of c)) ins then
            let db1 = (if db_settlements db key = None
                  then db\<lparr>db_settlements := (db_settlements db)(key \<mapsto> \<lparr>st_batchSize = ed_batchSize dto,
                    st_totalPremiums = premiums, st_totalRefunds = refunds, st_ts = now\<rparr>)\<rparr>
                  else db);
                db2 = apply_agents (perAgent date_of ins) (sorted_agents (ed_calls dto)) db1;
                db3 = apply_shares net (ed_signature dto) now (perRecipient ins) db2
            in Some (apply_pools net now (perEndpoint ins) (sorted_slugs (ed_calls dto)) db3)
          else None
      | _ \<Rightarrow> None)"

text \<open>
  \<open>ingest\<close>: the committed tables and either an error or the calls inserted, which are handed to the
  webhook delivery; the response accepts their number. An error rolls the transaction back; so does
  the commit of a transaction in which a statement failed.
\<close>

definition ingest ::
    "(string \<Rightarrow> int option) \<Rightarrow> (call_row \<Rightarrow> bool) \<Rightarrow> bool \<Rightarrow> event_dto \<Rightarrow> indexer_db \<Rightarrow> indexer_db \<times> (string + call_dto list)" where
  "ingest date_of accepts aborts dto db =
     (if \<not> validate_dto dto then (db, Inl ''BadRequest'')
      else let net = batch_network dto in
        case Option.bind (upsert_agents date_of (earliest_ts (ed_calls dto)) (sorted_agents (ed_calls dto)) db)
            (\<lambda>db1. Option.bind (upsert_endpoints (date_of (ed_ts dto)) net (sorted_slugs (ed_calls dto)) db1)
            (insert_calls date_of accepts aborts net (ed_calls dto) False)) of
          None \<Rightarrow> (db, Inl ''InternalServerError'')
        | Some (db2, ins, failed) \<Rightarrow>
            if ins = [] then (if failed then db else db2, Inr [])
            else if failed then (db, Inl ''InternalServerError'')
            else case record_settlement date_of dto ins db2 of
                None \<Rightarrow> (db, Inl ''InternalServerError'')
              | Some db3 \<Rightarrow> (db3, Inr ins))"

section \<open>The endpoint\<close>

definition push_secret_ok :: "string option \<Rightarrow> string option \<Rightarrow> bool" where
  "push_secret_ok secret authorization =
     (case secret of None \<Rightarrow> False
      | Some s \<Rightarrow> s \<noteq> [] \<and> (case authorization of None \<Rightarrow> [] | Some a \<Rightarrow> a) = ''Bearer '' @ s)"

definition events_request ::
    "(string \<Rightarrow> int option) \<Rightarrow> (call_row \<Rightarrow> bool) \<Rightarrow> bool \<Rightarrow> string option \<Rightarrow> string option \<Rightarrow> event_dto \<Rightarrow>
     indexer_db \<Rightarrow> indexer_db \<times> (string + call_dto list)" where
  "events_request date_of accepts aborts secret authorization dto db =
     (if \<not> push_secret_ok secret authorization then (db, Inl ''Unauthorized'')
      else let dflt = (case ed_network dto of None \<Rightarrow> ''solana-devnet'' | Some n \<Rightarrow> n) in
        ingest date_of accepts aborts (dto\<lparr>ed_network := Some dflt,
          ed_calls := List.map (\<lambda>c. c\<lparr>cd_network := Some (case cd_network c of None \<Rightarrow> dflt | Some n \<Rightarrow> n)\<rparr>) (ed_calls dto)\<rparr>) db)"

section \<open>Lemmas\<close>

lemma perEndpoint_snoc:
  "perEndpoint (cs @ [c]) = (let slot = (case perEndpoint cs (cd_slug c) of Some d \<Rightarrow> d
       | None \<Rightarrow> \<lparr>pd_premium = 0, pd_refund = 0, pd_feesPaid = 0\<rparr>)
     in (perEndpoint cs)(cd_slug c \<mapsto> \<lparr>pd_premium = pd_premium slot + amount (cd_premium c),
          pd_refund = pd_refund slot + amount (cd_refund c), pd_feesPaid = pd_feesPaid slot + call_fees c\<rparr>))"
  by (simp add: perEndpoint_def Let_def)

text \<open>A delta is the sum over the calls of its key, and there is one exactly when there is such a call.\<close>

definition total_of :: "(call_dto \<Rightarrow> int) \<Rightarrow> (call_dto \<Rightarrow> bool) \<Rightarrow> call_dto list \<Rightarrow> int" where
  "total_of f P cs = sum_list (List.map f (filter P cs))"

lemma perEndpoint_eq:
  "perEndpoint cs slug = (if filter (\<lambda>c. cd_slug c = slug) cs = [] then None else
     Some \<lparr>pd_premium = total_of (\<lambda>c. amount (cd_premium c)) (\<lambda>c. cd_slug c = slug) cs,
       pd_refund = total_of (\<lambda>c. amount (cd_refund c)) (\<lambda>c. cd_slug c = slug) cs,
       pd_feesPaid = total_of call_fees (\<lambda>c. cd_slug c = slug) cs\<rparr>)"
proof (induction cs rule: rev_induct)
  case (snoc c cs)
  then show ?case by (auto simp: perEndpoint_snoc Let_def total_of_def split: if_splits)
qed (simp add: perEndpoint_def)

lemma perAgent_snoc:
  "perAgent date_of (cs @ [c]) = (let t = instant date_of (cd_ts c);
         slot = (case perAgent date_of cs (cd_agent c) of Some d \<Rightarrow> d
           | None \<Rightarrow> \<lparr>ad_callCount = 0, ad_premium = 0, ad_refund = 0, ad_lastCallAt = t\<rparr>)
     in (perAgent date_of cs)(cd_agent c \<mapsto> \<lparr>ad_callCount = ad_callCount slot + 1, ad_premium = ad_premium slot + amount (cd_premium c),
          ad_refund = ad_refund slot + amount (cd_refund c),
          ad_lastCallAt = (if t > ad_lastCallAt slot then t else ad_lastCallAt slot)\<rparr>))"
  by (simp add: perAgent_def Let_def)

lemma perAgent_eq:
  "\<exists>t. perAgent date_of cs pk = (if filter (\<lambda>c. cd_agent c = pk) cs = [] then None else
     Some \<lparr>ad_callCount = total_of (\<lambda>_. 1) (\<lambda>c. cd_agent c = pk) cs,
       ad_premium = total_of (\<lambda>c. amount (cd_premium c)) (\<lambda>c. cd_agent c = pk) cs,
       ad_refund = total_of (\<lambda>c. amount (cd_refund c)) (\<lambda>c. cd_agent c = pk) cs, ad_lastCallAt = t\<rparr>)"
proof (induction cs rule: rev_induct)
  case (snoc c cs)
  then show ?case by (auto simp: perAgent_snoc Let_def total_of_def split: if_splits)
qed (simp add: perAgent_def)

lemma apply_pools_frame [simp]:
  "db_calls (apply_pools net now delta slugs db) = db_calls db" "db_agents (apply_pools net now delta slugs db) = db_agents db"
  "db_endpoints (apply_pools net now delta slugs db) = db_endpoints db" "db_shares (apply_pools net now delta slugs db) = db_shares db"
  "db_settlements (apply_pools net now delta slugs db) = db_settlements db" "db_earnings (apply_pools net now delta slugs db) = db_earnings db"
  unfolding apply_pools_def by (induction slugs arbitrary: db) (auto split: option.splits)

lemma apply_pools_eq:
  "distinct slugs \<Longrightarrow> db_pools (apply_pools net now delta slugs db) (n, slug) =
     (case delta slug of Some d \<Rightarrow> if n = net \<and> slug \<in> set slugs then Some (pool_add now d (db_pools db (n, slug))) else db_pools db (n, slug)
      | None \<Rightarrow> db_pools db (n, slug))"
  unfolding apply_pools_def
proof (induction slugs arbitrary: db)
  case (Cons s slugs)
  then show ?case by (auto split: option.splits)
qed (simp split: option.splits)

lemma apply_agents_frame [simp]:
  "db_calls (apply_agents delta pks db) = db_calls db" "db_pools (apply_agents delta pks db) = db_pools db"
  "db_endpoints (apply_agents delta pks db) = db_endpoints db" "db_shares (apply_agents delta pks db) = db_shares db"
  "db_settlements (apply_agents delta pks db) = db_settlements db" "db_earnings (apply_agents delta pks db) = db_earnings db"
  unfolding apply_agents_def by (induction pks arbitrary: db) (auto split: option.splits)

lemma apply_agents_eq:
  "distinct pks \<Longrightarrow> db_agents (apply_agents delta pks db) pk =
     (case delta pk of Some d \<Rightarrow> if pk \<in> set pks then map_option (agent_add d) (db_agents db pk) else db_agents db pk
      | None \<Rightarrow> db_agents db pk)"
  unfolding apply_agents_def
proof (induction pks arbitrary: db)
  case (Cons s pks)
  then show ?case by (auto split: option.splits)
qed (simp split: option.splits)

lemma foldl_earnings_only:
  assumes "\<And>db x. \<exists>e. f db x = db\<lparr>db_earnings := e\<rparr>"
  shows "\<exists>e. foldl f db xs = db\<lparr>db_earnings := e\<rparr>"
proof (induction xs arbitrary: db)
  case (Cons x xs)
  obtain e where "f db x = db\<lparr>db_earnings := e\<rparr>" using assms by blast
  then show ?case using Cons.IH [of "db\<lparr>db_earnings := e\<rparr>"] by simp
next
  case Nil
  have "foldl f db [] = db\<lparr>db_earnings := db_earnings db\<rparr>" by simp
  then show ?case by blast
qed

lemma apply_earnings_only: "\<exists>e. apply_earnings net now ss db = db\<lparr>db_earnings := e\<rparr>"
  unfolding apply_earnings_def by (rule foldl_earnings_only) (auto split: prod.splits)

lemma apply_earnings_frame [simp]:
  "db_calls (apply_earnings net now ss db) = db_calls db" "db_pools (apply_earnings net now ss db) = db_pools db"
  "db_endpoints (apply_earnings net now ss db) = db_endpoints db" "db_shares (apply_earnings net now ss db) = db_shares db"
  "db_settlements (apply_earnings net now ss db) = db_settlements db" "db_agents (apply_earnings net now ss db) = db_agents db"
  using apply_earnings_only [of net now ss db] by auto

lemma apply_shares_frame [simp]:
  "db_calls (apply_shares net sig now ss db) = db_calls db" "db_pools (apply_shares net sig now ss db) = db_pools db"
  "db_endpoints (apply_shares net sig now ss db) = db_endpoints db"
  "db_settlements (apply_shares net sig now ss db) = db_settlements db" "db_agents (apply_shares net sig now ss db) = db_agents db"
  by (simp_all add: apply_shares_def)

lemma sorted_keys [simp]:
  "distinct (sorted_agents cs)" "set (sorted_agents cs) = cd_agent ` set cs"
  "distinct (sorted_slugs cs)" "set (sorted_slugs cs) = cd_slug ` set cs"
  by (simp_all add: sorted_agents_def sorted_slugs_def)

text \<open>What the inserts do: the new rows are appended, every call of the batch is then recorded.\<close>

definition new_rows :: "(string \<Rightarrow> int option) \<Rightarrow> string \<Rightarrow> call_dto list \<Rightarrow> ((string \<times> string) \<times> call_row) list" where
  "new_rows date_of net ins = List.map (\<lambda>c. ((net, cd_callId c), the (call_row_of date_of c))) ins"

lemma new_rows_Nil [simp]: "new_rows date_of net [] = []"
  by (simp add: new_rows_def)

definition recorded :: "string \<Rightarrow> indexer_db \<Rightarrow> call_dto \<Rightarrow> bool" where
  "recorded net db c \<longleftrightarrow> (net, cd_callId c) \<in> set (List.map fst (db_calls db))"

definition storable :: "(string \<Rightarrow> int option) \<Rightarrow> (call_row \<Rightarrow> bool) \<Rightarrow> call_dto \<Rightarrow> bool" where
  "storable date_of accepts c \<longleftrightarrow> (\<exists>row. call_row_of date_of c = Some row \<and> accepts row)"

lemma recorded_iff: "map_of (db_calls db) (net, cd_callId c) = None \<longleftrightarrow> \<not> recorded net db c"
  by (simp add: recorded_def map_of_eq_None_iff)

lemma tryInsertCall_cases:
  "tryInsertCall date_of accepts net c db =
     (if \<not> storable date_of accepts c then None else if recorded net db c then Some None
      else Some (Some (db\<lparr>db_calls := db_calls db @ new_rows date_of net [c]\<rparr>)))"
  by (auto simp: tryInsertCall_def storable_def recorded_iff new_rows_def split: option.splits)

lemma insert_calls_facts:
  assumes "insert_calls date_of accepts aborts net cs failed db = Some (db', ins, f)"
  shows "db' = db\<lparr>db_calls := db_calls db @ new_rows date_of net ins\<rparr> \<and> set ins \<subseteq> set cs \<and>
    (\<forall>c \<in> set cs. storable date_of accepts c \<and> recorded net db' c) \<and>
    (distinct (List.map fst (db_calls db)) \<longrightarrow> distinct (List.map fst (db_calls db'))) \<and>
    (aborts \<longrightarrow> \<not> f \<longrightarrow> ins = cs)"
  using assms
proof (induction cs arbitrary: failed db db' ins f)
  case (Cons c cs)
  then have nf: "\<not> failed" and st: "storable date_of accepts c"
    by (auto simp: tryInsertCall_cases split: if_splits)
  show ?case
  proof (cases "recorded net db c")
    case True
    then have r: "insert_calls date_of accepts aborts net cs aborts db = Some (db', ins, f)"
      using Cons.prems nf st by (simp add: tryInsertCall_cases)
    note ih = Cons.IH [OF r]
    have "recorded net db' c" using ih True by (auto simp: recorded_def)
    moreover have "aborts \<longrightarrow> f" using r by (cases cs) auto
    ultimately show ?thesis using ih st unfolding list.set by blast
  next
    case False
    let ?db = "db\<lparr>db_calls := db_calls db @ new_rows date_of net [c]\<rparr>"
    obtain ins' where r: "insert_calls date_of accepts aborts net cs False ?db = Some (db', ins', f)" and ins: "ins = c # ins'"
      using Cons.prems nf st False by (auto simp: tryInsertCall_cases)
    note ih = Cons.IH [OF r]
    have "recorded net db' c" using ih by (auto simp: recorded_def new_rows_def)
    moreover have "db' = db\<lparr>db_calls := db_calls db @ new_rows date_of net ins\<rparr>"
      using ih by (simp add: ins new_rows_def)
    moreover have "distinct (List.map fst (db_calls db)) \<longrightarrow> distinct (List.map fst (db_calls ?db))"
      using False by (simp add: new_rows_def recorded_def)
    moreover have "set ins \<subseteq> set (c # cs)" "aborts \<longrightarrow> \<not> f \<longrightarrow> ins = c # cs" using ih by (auto simp: ins)
    ultimately show ?thesis using ih st unfolding list.set by blast
  qed
qed (simp add: new_rows_def)

lemma insert_calls_known:
  assumes "\<forall>c \<in> set cs. storable date_of accepts c \<and> recorded net db c"
  shows "insert_calls date_of accepts False net cs False db = Some (db, [], False)"
    "insert_calls date_of accepts True net cs False db =
       (case cs of [] \<Rightarrow> Some (db, [], False) | [c] \<Rightarrow> Some (db, [], True) | _ \<Rightarrow> None)"
  using assms by (induction cs) (auto simp: tryInsertCall_cases split: list.splits)

lemma upsert_agents_frame:
  "upsert_agents date_of e pks db = Some db' \<Longrightarrow>
     (\<exists>ag. db' = db\<lparr>db_agents := ag\<rparr>) \<and> (\<forall>pk. db_agents db pk \<noteq> None \<longrightarrow> db_agents db' pk = db_agents db pk) \<and>
     (\<forall>pk \<in> set pks. db_agents db' pk \<noteq> None \<and> Option.bind (e pk) date_of \<noteq> None) \<and>
     (\<forall>pk. db_agents db pk = None \<longrightarrow> db_agents db' pk = None \<or> (\<exists>t. db_agents db' pk = Some (fresh_agent t)))"
proof (induction pks arbitrary: db)
  case (Cons pk pks)
  obtain ts where ts: "Option.bind (e pk) date_of = Some ts" using Cons.prems by (auto split: option.splits)
  show ?case
  proof (cases "db_agents db pk")
    case None
    let ?db = "db\<lparr>db_agents := (db_agents db)(pk \<mapsto> fresh_agent ts)\<rparr>"
    have r: "upsert_agents date_of e pks ?db = Some db'" using Cons.prems ts None by simp
    note ih = Cons.IH [OF r]
    have other: "db_agents ?db x = db_agents db x" if "x \<noteq> pk" for x using that by simp
    have "db_agents db' pk = Some (fresh_agent ts)" using ih by auto
    moreover have "\<exists>ag. db' = db\<lparr>db_agents := ag\<rparr>" using ih by auto
    moreover have "db_agents db' x = db_agents db x" if "db_agents db x \<noteq> None" for x
      using ih that None by (metis other)
    moreover have "db_agents db' x = None \<or> (\<exists>t. db_agents db' x = Some (fresh_agent t))" if "db_agents db x = None" for x
      using ih that calculation(1) by (cases "x = pk") (auto simp: other)
    ultimately show ?thesis using ih ts by auto
  next
    case (Some a)
    have "upsert_agents date_of e pks db = Some db'" using Cons.prems ts Some by simp
    from Cons.IH [OF this] show ?thesis using ts Some by auto
  qed
next
  case Nil
  have "\<exists>ag. db = db\<lparr>db_agents := ag\<rparr>" by (rule exI [of _ "db_agents db"]) simp
  with Nil show ?case by simp
qed

lemma upsert_endpoints_frame:
  "upsert_endpoints ts net slugs db = Some db' \<Longrightarrow>
     (\<exists>en. db' = db\<lparr>db_endpoints := en\<rparr>) \<and> (\<forall>k. db_endpoints db k \<noteq> None \<longrightarrow> db_endpoints db' k = db_endpoints db k) \<and>
     (\<forall>slug \<in> set slugs. db_endpoints db' (net, slug) \<noteq> None \<and> ts \<noteq> None)"
proof (induction slugs arbitrary: db)
  case (Cons slug slugs)
  obtain t where t: "ts = Some t" using Cons.prems by (auto split: option.splits)
  show ?case
  proof (cases "db_endpoints db (net, slug)")
    case None
    then obtain db1 where "upsert_endpoints ts net slugs db1 = Some db'"
      and "db1 = db\<lparr>db_endpoints := (db_endpoints db)((net, slug) \<mapsto>
             \<lparr>er_flatPremium = 0, er_percentBps = 0, er_slaLatencyMs = 0, er_imputedCost = 0, er_exposureCap = 0,
              er_paused = True, er_upstreamBase = [], er_displayName = slug, er_registeredAt = t, er_lastUpdated = t\<rparr>)\<rparr>"
      using Cons.prems t by auto
    with Cons.IH [of db1] show ?thesis using t None by (auto split: if_splits)
  next
    case (Some a)
    have "upsert_endpoints ts net slugs db = Some db'" using Cons.prems t Some by simp
    from Cons.IH [OF this] show ?thesis using t Some by auto
  qed
next
  case Nil
  have "\<exists>en. db = db\<lparr>db_endpoints := en\<rparr>" by (rule exI [of _ "db_endpoints db"]) simp
  with Nil show ?case by simp
qed

section \<open>What a committed ingest did\<close>

lemma call_row_fields:
  assumes "storable date_of accepts c"
  shows "cw_premium (the (call_row_of date_of c)) = amount (cd_premium c)"
    "cw_refund (the (call_row_of date_of c)) = amount (cd_refund c)"
    "cw_agentPubkey (the (call_row_of date_of c)) = cd_agent c"
    "cw_endpointSlug (the (call_row_of date_of c)) = cd_slug c"
    "cw_signature (the (call_row_of date_of c)) = cd_signature c"
  using assms by (auto simp: storable_def call_row_of_def amount_def split: option.splits prod.splits)

text \<open>The tables after a commit, one equation each; the first case is a batch without a new call.\<close>

lemma ingest_commits:
  assumes "ingest date_of accepts aborts dto db = (db', Inr ins)"
  shows "\<exists>ag now. (\<forall>pk. db_agents db pk \<noteq> None \<longrightarrow> ag pk = db_agents db pk) \<and>
     (\<forall>pk. db_agents db pk = None \<longrightarrow> ag pk = None \<or> (\<exists>t. ag pk = Some (fresh_agent t))) \<and>
     (\<forall>c \<in> set ins. storable date_of accepts c \<and> ag (cd_agent c) \<noteq> None) \<and> set ins \<subseteq> set (ed_calls dto) \<and>
     db_calls db' = db_calls db @ new_rows date_of (batch_network dto) ins \<and>
     (distinct (List.map fst (db_calls db)) \<longrightarrow> distinct (List.map fst (db_calls db'))) \<and>
     (\<forall>n slug. db_pools db' (n, slug) = (case perEndpoint ins slug of
         Some d \<Rightarrow> if n = batch_network dto then Some (pool_add now d (db_pools db (n, slug))) else db_pools db (n, slug)
       | None \<Rightarrow> db_pools db (n, slug))) \<and>
     (\<forall>pk. db_agents db' pk = (case perAgent date_of ins pk of
         Some d \<Rightarrow> map_option (agent_add d) (ag pk) | None \<Rightarrow> ag pk))"
proof -
  let ?net = "batch_network dto"
  have none: "perEndpoint [] = Map.empty" "perAgent date_of [] = Map.empty" by (simp_all add: perEndpoint_def perAgent_def)
  show ?thesis
  proof (cases "ins = [] \<and> db' = db")
    case True
    then show ?thesis by (intro exI [of _ "db_agents db"]) (simp add: none new_rows_def)
  next
    case False
    obtain db0 db1 db2 f where u: "upsert_agents date_of (earliest_ts (ed_calls dto)) (sorted_agents (ed_calls dto)) db = Some db0"
      "upsert_endpoints (date_of (ed_ts dto)) ?net (sorted_slugs (ed_calls dto)) db0 = Some db1"
      "insert_calls date_of accepts aborts ?net (ed_calls dto) False db1 = Some (db2, ins, f)"
      and fin: "ins = [] \<longrightarrow> db' = db2" "ins \<noteq> [] \<longrightarrow> record_settlement date_of dto ins db2 = Some db'"
      using assms False
      by (auto simp: ingest_def Let_def Option.bind_eq_Some_conv split: if_split_asm option.split_asm)
    note a = upsert_agents_frame [OF u(1)] and e = upsert_endpoints_frame [OF u(2)] and i = insert_calls_facts [OF u(3)]
    have calls: "db_calls db2 = db_calls db @ new_rows date_of ?net ins" and pools: "db_pools db2 = db_pools db"
      and agents: "db_agents db2 = db_agents db0"
      using a e i by auto
    have "db_calls db1 = db_calls db" using a e by auto
    then have dist: "distinct (List.map fst (db_calls db)) \<longrightarrow> distinct (List.map fst (db_calls db2))"
      using i by metis
    have ag: "\<forall>c \<in> set ins. storable date_of accepts c \<and> db_agents db0 (cd_agent c) \<noteq> None" "set ins \<subseteq> set (ed_calls dto)"
      using i a by auto
    have slug: "slug \<in> cd_slug ` set (ed_calls dto)" if "perEndpoint ins slug = Some d" for slug d
      using that ag(2) unfolding perEndpoint_eq by (auto split: if_splits simp: filter_empty_conv)
    have agent: "pk \<in> cd_agent ` set (ed_calls dto)" if "perAgent date_of ins pk = Some d" for pk d
      using that ag(2) perAgent_eq [of date_of ins pk] by (auto split: if_splits simp: filter_empty_conv)
    have "\<exists>now. db_calls db' = db_calls db2 \<and>
      (\<forall>n slug. db_pools db' (n, slug) = (case perEndpoint ins slug of
         Some d \<Rightarrow> if n = ?net then Some (pool_add now d (db_pools db2 (n, slug))) else db_pools db2 (n, slug)
       | None \<Rightarrow> db_pools db2 (n, slug))) \<and>
      (\<forall>pk. db_agents db' pk = (case perAgent date_of ins pk of
         Some d \<Rightarrow> map_option (agent_add d) (db_agents db2 pk) | None \<Rightarrow> db_agents db2 pk))"
    proof (cases "ins = []")
      case True
      then show ?thesis using fin by (simp add: none)
    next
      case False
      then obtain now db3 where "db' = apply_pools ?net now (perEndpoint ins) (sorted_slugs (ed_calls dto))
          (apply_shares ?net (ed_signature dto) now (perRecipient ins)
            (apply_agents (perAgent date_of ins) (sorted_agents (ed_calls dto)) db3))"
        and "db_calls db3 = db_calls db2" "db_pools db3 = db_pools db2" "db_agents db3 = db_agents db2"
        using fin by (auto simp: record_settlement_def Let_def split: if_split_asm option.split_asm)
      then show ?thesis using slug agent
        by (intro exI [of _ now]) (simp add: apply_pools_eq apply_agents_eq split: option.splits)
    qed
    then obtain now where n: "db_calls db' = db_calls db2"
      "\<forall>n slug. db_pools db' (n, slug) = (case perEndpoint ins slug of
         Some d \<Rightarrow> if n = ?net then Some (pool_add now d (db_pools db (n, slug))) else db_pools db (n, slug)
       | None \<Rightarrow> db_pools db (n, slug))"
      "\<forall>pk. db_agents db' pk = (case perAgent date_of ins pk of
         Some d \<Rightarrow> map_option (agent_add d) (db_agents db0 pk) | None \<Rightarrow> db_agents db0 pk)"
      unfolding pools agents by blast
    have a1: "\<forall>pk. db_agents db pk \<noteq> None \<longrightarrow> db_agents db0 pk = db_agents db pk"
      using a by metis
    have a2: "\<forall>pk. db_agents db pk = None \<longrightarrow> db_agents db0 pk = None \<or> (\<exists>t. db_agents db0 pk = Some (fresh_agent t))"
      using a by metis
    note d = dist [unfolded n(1) [symmetric]] and c = calls [unfolded n(1) [symmetric]]
    show ?thesis using a1 a2 ag n(2,3) d c by blast
  qed
qed

section \<open>The ledger\<close>

text \<open>Sums over the stored calls, and what the pool and agent counters must be.\<close>

definition rows_total :: "(call_row \<Rightarrow> int) \<Rightarrow> ((string \<times> string) \<times> call_row \<Rightarrow> bool) \<Rightarrow> ((string \<times> string) \<times> call_row) list \<Rightarrow> int" where
  "rows_total f P rows = sum_list (List.map (\<lambda>kr. f (snd kr)) (filter P rows))"

definition of_pool :: "string \<Rightarrow> string \<Rightarrow> (string \<times> string) \<times> call_row \<Rightarrow> bool" where
  "of_pool n slug kr \<longleftrightarrow> fst (fst kr) = n \<and> cw_endpointSlug (snd kr) = slug"

definition of_agent :: "string \<Rightarrow> (string \<times> string) \<times> call_row \<Rightarrow> bool" where
  "of_agent pk kr \<longleftrightarrow> cw_agentPubkey (snd kr) = pk"

definition pool_agrees :: "((string \<times> string) \<times> call_row) list \<Rightarrow> string \<Rightarrow> string \<Rightarrow> pool_row option \<Rightarrow> bool" where
  "pool_agrees rows n slug row = (case row of
     None \<Rightarrow> filter (of_pool n slug) rows = []
   | Some p \<Rightarrow> po_premiums p = rows_total cw_premium (of_pool n slug) rows \<and>
       po_refunds p = rows_total cw_refund (of_pool n slug) rows \<and>
       po_balance p = po_deposits p + po_premiums p - po_refunds p - po_fees p)"

definition agent_agrees :: "((string \<times> string) \<times> call_row) list \<Rightarrow> string \<Rightarrow> agent_row option \<Rightarrow> bool" where
  "agent_agrees rows pk row = (case row of
     None \<Rightarrow> filter (of_agent pk) rows = []
   | Some a \<Rightarrow> ag_callCount a = int (length (filter (of_agent pk) rows)) \<and>
       ag_totalPremiums a = rows_total cw_premium (of_agent pk) rows \<and>
       ag_totalRefunds a = rows_total cw_refund (of_agent pk) rows)"

definition ledger_ok :: "indexer_db \<Rightarrow> bool" where
  "ledger_ok db \<longleftrightarrow> distinct (List.map fst (db_calls db)) \<and>
     (\<forall>n slug. pool_agrees (db_calls db) n slug (db_pools db (n, slug))) \<and>
     (\<forall>pk. agent_agrees (db_calls db) pk (db_agents db pk))"

lemma rows_total_append [simp]: "rows_total f P (xs @ ys) = rows_total f P xs + rows_total f P ys"
  by (simp add: rows_total_def)

lemma filter_new_rows:
  assumes "\<forall>c \<in> set ins. storable date_of accepts c"
  shows "filter (of_pool n slug) (new_rows date_of net ins) = (if n = net then new_rows date_of net (filter (\<lambda>c. cd_slug c = slug) ins) else [])"
    "filter (of_agent pk) (new_rows date_of net ins) = new_rows date_of net (filter (\<lambda>c. cd_agent c = pk) ins)"
  using assms by (induction ins) (auto simp: new_rows_def of_pool_def of_agent_def call_row_fields)

lemma total_new_rows:
  assumes "\<forall>c \<in> set ins. storable date_of accepts c"
  shows "rows_total cw_premium (of_pool n slug) (new_rows date_of net ins) = (if n = net then total_of (\<lambda>c. amount (cd_premium c)) (\<lambda>c. cd_slug c = slug) ins else 0)"
    "rows_total cw_refund (of_pool n slug) (new_rows date_of net ins) = (if n = net then total_of (\<lambda>c. amount (cd_refund c)) (\<lambda>c. cd_slug c = slug) ins else 0)"
    "rows_total cw_premium (of_agent pk) (new_rows date_of net ins) = total_of (\<lambda>c. amount (cd_premium c)) (\<lambda>c. cd_agent c = pk) ins"
    "rows_total cw_refund (of_agent pk) (new_rows date_of net ins) = total_of (\<lambda>c. amount (cd_refund c)) (\<lambda>c. cd_agent c = pk) ins"
    "int (length (filter (of_agent pk) (new_rows date_of net ins))) = total_of (\<lambda>_. 1) (\<lambda>c. cd_agent c = pk) ins"
  unfolding rows_total_def filter_new_rows [OF assms] total_of_def
  using assms by (auto simp: new_rows_def comp_def call_row_fields [where accepts = accepts] sum_list_triv intro!: arg_cong [where f = sum_list] map_cong)

lemma pool_agrees_add:
  assumes "pool_agrees rows n slug row" and st: "\<forall>c \<in> set ins. storable date_of accepts c"
  shows "pool_agrees (rows @ new_rows date_of net ins) n slug (case perEndpoint ins slug of
         Some d \<Rightarrow> if n = net then Some (pool_add now d row) else row | None \<Rightarrow> row)"
proof (cases "filter (\<lambda>c. cd_slug c = slug) ins = []")
  case True
  then have z: "total_of f (\<lambda>c. cd_slug c = slug) ins = 0" for f by (simp add: total_of_def)
  show ?thesis using assms(1) unfolding perEndpoint_eq
    by (cases "n = net") (simp_all add: pool_agrees_def filter_new_rows [OF st] total_new_rows [OF st] True z split: option.splits)
next
  case False
  show ?thesis using assms(1) unfolding perEndpoint_eq
    by (cases row; cases "n = net") (auto simp: pool_agrees_def filter_new_rows [OF st] total_new_rows [OF st] False pool_add_def Let_def
        rows_total_def [of _ _ rows])
qed

lemma agent_agrees_add:
  assumes "agent_agrees rows pk row" and st: "\<forall>c \<in> set ins. storable date_of accepts c \<and> ag (cd_agent c) \<noteq> None"
    and old: "row \<noteq> None \<longrightarrow> ag pk = row" and new: "row = None \<longrightarrow> ag pk = None \<or> (\<exists>t. ag pk = Some (fresh_agent t))"
  shows "agent_agrees (rows @ new_rows date_of net ins) pk (case perAgent date_of ins pk of
         Some d \<Rightarrow> map_option (agent_add d) (ag pk) | None \<Rightarrow> ag pk)"
proof -
  have st': "\<forall>c \<in> set ins. storable date_of accepts c" using st by blast
  have base: "agent_agrees rows pk (ag pk)"
    using assms(1) old new by (cases row) (auto simp: agent_agrees_def fresh_agent_def rows_total_def)
  obtain t where d: "perAgent date_of ins pk = (if filter (\<lambda>c. cd_agent c = pk) ins = [] then None else
     Some \<lparr>ad_callCount = total_of (\<lambda>_. 1) (\<lambda>c. cd_agent c = pk) ins,
       ad_premium = total_of (\<lambda>c. amount (cd_premium c)) (\<lambda>c. cd_agent c = pk) ins,
       ad_refund = total_of (\<lambda>c. amount (cd_refund c)) (\<lambda>c. cd_agent c = pk) ins, ad_lastCallAt = t\<rparr>)"
    using perAgent_eq [of date_of ins pk] by blast
  show ?thesis
  proof (cases "filter (\<lambda>c. cd_agent c = pk) ins = []")
    case True
    then have z: "total_of f (\<lambda>c. cd_agent c = pk) ins = 0" for f by (simp add: total_of_def)
    show ?thesis using base unfolding d
      by (simp add: agent_agrees_def filter_new_rows [OF st'] total_new_rows [OF st'] True z split: option.splits)
  next
    case False
    then obtain a where a: "ag pk = Some a" using st by (fastforce simp: filter_empty_conv)
    have "int (length (filter (of_agent pk) (rows @ new_rows date_of net ins))) =
        int (length (filter (of_agent pk) rows)) + total_of (\<lambda>_. 1) (\<lambda>c. cd_agent c = pk) ins"
      using total_new_rows(5) [OF st', of pk net] by simp
    then show ?thesis using base False unfolding d a
      by (simp add: agent_agrees_def total_new_rows [OF st'] agent_add_def del: filter_append)
  qed
qed

lemma ingest_keeps_ledger:
  assumes "ingest date_of accepts aborts dto db = (db', Inr ins)" and "ledger_ok db"
  shows "ledger_ok db'"
proof -
  obtain ag now where ag: "\<forall>pk. db_agents db pk \<noteq> None \<longrightarrow> ag pk = db_agents db pk"
      "\<forall>pk. db_agents db pk = None \<longrightarrow> ag pk = None \<or> (\<exists>t. ag pk = Some (fresh_agent t))"
    and st: "\<forall>c \<in> set ins. storable date_of accepts c \<and> ag (cd_agent c) \<noteq> None"
    and calls: "db_calls db' = db_calls db @ new_rows date_of (batch_network dto) ins"
    and dist: "distinct (List.map fst (db_calls db)) \<longrightarrow> distinct (List.map fst (db_calls db'))"
    and pools: "\<forall>n slug. db_pools db' (n, slug) = (case perEndpoint ins slug of
         Some d \<Rightarrow> if n = batch_network dto then Some (pool_add now d (db_pools db (n, slug))) else db_pools db (n, slug)
       | None \<Rightarrow> db_pools db (n, slug))"
    and agents: "\<forall>pk. db_agents db' pk = (case perAgent date_of ins pk of
         Some d \<Rightarrow> map_option (agent_add d) (ag pk) | None \<Rightarrow> ag pk)"
    using ingest_commits [OF assms(1)] by blast
  have st': "\<forall>c \<in> set ins. storable date_of accepts c" using st by blast
  have "pool_agrees (db_calls db') n slug (db_pools db' (n, slug))" for n slug
    unfolding calls pools [rule_format]
    using pool_agrees_add [OF _ st', of "db_calls db" n slug "db_pools db (n, slug)"] assms(2) by (simp add: ledger_ok_def)
  moreover have "agent_agrees (db_calls db') pk (db_agents db' pk)" for pk
    unfolding calls agents [rule_format]
    using agent_agrees_add [of "db_calls db" pk "db_agents db pk" ins date_of accepts ag] assms(2) st ag
    by (simp add: ledger_ok_def)
  moreover have "distinct (List.map fst (db_calls db'))" using dist assms(2) unfolding ledger_ok_def by blast
  ultimately show ?thesis by (simp add: ledger_ok_def)
qed

section \<open>The interface\<close>

text \<open>
  What the callers of a database operation rely on: an operation that fails leaves the tables as they
  were, and one that succeeds keeps the invariant. Then the invariant survives any run of them.
\<close>

locale atomic_op =
  fixes run :: "'i \<Rightarrow> 'db \<Rightarrow> 'db \<times> (string + 'a)" and inv :: "'db \<Rightarrow> bool"
  assumes rolled_back: "run i db = (db', Inl e) \<Longrightarrow> db' = db"
    and keeps: "run i db = (db', Inr a) \<Longrightarrow> inv db \<Longrightarrow> inv db'"
begin

lemma one_keeps: "inv db \<Longrightarrow> inv (fst (run i db))"
  using rolled_back keeps by (cases "run i db"; cases "snd (run i db)") auto

lemma run_keeps: "inv db \<Longrightarrow> inv (foldl (\<lambda>db i. fst (run i db)) db is)"
  by (induction "is" arbitrary: db) (auto simp: one_keeps)

end

lemma ingest_rolls_back: "ingest date_of accepts aborts dto db = (db', Inl e) \<Longrightarrow> db' = db"
  by (auto simp: ingest_def Let_def split: if_split_asm option.split_asm prod.split_asm)

type_synonym events_call = "string option \<times> string option \<times> event_dto"

definition events_call :: "(string \<Rightarrow> int option) \<Rightarrow> (call_row \<Rightarrow> bool) \<Rightarrow> bool \<Rightarrow> events_call \<Rightarrow> indexer_db \<Rightarrow> indexer_db \<times> (string + call_dto list)" where
  "events_call date_of accepts aborts r = (case r of (secret, authorization, dto) \<Rightarrow>
     events_request date_of accepts aborts secret authorization dto)"

interpretation events_op: atomic_op "events_call date_of accepts aborts" ledger_ok
proof unfold_locales
  show "db' = db" if "events_call date_of accepts aborts i db = (db', Inl e)" for i db db' e
    using that by (cases i) (auto simp: events_call_def events_request_def Let_def dest: ingest_rolls_back split: if_split_asm)
  show "ledger_ok db'" if "events_call date_of accepts aborts i db = (db', Inr a)" "ledger_ok db" for i db db' a
    using that by (cases i) (auto simp: events_call_def events_request_def Let_def dest: ingest_keeps_ledger split: if_split_asm)
qed

definition empty_db :: indexer_db where
  "empty_db = \<lparr>db_calls = [], db_agents = Map.empty, db_endpoints = Map.empty, db_settlements = Map.empty,
     db_shares = [], db_pools = Map.empty, db_earnings = Map.empty\<rparr>"

section \<open>Properties\<close>

text \<open>
  C22: the indexer's books balance. After any sequence of requests, authorised or not, accepted, refused
  or repeated, and whatever the dates, the column limits and the transaction semantics: no call is
  stored twice; every pool's premiums and refunds are the sums over the stored calls of that network
  and endpoint, its balance is deposits plus premiums less refunds less fees, and an endpoint without
  a pool has no calls; every agent's counters are the count and the sums over its stored calls.
\<close>

theorem ledger_reconciles:
  "ledger_ok (foldl (\<lambda>db r. fst (events_call date_of accepts aborts r db)) empty_db reqs)"
  by (rule events_op.run_keeps)
    (simp add: ledger_ok_def empty_db_def pool_agrees_def agent_agrees_def)

lemma upsert_agents_present:
  "\<forall>pk \<in> set pks. db_agents db pk \<noteq> None \<and> Option.bind (e pk) date_of \<noteq> None \<Longrightarrow> upsert_agents date_of e pks db = Some db"
  by (induction pks) (auto split: option.splits)

lemma upsert_endpoints_present:
  "\<forall>slug \<in> set slugs. db_endpoints db (net, slug) \<noteq> None \<and> ts \<noteq> None \<Longrightarrow> upsert_endpoints ts net slugs db = Some db"
  by (induction slugs) (auto split: option.splits)

text \<open>
  C23: ingest is idempotent. Posting a batch again after it was accepted changes no table: the second
  time nothing is inserted and nothing counted. The answer is an empty acceptance, or, when a failed
  statement aborts the transaction, possibly an error.
\<close>

theorem ingest_idempotent:
  assumes "ingest date_of accepts aborts dto db = (db1, Inr ins)"
  shows "fst (ingest date_of accepts aborts dto db1) = db1 \<and>
    (snd (ingest date_of accepts aborts dto db1) = Inr [] \<or>
     aborts \<and> snd (ingest date_of accepts aborts dto db1) = Inl ''InternalServerError'')"
proof (cases "ins = [] \<and> db1 = db")
  case True
  then show ?thesis using assms by simp
next
  case False
  let ?net = "batch_network dto"
  obtain dbA dbE db2 f where v: "validate_dto dto"
    and u: "upsert_agents date_of (earliest_ts (ed_calls dto)) (sorted_agents (ed_calls dto)) db = Some dbA"
      "upsert_endpoints (date_of (ed_ts dto)) ?net (sorted_slugs (ed_calls dto)) dbA = Some dbE"
      "insert_calls date_of accepts aborts ?net (ed_calls dto) False dbE = Some (db2, ins, f)"
    and fin: "ins = [] \<longrightarrow> db1 = db2" "ins \<noteq> [] \<longrightarrow> record_settlement date_of dto ins db2 = Some db1"
    using assms False
    by (auto simp: ingest_def Let_def Option.bind_eq_Some_conv split: if_split_asm option.split_asm)
  note a = upsert_agents_frame [OF u(1)] and e = upsert_endpoints_frame [OF u(2)] and i = insert_calls_facts [OF u(3)]
  have "db_calls db1 = db_calls db2 \<and> db_endpoints db1 = db_endpoints db2 \<and> (\<forall>pk. db_agents db2 pk \<noteq> None \<longrightarrow> db_agents db1 pk \<noteq> None)"
    using fin by (cases "ins = []")
      (auto simp: record_settlement_def Let_def apply_agents_eq split: if_split_asm option.split_asm option.split)
  moreover have "db_endpoints db2 = db_endpoints dbE" "db_agents db2 = db_agents dbA" using i e by auto
  ultimately have p: "\<forall>pk \<in> set (sorted_agents (ed_calls dto)). db_agents db1 pk \<noteq> None \<and> Option.bind (earliest_ts (ed_calls dto) pk) date_of \<noteq> None"
    "\<forall>slug \<in> set (sorted_slugs (ed_calls dto)). db_endpoints db1 (?net, slug) \<noteq> None \<and> date_of (ed_ts dto) \<noteq> None"
    "\<forall>c \<in> set (ed_calls dto). storable date_of accepts c \<and> recorded ?net db1 c"
    using a e i unfolding recorded_def by metis+
  note known = insert_calls_known [OF p(3)]
  show ?thesis using v known
    by (cases aborts) (auto simp: ingest_def Let_def upsert_agents_present [OF p(1)] upsert_endpoints_present [OF p(2)] split: list.splits)
qed

definition sample_call :: call_dto where
  "sample_call = \<lparr>cd_callId = ''c1'', cd_agent = ''agent'', cd_slug = ''fal'', cd_premium = ''500'', cd_refund = ''200'',
     cd_latencyMs = 9, cd_outcome = ''server_error'', cd_source = None, cd_verdictSource = None, cd_payee = None,
     cd_resource = None, cd_ts = ''2026-01-01'', cd_settledAt = ''2026-01-01'', cd_signature = ''sig'',
     cd_shares = Some [\<lparr>sd_kind = 0, sd_pubkey = ''vault'', sd_amount = ''50''\<rparr>], cd_network = None\<rparr>"

definition sample_dto :: event_dto where
  "sample_dto = \<lparr>ed_signature = ''sig'', ed_batchSize = 1, ed_totalPremiums = ''500'', ed_totalRefunds = ''200'',
     ed_ts = ''2026-01-01'', ed_calls = [sample_call], ed_network = None\<rparr>"

lemma sample_numbers: "bigint_of_string ''500'' = Some 500" "bigint_of_string ''200'' = Some 200" "bigint_of_string ''50'' = Some 50"
  by code_simp+

lemma sample_ingest:
  "\<exists>db1. ingest (\<lambda>_. Some 0) (\<lambda>_. True) aborts sample_dto empty_db = (db1, Inr [sample_call])"
  by (simp add: ingest_def validate_dto_def sample_dto_def sample_call_def batch_network_def Let_def sorted_agents_def sorted_slugs_def
      earliest_ts_def tryInsertCall_def call_row_of_def outcomeToBreach_def sample_numbers empty_db_def
      record_settlement_def shares_of_def)

theorem ingest_idempotent_witness:
  "\<exists>db1. ingest (\<lambda>_. Some 0) (\<lambda>_. True) False sample_dto empty_db = (db1, Inr [sample_call]) \<and>
     ingest (\<lambda>_. Some 0) (\<lambda>_. True) False sample_dto db1 = (db1, Inr [])"
proof -
  obtain db1 where i: "ingest (\<lambda>_. Some 0) (\<lambda>_. True) False sample_dto empty_db = (db1, Inr [sample_call])"
    using sample_ingest by blast
  from ingest_idempotent [OF i] i show ?thesis by (metis prod.collapse)
qed

lemma insert_calls_abort:
  assumes "insert_calls date_of accepts True net cs False db = Some (db', ins, f)"
  shows "if f then Suc (length ins) = length cs else \<forall>c \<in> set cs. \<not> recorded net db c"
  using assms
proof (induction cs arbitrary: db db' ins f)
  case (Cons c cs)
  show ?case
  proof (cases "recorded net db c")
    case True
    then have "insert_calls date_of accepts True net cs True db = Some (db', ins, f)"
      using Cons.prems by (auto simp: tryInsertCall_cases split: if_splits)
    then have "cs = []" "ins = []" "f" by (cases cs; simp)+
    then show ?thesis by simp
  next
    case False
    then obtain ins' where r: "insert_calls date_of accepts True net cs False (db\<lparr>db_calls := db_calls db @ new_rows date_of net [c]\<rparr>) = Some (db', ins', f)"
      and ins: "ins = c # ins'"
      using Cons.prems by (auto simp: tryInsertCall_cases split: if_splits)
    from Cons.IH [OF r] show ?thesis using False by (auto simp: ins recorded_def new_rows_def split: if_splits)
  qed
qed simp

text \<open>
  On PostgreSQL a partly known batch is refused. When a failed statement aborts the transaction,
  catching the unique violation does not help: a batch of two or more calls of which one is already
  recorded is answered with an error and records nothing, its new calls included, however often it is
  posted.
\<close>

theorem known_call_refuses_batch:
  assumes "validate_dto dto" and "c \<in> set (ed_calls dto)" and "recorded (batch_network dto) db c"
    and "2 \<le> length (ed_calls dto)"
  shows "ingest date_of accepts True dto db = (db, Inl ''InternalServerError'')"
proof -
  have "False" if u: "upsert_agents date_of (earliest_ts (ed_calls dto)) (sorted_agents (ed_calls dto)) db = Some dbA"
      "upsert_endpoints (date_of (ed_ts dto)) (batch_network dto) (sorted_slugs (ed_calls dto)) dbA = Some dbE"
      "insert_calls date_of accepts True (batch_network dto) (ed_calls dto) False dbE = Some (db2, ins, f)"
    and n: "ins = [] \<or> \<not> f" for dbA dbE db2 ins f
  proof -
    have "db_calls dbE = db_calls db" using upsert_agents_frame [OF u(1)] upsert_endpoints_frame [OF u(2)] by auto
    then have "recorded (batch_network dto) dbE c" using assms(3) by (simp add: recorded_def)
    then show False using insert_calls_abort [OF u(3)] assms(2,4) n by (cases f) auto
  qed
  then show ?thesis using assms(1)
    by (fastforce simp: ingest_def Let_def Option.bind_eq_Some_conv split: option.split)
qed

theorem known_call_refuses_batch_witness:
  "\<exists>db1. ingest (\<lambda>_. Some 0) (\<lambda>_. True) True sample_dto empty_db = (db1, Inr [sample_call]) \<and>
     ingest (\<lambda>_. Some 0) (\<lambda>_. True) True (sample_dto\<lparr>ed_calls := [sample_call, sample_call\<lparr>cd_callId := ''c2''\<rparr>]\<rparr>) db1 =
       (db1, Inl ''InternalServerError'')"
proof -
  obtain db1 where i: "ingest (\<lambda>_. Some 0) (\<lambda>_. True) True sample_dto empty_db = (db1, Inr [sample_call])"
    using sample_ingest by blast
  let ?dto = "sample_dto\<lparr>ed_calls := [sample_call, sample_call\<lparr>cd_callId := ''c2''\<rparr>]\<rparr>"
  have n: "batch_network sample_dto = ''solana-devnet''" "batch_network ?dto = ''solana-devnet''"
    by (simp_all add: batch_network_def sample_dto_def sample_call_def)
  have "recorded (batch_network ?dto) db1 sample_call"
    using ingest_commits [OF i] by (auto simp: recorded_def new_rows_def n)
  moreover have "validate_dto ?dto" by (simp add: validate_dto_def n(2)) (simp add: sample_call_def)
  ultimately have "ingest (\<lambda>_. Some 0) (\<lambda>_. True) True ?dto db1 = (db1, Inl ''InternalServerError'')"
    by (intro known_call_refuses_batch [where c = sample_call]) simp_all
  with i show ?thesis by blast
qed

end
