(* ===== verification/Reorg.thy ===== *)
theory Reorg
  imports IndexerEvents
begin

text \<open>
  \<open>packages/indexer/src/reorg/reorg.service.ts\<close>: detecting stored calls that are not on the canonical
  chain, and rolling one of them back. The adapter's event stream comes in rounds: round \<open>k\<close> yields
  call ids, fails, or is the end of the stream. The one adapter that has a stream (\<open>tail_round\<close> of
  the EVM adapter) never ends it. \<open>None\<close> in place of a stream: no adapter for the network, or one
  that cannot tail.
\<close>

definition SAFETY_CAP :: nat where "SAFETY_CAP = 50000"

record reconcile_result =
  rr_scanned :: nat
  rr_dbCalls :: nat
  rr_orphanCallIds :: "string list"
  rr_truncated :: bool

text \<open>The loop over the stream: ids are remembered until the counter reaches the cap.\<close>

fun scan_events :: "nat \<Rightarrow> string list \<Rightarrow> string list \<Rightarrow> nat \<Rightarrow> string list \<times> nat" where
  "scan_events cap [] seen scanned = (seen, scanned)"
| "scan_events cap (e # es) seen scanned =
     (if scanned + 1 \<ge> cap then (e # seen, scanned + 1) else scan_events cap es (e # seen) (scanned + 1))"

datatype tail_event = Yields "string list" | Fails string | Ends

text \<open>The loop over the rounds; out of fuel (\<open>None\<close>) it is still waiting for the next round.\<close>

fun scan_rounds :: "nat \<Rightarrow> (nat \<Rightarrow> tail_event) \<Rightarrow> nat \<Rightarrow> nat \<Rightarrow> string list \<Rightarrow> nat \<Rightarrow> (string + string list \<times> nat) option" where
  "scan_rounds cap rounds 0 k seen scanned = None"
| "scan_rounds cap rounds (Suc fuel) k seen scanned =
     (case rounds k of Fails e \<Rightarrow> Some (Inl e)
      | Ends \<Rightarrow> Some (Inr (seen, scanned))
      | Yields es \<Rightarrow> (case scan_events cap es seen scanned of (seen', scanned') \<Rightarrow>
          if scanned' \<ge> cap then Some (Inr (seen', scanned')) else scan_rounds cap rounds fuel (k + 1) seen' scanned'))"

definition network_calls :: "string \<Rightarrow> indexer_db \<Rightarrow> string list" where
  "network_calls net db = List.map (\<lambda>((n, i), r). i) (filter (\<lambda>((n, i), r). n = net) (db_calls db))"

definition runReconcile :: "nat \<Rightarrow> (nat \<Rightarrow> tail_event) option \<Rightarrow> string \<Rightarrow> indexer_db \<Rightarrow> (string + reconcile_result) option" where
  "runReconcile fuel events net db =
     (case events of None \<Rightarrow> Some (Inl ''adapter does not expose tailSettlementEvents'')
      | Some rounds \<Rightarrow>
          (case scan_rounds SAFETY_CAP rounds fuel 0 [] 0 of None \<Rightarrow> None
           | Some (Inl e) \<Rightarrow> Some (Inl e)
           | Some (Inr (seen, scanned)) \<Rightarrow>
               let dbCalls = network_calls net db in
               Some (Inr \<lparr>rr_scanned = scanned, rr_dbCalls = length dbCalls,
                          rr_orphanCallIds = filter (\<lambda>i. i \<notin> set seen) dbCalls,
                          rr_truncated = (scanned \<ge> SAFETY_CAP)\<rparr>)))"

text \<open>\<open>rollback\<close>: updating or deleting a row that does not exist throws and rolls everything back.\<close>

fun debit_earnings :: "string \<Rightarrow> share_row list \<Rightarrow> indexer_db \<Rightarrow> indexer_db option" where
  "debit_earnings net [] db = Some db"
| "debit_earnings net (s # ss) db =
     (case db_earnings db (net, sr_pubkey s) of None \<Rightarrow> None
      | Some e \<Rightarrow> debit_earnings net ss
          (db\<lparr>db_earnings := (db_earnings db)((net, sr_pubkey s) \<mapsto> e\<lparr>ea_lifetime := ea_lifetime e - sr_amount s\<rparr>)\<rparr>))"

definition delete_settlement :: "string \<Rightarrow> string \<Rightarrow> indexer_db \<Rightarrow> indexer_db option" where
  "delete_settlement net sig db =
     (let mine = (\<lambda>r. sr_network r = net \<and> sr_settlementSig r = sig) in
      case debit_earnings net (filter mine (db_shares db)) db of None \<Rightarrow> None
      | Some db1 \<Rightarrow>
          if db_settlements db1 (net, sig) = None then None
          else Some (db1\<lparr>db_shares := filter (\<lambda>r. \<not> mine r) (db_shares db1),
                         db_settlements := (db_settlements db1)((net, sig) := None)\<rparr>))"

definition rollback :: "string \<Rightarrow> string \<Rightarrow> indexer_db \<Rightarrow> indexer_db \<times> (string + unit)" where
  "rollback net callId db =
     (case map_of (db_calls db) (net, callId) of
        None \<Rightarrow> (db, Inl ''no Call row'')
      | Some call \<Rightarrow>
          (case db_pools db (net, cw_endpointSlug call) of
             None \<Rightarrow> (db, Inl ''Record to update not found'')
           | Some p \<Rightarrow>
               let db1 = db\<lparr>db_pools := (db_pools db)((net, cw_endpointSlug call) \<mapsto>
                     p\<lparr>po_balance := po_balance p - cw_premium call\<rparr>)\<rparr>;
                   callsInBatch = length (filter (\<lambda>((n, i), r). n = net \<and> cw_signature r = cw_signature call) (db_calls db1))
               in case (if callsInBatch = 1 then delete_settlement net (cw_signature call) db1 else Some db1) of
                    None \<Rightarrow> (db, Inl ''Record not found'')
                  | Some db2 \<Rightarrow> (db2\<lparr>db_calls := filter (\<lambda>kr. fst kr \<noteq> (net, callId)) (db_calls db2)\<rparr>, Inr ())))"

section \<open>Lemmas\<close>

lemma scan_events_eq:
  "scanned < cap \<Longrightarrow> (case scan_events cap es seen scanned of (seen', n) \<Rightarrow>
     set seen' = set seen \<union> set (take (cap - scanned) es) \<and> n = min cap (scanned + length es))"
proof (induction cap es seen scanned rule: scan_events.induct)
  case (2 cap e es seen scanned)
  show ?case
  proof (cases "scanned + 1 \<ge> cap")
    case True
    then have "cap = scanned + 1" using 2 by simp
    then show ?thesis by simp
  next
    case False
    then have k: "cap - scanned = Suc (cap - (scanned + 1))" "scanned + 1 < cap" by auto
    from 2(1) [OF _ k(2)] False show ?thesis unfolding k(1) by (auto split: prod.splits)
  qed
qed simp

lemma debit_earnings_frame:
  "debit_earnings net ss db = Some db' \<Longrightarrow> db_calls db' = db_calls db \<and> db_pools db' = db_pools db \<and>
     db_agents db' = db_agents db \<and> db_shares db' = db_shares db \<and> db_settlements db' = db_settlements db"
  by (induction net ss db rule: debit_earnings.induct) (auto split: option.splits)

lemma delete_settlement_frame:
  "delete_settlement net sig db = Some db' \<Longrightarrow> db_calls db' = db_calls db \<and> db_pools db' = db_pools db \<and> db_agents db' = db_agents db"
  by (auto simp: delete_settlement_def Let_def dest!: debit_earnings_frame split: option.splits if_splits)

lemma rollback_facts:
  assumes "rollback net i db = (db', Inr u)"
  shows "\<exists>call p. map_of (db_calls db) (net, i) = Some call \<and> db_pools db (net, cw_endpointSlug call) = Some p \<and>
    db_pools db' = (db_pools db)((net, cw_endpointSlug call) \<mapsto> p\<lparr>po_balance := po_balance p - cw_premium call\<rparr>) \<and>
    db_agents db' = db_agents db \<and> db_calls db' = filter (\<lambda>kr. fst kr \<noteq> (net, i)) (db_calls db)"
  using assms
  by (auto simp: rollback_def Let_def dest!: delete_settlement_frame split: option.splits if_splits)

text \<open>The call ids that rounds \<open>k\<close> to \<open>n - 1\<close> yield.\<close>

definition stream_ids :: "(nat \<Rightarrow> tail_event) \<Rightarrow> nat \<Rightarrow> nat \<Rightarrow> string list" where
  "stream_ids rounds k n = concat (List.map (\<lambda>j. case rounds j of Yields es \<Rightarrow> es | _ \<Rightarrow> []) [k..<n])"

definition yields :: "tail_event \<Rightarrow> bool" where
  "yields t \<longleftrightarrow> (\<exists>es. t = Yields es)"

lemma stream_ids_step:
  "stream_ids rounds k k = []"
  "k < n \<Longrightarrow> rounds k = Yields es \<Longrightarrow> stream_ids rounds k n = es @ stream_ids rounds (Suc k) n"
  by (simp_all add: stream_ids_def upt_conv_Cons)

lemma scan_rounds_result:
  "scanned < cap \<Longrightarrow> scan_rounds cap rounds fuel k seen scanned = Some res \<Longrightarrow>
     \<exists>n \<ge> k. (\<forall>j. k \<le> j \<and> j < n \<longrightarrow> yields (rounds j)) \<and>
       (case res of Inl e \<Rightarrow> rounds n = Fails e
        | Inr (seen', m) \<Rightarrow> set seen' = set seen \<union> set (take (cap - scanned) (stream_ids rounds k n)) \<and>
            m = min cap (scanned + length (stream_ids rounds k n)) \<and>
            (rounds n = Ends \<or> cap \<le> scanned + length (stream_ids rounds k n)))"
proof (induction fuel arbitrary: k seen scanned)
  case (Suc fuel)
  show ?case
  proof (cases "rounds k")
    case (Yields es)
    obtain seen1 m1 where s: "scan_events cap es seen scanned = (seen1, m1)" by force
    have m1: "set seen1 = set seen \<union> set (take (cap - scanned) es)" "m1 = min cap (scanned + length es)"
      using scan_events_eq [OF Suc.prems(1), where es = es and seen = seen] s by auto
    show ?thesis
    proof (cases "m1 \<ge> cap")
      case True
      have "res = Inr (seen1, m1)" using Suc.prems(2) Yields s True by simp
      moreover have "stream_ids rounds k (Suc k) = es" using Yields by (simp add: stream_ids_step)
      moreover have "\<forall>j. k \<le> j \<and> j < Suc k \<longrightarrow> yields (rounds j)" using Yields by (auto simp: yields_def less_Suc_eq_le)
      ultimately show ?thesis using m1 True by (intro exI [of _ "Suc k"]) auto
    next
      case False
      then have lt: "m1 < cap" "m1 = scanned + length es" using m1(2) by auto
      have "scan_rounds cap rounds fuel (Suc k) seen1 m1 = Some res" using Suc.prems(2) Yields s False by simp
      from Suc.IH [OF lt(1) this] obtain n where n: "Suc k \<le> n" "\<forall>j. Suc k \<le> j \<and> j < n \<longrightarrow> yields (rounds j)"
        "case res of Inl e \<Rightarrow> rounds n = Fails e
        | Inr (seen', m) \<Rightarrow> set seen' = set seen1 \<union> set (take (cap - m1) (stream_ids rounds (Suc k) n)) \<and>
            m = min cap (m1 + length (stream_ids rounds (Suc k) n)) \<and>
            (rounds n = Ends \<or> cap \<le> m1 + length (stream_ids rounds (Suc k) n))" by blast
      have ids: "stream_ids rounds k n = es @ stream_ids rounds (Suc k) n" using n(1) Yields by (simp add: stream_ids_step)
      have "k \<le> n" using n(1) by simp
      moreover have "yields (rounds j)" if "k \<le> j" "j < n" for j
        using n(2) Yields that by (cases "j = k") (auto simp: yields_def)
      moreover have "take (cap - scanned) es = es" using lt by simp
      ultimately show ?thesis using n(3) m1(1) lt(2) ids
        by (intro exI [of _ n]) (auto simp: add.assoc split: sum.splits prod.splits)
    qed
  next
    case (Fails e)
    then show ?thesis using Suc.prems by (intro exI [of _ k]) auto
  next
    case Ends
    then show ?thesis using Suc.prems by (intro exI [of _ k]) (auto simp: stream_ids_step)
  qed
qed simp

lemma scan_rounds_returns:
  "scanned < cap \<Longrightarrow> k \<le> n \<Longrightarrow> n < k + fuel \<Longrightarrow> (\<And>j. k \<le> j \<Longrightarrow> j < n \<Longrightarrow> yields (rounds j)) \<Longrightarrow>
     \<not> yields (rounds n) \<or> cap \<le> scanned + length (stream_ids rounds k n) \<Longrightarrow>
     scan_rounds cap rounds fuel k seen scanned \<noteq> None"
proof (induction fuel arbitrary: k seen scanned)
  case (Suc fuel)
  show ?case
  proof (cases "rounds k")
    case (Yields es)
    have ne: "k < n"
    proof (rule ccontr)
      assume "\<not> k < n"
      then have "n = k" using Suc.prems(2) by simp
      with Suc.prems(1,5) Yields show False by (auto simp: yields_def stream_ids_step)
    qed
    obtain seen1 m1 where s: "scan_events cap es seen scanned = (seen1, m1)" by force
    have m1: "m1 = min cap (scanned + length es)"
      using scan_events_eq [OF Suc.prems(1), where es = es and seen = seen] s by auto
    show ?thesis
    proof (cases "m1 \<ge> cap")
      case False
      then have lt: "m1 < cap" "m1 = scanned + length es" using m1 by auto
      have "scan_rounds cap rounds fuel (Suc k) seen1 m1 \<noteq> None"
      proof (rule Suc.IH [OF lt(1)])
        show "\<not> yields (rounds n) \<or> cap \<le> m1 + length (stream_ids rounds (Suc k) n)"
          using Suc.prems(5) stream_ids_step(2) [of k n rounds es] ne Yields lt(2) by auto
      qed (use ne Suc.prems in auto)
      then show ?thesis using Yields s False by simp
    qed (use Yields s in simp)
  qed simp_all
qed simp

lemma runReconcile_waits:
  "runReconcile fuel (Some rounds) net db \<noteq> None \<longleftrightarrow> scan_rounds SAFETY_CAP rounds fuel 0 [] 0 \<noteq> None"
  by (auto simp: runReconcile_def Let_def split: option.split sum.split prod.split)

lemma reconcile_returns:
  "(\<exists>fuel. runReconcile fuel (Some rounds) net db \<noteq> None) \<longleftrightarrow>
     (\<exists>n. (\<forall>j < n. yields (rounds j)) \<and> (\<not> yields (rounds n) \<or> 50000 \<le> length (stream_ids rounds 0 n)))"
proof
  assume "\<exists>fuel. runReconcile fuel (Some rounds) net db \<noteq> None"
  then obtain fuel res where "scan_rounds SAFETY_CAP rounds fuel 0 [] 0 = Some res" unfolding runReconcile_waits by blast
  moreover have "0 < SAFETY_CAP" by (simp add: SAFETY_CAP_def)
  ultimately obtain n where n: "\<forall>j. 0 \<le> j \<and> j < n \<longrightarrow> yields (rounds j)"
      "case res of Inl e \<Rightarrow> rounds n = Fails e
        | Inr (seen', m) \<Rightarrow> set seen' = set [] \<union> set (take (SAFETY_CAP - 0) (stream_ids rounds 0 n)) \<and>
            m = min SAFETY_CAP (0 + length (stream_ids rounds 0 n)) \<and>
            (rounds n = Ends \<or> SAFETY_CAP \<le> 0 + length (stream_ids rounds 0 n))"
    using scan_rounds_result [of 0 SAFETY_CAP rounds fuel 0 "[]" res] by blast
  have "\<not> yields (rounds n) \<or> 50000 \<le> length (stream_ids rounds 0 n)"
    using n(2) by (cases res) (auto simp: SAFETY_CAP_def yields_def)
  with n(1) show "\<exists>n. (\<forall>j < n. yields (rounds j)) \<and> (\<not> yields (rounds n) \<or> 50000 \<le> length (stream_ids rounds 0 n))" by blast
next
  assume "\<exists>n. (\<forall>j < n. yields (rounds j)) \<and> (\<not> yields (rounds n) \<or> 50000 \<le> length (stream_ids rounds 0 n))"
  then obtain n where "\<forall>j < n. yields (rounds j)" "\<not> yields (rounds n) \<or> 50000 \<le> length (stream_ids rounds 0 n)" by blast
  then have "scan_rounds SAFETY_CAP rounds (Suc n) 0 [] 0 \<noteq> None"
    by (intro scan_rounds_returns [of _ _ _ n]) (simp_all add: SAFETY_CAP_def)
  then show "\<exists>fuel. runReconcile fuel (Some rounds) net db \<noteq> None" unfolding runReconcile_waits by blast
qed

lemma reconcile_result:
  assumes "runReconcile fuel (Some rounds) net db = Some (Inr r)"
  obtains n where "\<forall>j < n. yields (rounds j)" "rounds n = Ends \<or> 50000 \<le> length (stream_ids rounds 0 n)"
    "rr_scanned r = min 50000 (length (stream_ids rounds 0 n))"
    "rr_truncated r \<longleftrightarrow> 50000 \<le> length (stream_ids rounds 0 n)"
    "rr_dbCalls r = length (network_calls net db)"
    "rr_orphanCallIds r = filter (\<lambda>i. i \<notin> set (take 50000 (stream_ids rounds 0 n))) (network_calls net db)"
proof -
  obtain seen m where s: "scan_rounds SAFETY_CAP rounds fuel 0 [] 0 = Some (Inr (seen, m))"
    and r: "r = \<lparr>rr_scanned = m, rr_dbCalls = length (network_calls net db),
        rr_orphanCallIds = filter (\<lambda>i. i \<notin> set seen) (network_calls net db), rr_truncated = (m \<ge> SAFETY_CAP)\<rparr>"
    using assms by (auto simp: runReconcile_def Let_def split: option.split_asm sum.split_asm prod.split_asm)
  have "0 < SAFETY_CAP" by (simp add: SAFETY_CAP_def)
  from scan_rounds_result [OF this s] obtain n where "\<forall>j < n. yields (rounds j)"
    "set seen = set (take SAFETY_CAP (stream_ids rounds 0 n))" "m = min SAFETY_CAP (length (stream_ids rounds 0 n))"
    "rounds n = Ends \<or> SAFETY_CAP \<le> length (stream_ids rounds 0 n)" by auto
  then show thesis by (intro that [of n]) (auto simp: r SAFETY_CAP_def)
qed

section \<open>Properties\<close>

text \<open>
  C24: what a reconcile reports. \<open>runReconcile\<close> returns, after finitely many rounds, exactly when some
  round fails or ends the stream or the rounds before it have brought 50000 events. A result it
  returns comes from the end of the stream or the cap: it counts the events up to the cap, is marked
  truncated exactly when there were 50000 of them, and lists as orphans exactly the network's stored
  calls, in order, that are not among those (at most 50000) events.
\<close>

theorem reconcile_reports_unseen_calls:
  "((\<exists>fuel. runReconcile fuel (Some rounds) net db \<noteq> None) \<longleftrightarrow>
      (\<exists>n. (\<forall>j < n. yields (rounds j)) \<and> (\<not> yields (rounds n) \<or> 50000 \<le> length (stream_ids rounds 0 n))))
   \<and> (\<forall>fuel r. runReconcile fuel (Some rounds) net db = Some (Inr r) \<longrightarrow>
      (\<exists>n. (\<forall>j < n. yields (rounds j)) \<and> (rounds n = Ends \<or> 50000 \<le> length (stream_ids rounds 0 n))
         \<and> rr_scanned r = min 50000 (length (stream_ids rounds 0 n))
         \<and> rr_truncated r = (50000 \<le> length (stream_ids rounds 0 n))
         \<and> rr_orphanCallIds r = filter (\<lambda>i. i \<notin> set (take 50000 (stream_ids rounds 0 n))) (network_calls net db)))"
proof (intro conjI allI impI)
  fix fuel r assume "runReconcile fuel (Some rounds) net db = Some (Inr r)"
  then show "\<exists>n. (\<forall>j < n. yields (rounds j)) \<and> (rounds n = Ends \<or> 50000 \<le> length (stream_ids rounds 0 n))
         \<and> rr_scanned r = min 50000 (length (stream_ids rounds 0 n))
         \<and> rr_truncated r = (50000 \<le> length (stream_ids rounds 0 n))
         \<and> rr_orphanCallIds r = filter (\<lambda>i. i \<notin> set (take 50000 (stream_ids rounds 0 n))) (network_calls net db)"
    by (rule reconcile_result) blast
qed (rule reconcile_returns)

definition finite_stream :: "nat \<Rightarrow> tail_event" where
  "finite_stream k = (if k = 0 then Yields [''c1''] else Ends)"

theorem reconcile_reports_unseen_calls_witness:
  "\<exists>r. runReconcile 2 (Some finite_stream) ''arc-testnet'' empty_db = Some (Inr r) \<and> \<not> rr_truncated r \<and>
     rr_orphanCallIds r = []"
proof -
  obtain r where r: "runReconcile 2 (Some finite_stream) ''arc-testnet'' empty_db = Some (Inr r)"
    by (simp add: runReconcile_def finite_stream_def numeral_2_eq_2 SAFETY_CAP_def Let_def)
  have len: "length (stream_ids finite_stream 0 n) \<le> 1" for n
    by (induction n) (auto simp: stream_ids_def finite_stream_def)
  from reconcile_reports_unseen_calls [of finite_stream "''arc-testnet''" empty_db] r
  obtain n where "rr_truncated r = (50000 \<le> length (stream_ids finite_stream 0 n))"
    "rr_orphanCallIds r = filter (\<lambda>i. i \<notin> set (take 50000 (stream_ids finite_stream 0 n))) (network_calls ''arc-testnet'' empty_db)"
    by blast
  with r len [of n] show ?thesis by (auto simp: network_calls_def empty_db_def)
qed

text \<open>
  A stream that never ends. When every round yields, as the EVM adapter's rounds do unless one fails,
  the reconcile returns exactly when the rounds bring 50000 events; with fewer it waits forever, and
  a result it does return is always marked truncated.
\<close>

theorem endless_stream_needs_cap:
  assumes "\<forall>k. rounds k = Yields (es k)"
  shows "((\<exists>fuel. runReconcile fuel (Some rounds) net db \<noteq> None) \<longleftrightarrow> (\<exists>n. 50000 \<le> length (concat (List.map es [0..<n]))))
    \<and> (\<forall>fuel r. runReconcile fuel (Some rounds) net db = Some (Inr r) \<longrightarrow> rr_truncated r)"
proof -
  have ids: "stream_ids rounds 0 n = concat (List.map es [0..<n])" for n using assms by (simp add: stream_ids_def)
  have "rr_truncated r" if "runReconcile fuel (Some rounds) net db = Some (Inr r)" for fuel r
    using reconcile_result [OF that] assms by (metis tail_event.distinct(3))
  then show ?thesis using reconcile_returns [of rounds net db] assms by (auto simp: ids yields_def)
qed

text \<open>
  Rolling back the call just ingested does not undo its ingest. The call is gone and the stored
  calls are those of before, but the pool keeps the debit of its refund and fees (only the premium is
  taken back, although premium less refund less fees was booked), and every agent keeps the
  counters the ingest gave it.
\<close>

theorem rollback_keeps_refund_debit:
  assumes "ingest date_of accepts aborts dto db = (db1, Inr [c])"
    and "rollback (batch_network dto) (cd_callId c) db1 = (db2, Inr ())"
    and "distinct (List.map fst (db_calls db))"
  shows "db_calls db2 = db_calls db \<and> db_agents db2 = db_agents db1 \<and>
    (\<exists>p. db_pools db2 (batch_network dto, cd_slug c) = Some p \<and>
      po_balance p = (case db_pools db (batch_network dto, cd_slug c) of None \<Rightarrow> 0 | Some q \<Rightarrow> po_balance q)
        - amount (cd_refund c) - call_fees c)"
proof -
  let ?net = "batch_network dto"
  obtain now where calls: "db_calls db1 = db_calls db @ new_rows date_of ?net [c]" and st: "storable date_of accepts c"
    and dist: "distinct (List.map fst (db_calls db1))"
    and pools: "\<And>n slug. db_pools db1 (n, slug) = (case perEndpoint [c] slug of
         Some d \<Rightarrow> if n = ?net then Some (pool_add now d (db_pools db (n, slug))) else db_pools db (n, slug)
       | None \<Rightarrow> db_pools db (n, slug))"
    using ingest_commits [OF assms(1)] assms(3) by auto
  obtain call p where r: "map_of (db_calls db1) (?net, cd_callId c) = Some call" "db_pools db1 (?net, cw_endpointSlug call) = Some p"
    "db_pools db2 = (db_pools db1)((?net, cw_endpointSlug call) \<mapsto> p\<lparr>po_balance := po_balance p - cw_premium call\<rparr>)"
    "db_agents db2 = db_agents db1" "db_calls db2 = filter (\<lambda>kr. fst kr \<noteq> (?net, cd_callId c)) (db_calls db1)"
    using rollback_facts [OF assms(2)] by blast
  have new: "(?net, cd_callId c) \<notin> fst ` set (db_calls db)" using dist by (simp add: calls new_rows_def)
  have "filter (\<lambda>kr. fst kr \<noteq> (?net, cd_callId c)) (db_calls db) = db_calls db"
    unfolding filter_id_conv using new by force
  then have "db_calls db2 = db_calls db" by (simp add: r(5) calls new_rows_def)
  moreover have "call = the (call_row_of date_of c)"
    using r(1) new by (auto simp: calls new_rows_def map_add_def map_of_eq_None_iff [symmetric] split: option.splits)
  then have "cw_endpointSlug call = cd_slug c" "cw_premium call = amount (cd_premium c)" using call_row_fields [OF st] by simp_all
  then have "db_pools db2 (?net, cd_slug c) = Some (p\<lparr>po_balance := po_balance p - amount (cd_premium c)\<rparr>)"
    and "Some p = Some (pool_add now \<lparr>pd_premium = amount (cd_premium c), pd_refund = amount (cd_refund c), pd_feesPaid = call_fees c\<rparr>
      (db_pools db (?net, cd_slug c)))"
    using r(2,3) by (simp_all add: pools perEndpoint_eq total_of_def)
  ultimately show ?thesis using r(4) by (auto simp: pool_add_def Let_def split: option.splits)
qed

theorem rollback_keeps_refund_debit_witness:
  "\<exists>db1 db2 p. ingest (\<lambda>_. Some 0) (\<lambda>_. True) True sample_dto empty_db = (db1, Inr [sample_call]) \<and>
     rollback ''solana-devnet'' ''c1'' db1 = (db2, Inr ()) \<and>
     db_pools db2 (''solana-devnet'', ''fal'') = Some p \<and> po_balance p = - 250"
proof -
  let ?i = "ingest (\<lambda>_. Some 0) (\<lambda>_. True) True sample_dto empty_db"
  obtain db1 where i: "?i = (db1, Inr [sample_call])" using sample_ingest by blast
  have n: "batch_network sample_dto = ''solana-devnet''" by (simp add: batch_network_def sample_dto_def sample_call_def)
  have "snd (rollback ''solana-devnet'' ''c1'' (fst ?i)) = Inr ()"
    by (simp add: ingest_def validate_dto_def sample_dto_def sample_call_def batch_network_def Let_def sorted_agents_def sorted_slugs_def
      earliest_ts_def tryInsertCall_def call_row_of_def outcomeToBreach_def sample_numbers empty_db_def
      record_settlement_def shares_of_def rollback_def apply_agents_def apply_shares_def apply_earnings_def apply_pools_def
      perAgent_def perEndpoint_def perRecipient_def delete_settlement_def call_fees_def)
  then obtain db2 where r: "rollback ''solana-devnet'' ''c1'' db1 = (db2, Inr ())" unfolding i by (metis fst_conv prod.collapse)
  have "cd_callId sample_call = ''c1''" "cd_slug sample_call = ''fal''" "distinct (List.map fst (db_calls empty_db))"
    "amount (cd_refund sample_call) = 200" "call_fees sample_call = 50" "db_pools empty_db x = None" for x
    by (simp_all add: sample_call_def empty_db_def amount_def call_fees_def shares_of_def sample_numbers)
  with rollback_keeps_refund_debit [OF i] r n have "\<exists>p. db_pools db2 (''solana-devnet'', ''fal'') = Some p \<and> po_balance p = - 250" by auto
  with i r show ?thesis by blast
qed

end
