(* ===== verification/ChainSync.thy ===== *)
theory ChainSync
  imports Submitter IndexerEvents
begin

text \<open>
  \<open>packages/indexer/src/sync/on-chain-sync.service.ts\<close>: the periodic copy of endpoint configurations
  from the chain into the \<open>Endpoint\<close> table, by the direct Solana read or by a chain adapter with a
  block cursor. The answers of the RPC node and of the adapters are inputs; slugs are ASCII.
\<close>

section \<open>Slugs and raw configurations\<close>

definition slugBytesToString :: "bytes \<Rightarrow> string" where
  "slugBytesToString bs = List.map (\<lambda>b. char_of (unat b)) (takeWhile (\<lambda>b. b \<noteq> 0) bs)"

definition is_bytes16_hex :: "string \<Rightarrow> bool" where
  "is_bytes16_hex s \<longleftrightarrow> length s = 34 \<and> take 2 s = ''0x'' \<and> list_all (\<lambda>c. hex_val c \<noteq> None) (drop 2 s)"

definition normalizeSnapshotSlug :: "string \<Rightarrow> string" where
  "normalizeSnapshotSlug slug =
     (if \<not> is_bytes16_hex slug then slug else slugBytesToString (hex_pairs (drop 2 slug)))"

record normalized_config =
  nc_flatPremium :: int
  nc_percentBps :: int
  nc_slaLatencyMs :: int
  nc_imputedCost :: int
  nc_exposureCapPerHour :: int
  nc_paused :: bool

definition truthy :: "json option \<Rightarrow> bool" where
  "truthy v = (case v of None \<Rightarrow> False | Some JNull \<Rightarrow> False | Some (JBool b) \<Rightarrow> b
     | Some (JNum n) \<Rightarrow> n \<noteq> 0 | Some (JStr s) \<Rightarrow> s \<noteq> [] | Some _ \<Rightarrow> True)"

text \<open>\<open>pick\<close>: the first of the two properties that is not null; \<open>None\<close> when \<open>BigInt\<close> throws.\<close>

definition pick :: "payload \<Rightarrow> string \<Rightarrow> string \<Rightarrow> int option" where
  "pick r k1 k2 =
     (let v = nullish (get_prop r k1) (nullish (get_prop r k2) JNull)
      in if v = JNull then Some 0 else bigint_of_json (Some v))"

text \<open>\<open>raw\<close> is an object (anything else reads as the empty one); NaN is refused by the database.\<close>

definition normalizeRawConfig :: "payload \<Rightarrow> normalized_config option" where
  "normalizeRawConfig r =
     (case (number_of_json (nullish (get_prop r ''percentBps'') (JNum 0)),
            number_of_json (nullish (get_prop r ''slaLatencyMs'') (JNum 0)),
            pick r ''flatPremiumLamports'' ''flatPremium'', pick r ''imputedCostLamports'' ''imputedCost'',
            pick r ''exposureCapPerHourLamports'' ''exposureCapPerHour'') of
        (Some bps, Some sla, Some flat, Some imputed, Some cap) \<Rightarrow> Some
          \<lparr>nc_flatPremium = flat, nc_percentBps = bps, nc_slaLatencyMs = sla, nc_imputedCost = imputed,
           nc_exposureCapPerHour = cap, nc_paused = truthy (get_prop r ''paused'')\<rparr>
      | _ \<Rightarrow> None)"

section \<open>The upsert\<close>

text \<open>
  \<open>DEFAULT_UPSTREAM_BASE[slug] ?? ""\<close> on an object literal: a name that \<open>Object.prototype\<close> has is not
  a string (\<open>None\<close>), and the database client refuses the upsert.
\<close>

definition DEFAULT_UPSTREAM_BASE :: "(string \<times> string) list" where
  "DEFAULT_UPSTREAM_BASE =
     [(''helius'', ''https://mainnet.helius-rpc.com''), (''birdeye'', ''https://public-api.birdeye.so''),
      (''jupiter'', ''https://api.jup.ag''), (''elfa'', ''https://api.elfa.ai''), (''fal'', ''https://queue.fal.run''),
      (''moralis'', ''https://deep-index.moralis.io''), (''covalent'', ''https://api.covalenthq.com''),
      (''dummy'', ''https://dummy.pactnetwork.io''),
      (''pay-default'', ''https://facilitator.pact.network/pay-default'')]"

definition prototype_names :: "string list" where
  "prototype_names = [''constructor'', ''toString'', ''toLocaleString'', ''valueOf'', ''hasOwnProperty'', ''isPrototypeOf'',
     ''propertyIsEnumerable'', ''__proto__'', ''__defineGetter__'', ''__defineSetter__'', ''__lookupGetter__'', ''__lookupSetter__'']"

definition default_upstream :: "string \<Rightarrow> string option" where
  "default_upstream slug = (case map_of DEFAULT_UPSTREAM_BASE slug of Some u \<Rightarrow> Some u
     | None \<Rightarrow> if slug \<in> set prototype_names then None else Some [])"

text \<open>An existing row keeps its upstream, display name and registration time.\<close>

definition config_row :: "int \<Rightarrow> string \<Rightarrow> normalized_config \<Rightarrow> string \<Rightarrow> endpoint_entry option \<Rightarrow> endpoint_entry" where
  "config_row now slug cfg upstream old =
     (case old of
        None \<Rightarrow> \<lparr>er_flatPremium = nc_flatPremium cfg, er_percentBps = nc_percentBps cfg, er_slaLatencyMs = nc_slaLatencyMs cfg,
          er_imputedCost = nc_imputedCost cfg, er_exposureCap = nc_exposureCapPerHour cfg, er_paused = nc_paused cfg,
          er_upstreamBase = upstream, er_displayName = slug, er_registeredAt = now, er_lastUpdated = now\<rparr>
      | Some row \<Rightarrow> row\<lparr>er_flatPremium := nc_flatPremium cfg, er_percentBps := nc_percentBps cfg,
          er_slaLatencyMs := nc_slaLatencyMs cfg, er_imputedCost := nc_imputedCost cfg,
          er_exposureCap := nc_exposureCapPerHour cfg, er_paused := nc_paused cfg, er_lastUpdated := now\<rparr>)"

text \<open>
  The columns of the \<open>Endpoint\<close> table: \<open>BigInt\<close> is 64 bits and \<open>Int\<close> 32 bits, both signed; the network
  and the slug have at most 24 and 16 characters. The upsert of a value outside fails.
\<close>

definition fits_columns :: "string \<Rightarrow> string \<Rightarrow> normalized_config \<Rightarrow> bool" where
  "fits_columns net slug cfg \<longleftrightarrow> length net \<le> 24 \<and> length slug \<le> 16 \<and>
     list_all (\<lambda>v. - (2 ^ 63) \<le> v \<and> v < 2 ^ 63) [nc_flatPremium cfg, nc_imputedCost cfg, nc_exposureCapPerHour cfg] \<and>
     list_all (\<lambda>v. - (2 ^ 31) \<le> v \<and> v < 2 ^ 31) [nc_percentBps cfg, nc_slaLatencyMs cfg]"

definition upsert_config :: "int \<Rightarrow> string \<Rightarrow> string \<Rightarrow> normalized_config \<Rightarrow> indexer_db \<Rightarrow> indexer_db option" where
  "upsert_config now net slug cfg db =
     (case default_upstream slug of None \<Rightarrow> None
      | Some upstream \<Rightarrow>
          if fits_columns net slug cfg then
            Some (db\<lparr>db_endpoints := (db_endpoints db)((net, slug) \<mapsto>
              config_row now slug cfg upstream (db_endpoints db (net, slug)))\<rparr>)
          else None)"

section \<open>The direct Solana path\<close>

definition config_of_account :: "endpoint_account \<Rightarrow> normalized_config" where
  "config_of_account d = \<lparr>nc_flatPremium = ec_flatPremiumLamports d, nc_percentBps = ec_percentBps d,
     nc_slaLatencyMs = ec_slaLatencyMs d, nc_imputedCost = ec_imputedCostLamports d,
     nc_exposureCapPerHour = ec_exposureCapPerHourLamports d, nc_paused = ec_paused d\<rparr>"

text \<open>\<open>upsertOne\<close>: an account that does not decode, or has no slug, is skipped.\<close>

definition upsertOne :: "(bytes \<Rightarrow> string) \<Rightarrow> int \<Rightarrow> string \<Rightarrow> bytes \<Rightarrow> indexer_db \<Rightarrow> indexer_db option" where
  "upsertOne b58 now net acct db =
     (case decodeEndpointConfig b58 acct of None \<Rightarrow> Some db
      | Some decoded \<Rightarrow>
          let slug = slugBytesToString (ec_slug decoded) in
          if slug = [] then Some db else upsert_config now net slug (config_of_account decoded) db)"

text \<open>The loop; an error ends it and is logged, the rows written before it stay.\<close>

fun upsert_each :: "('a \<Rightarrow> indexer_db \<Rightarrow> indexer_db option) \<Rightarrow> 'a list \<Rightarrow> indexer_db \<Rightarrow> indexer_db \<times> bool" where
  "upsert_each f [] db = (db, True)"
| "upsert_each f (x # xs) db = (case f x db of None \<Rightarrow> (db, False) | Some db' \<Rightarrow> upsert_each f xs db')"

definition resolveLegacySolanaNetwork :: "string list \<Rightarrow> string" where
  "resolveLegacySolanaNetwork enabled =
     (case filter (starts_with ''solana-'') enabled of [] \<Rightarrow> ''solana-devnet'' | n # _ \<Rightarrow> n)"

record sync_state =
  sy_db :: indexer_db
  sy_cursor :: "string \<rightharpoonup> int"
  sy_isRunning :: bool

text \<open>
  \<open>syncEndpointsFromChain\<close> in its two halves, since a tick may come while one waits for the node: the
  start (\<open>None\<close>: one is running, the tick is skipped) and the answer.
\<close>

definition sync_start :: "sync_state \<Rightarrow> sync_state option" where
  "sync_start s = (if sy_isRunning s then None else Some (s\<lparr>sy_isRunning := True\<rparr>))"

definition sync_finish :: "(bytes \<Rightarrow> string) \<Rightarrow> int \<Rightarrow> string list \<Rightarrow> string + bytes list \<Rightarrow> sync_state \<Rightarrow> sync_state" where
  "sync_finish b58 now enabled accounts s =
     (case accounts of Inl e \<Rightarrow> s\<lparr>sy_isRunning := False\<rparr>
      | Inr as \<Rightarrow> s\<lparr>sy_db := fst (upsert_each (upsertOne b58 now (resolveLegacySolanaNetwork enabled)) as (sy_db s)),
                   sy_isRunning := False\<rparr>)"

section \<open>The adapter path\<close>

record config_snapshot =
  sn_slug :: string
  sn_raw :: payload

definition upsertEndpointFromAdapter :: "int \<Rightarrow> string \<Rightarrow> config_snapshot \<Rightarrow> indexer_db \<Rightarrow> indexer_db option" where
  "upsertEndpointFromAdapter now net snapshot db =
     (let slug = normalizeSnapshotSlug (sn_slug snapshot) in
      if slug = [] then Some db
      else case normalizeRawConfig (sn_raw snapshot) of None \<Rightarrow> None
        | Some cfg \<Rightarrow> upsert_config now net slug cfg db)"

text \<open>
  An adapter reads all configurations, or those registered from a block on together with the known
  slugs; both may fail.
\<close>

datatype config_reader =
    ReadAll "string + config_snapshot list"
  | ReadFrom "int \<Rightarrow> string list \<Rightarrow> string + config_snapshot list \<times> int"

text \<open>The resume point: the deployment block, or the block after the cursor.\<close>

definition resume_block :: "int \<Rightarrow> string \<Rightarrow> sync_state \<Rightarrow> int" where
  "resume_block deploymentBlock net s = (case sy_cursor s net of None \<Rightarrow> deploymentBlock | Some c \<Rightarrow> c + 1)"

text \<open>\<open>known\<close>: the slugs of the network's rows, as the database lists them.\<close>

definition refreshViaAdapterWithCursor ::
    "int \<Rightarrow> int \<Rightarrow> string list \<Rightarrow> string \<Rightarrow> (int \<Rightarrow> string list \<Rightarrow> string + config_snapshot list \<times> int) \<Rightarrow> sync_state \<Rightarrow> sync_state" where
  "refreshViaAdapterWithCursor now deploymentBlock known net readFrom s =
     (case readFrom (resume_block deploymentBlock net s) known of
        Inl e \<Rightarrow> s
      | Inr (snapshots, scannedToBlock) \<Rightarrow>
          (case upsert_each (upsertEndpointFromAdapter now net) snapshots (sy_db s) of
             (db, ok) \<Rightarrow> if ok then s\<lparr>sy_db := db, sy_cursor := (sy_cursor s)(net \<mapsto> scannedToBlock)\<rparr>
                        else s\<lparr>sy_db := db\<rparr>))"

definition refreshViaAdapter :: "int \<Rightarrow> int \<Rightarrow> string list \<Rightarrow> string \<Rightarrow> config_reader \<Rightarrow> sync_state \<Rightarrow> sync_state" where
  "refreshViaAdapter now deploymentBlock known net reader s =
     (case reader of
        ReadFrom readFrom \<Rightarrow> refreshViaAdapterWithCursor now deploymentBlock known net readFrom s
      | ReadAll r \<Rightarrow> (case r of Inl e \<Rightarrow> s
          | Inr snapshots \<Rightarrow> s\<lparr>sy_db := fst (upsert_each (upsertEndpointFromAdapter now net) snapshots (sy_db s))\<rparr>))"

text \<open>\<open>refreshNetwork\<close>: the direct path for an enabled Solana network in legacy mode.\<close>

definition refreshNetwork ::
    "(bytes \<Rightarrow> string) \<Rightarrow> int \<Rightarrow> bool \<Rightarrow> string list \<Rightarrow> string + bytes list \<Rightarrow> int \<Rightarrow> string list \<Rightarrow> config_reader \<Rightarrow> string \<Rightarrow>
     sync_state \<Rightarrow> sync_state" where
  "refreshNetwork b58 now legacyDirect enabled accounts deploymentBlock known reader net s =
     (if legacyDirect \<and> starts_with ''solana-'' net then
        (case sync_start s of None \<Rightarrow> s | Some s' \<Rightarrow> sync_finish b58 now enabled accounts s')
      else refreshViaAdapter now deploymentBlock known net reader s)"

section \<open>Lemmas\<close>

lemma unat_of_char [simp]: "unat (of_char c :: byte) = of_char c"
proof -
  have "(of_char c :: byte) = word_of_nat (of_char c)" by (simp add: of_char_def)
  then show ?thesis by (simp add: unat_of_nat)
qed

lemma of_char_nonzero: "c \<noteq> CHR 0x00 \<Longrightarrow> (of_char c :: byte) \<noteq> 0"
proof
  assume "c \<noteq> CHR 0x00" "(of_char c :: byte) = 0"
  then have "(of_char c :: nat) = 0" by (metis unat_of_char unat_0)
  then have "c = char_of (0 :: nat)" by (metis char_of_char)
  with \<open>c \<noteq> CHR 0x00\<close> show False by (simp add: char_of_def)
qed

lemma slug_roundtrip:
  assumes "length s \<le> 16" and "CHR 0x00 \<notin> set s"
  shows "slugBytesToString (slugBytes s) = s"
proof -
  have "slugBytes s = List.map of_char s @ replicate (16 - length s) 0"
    using assms(1) by (simp add: slugBytes_def js_simps copy_to_def)
  moreover have "takeWhile (\<lambda>b. b \<noteq> 0) (List.map of_char s @ replicate n 0 :: bytes) = List.map of_char s" for n :: nat
    using assms(2) by (induction s) (auto simp: of_char_nonzero)
  ultimately show ?thesis by (simp add: slugBytesToString_def comp_def)
qed

text \<open>A pass that writes one row per element, under distinct keys.\<close>

lemma upsert_each_rows:
  assumes "\<And>x db. x \<in> set xs \<Longrightarrow> \<exists>r. f x db = Some (db\<lparr>db_endpoints := (db_endpoints db)(k x \<mapsto> r)\<rparr>) \<and> P x (db_endpoints db (k x)) r"
    and "distinct (List.map k xs)"
  shows "\<exists>db'. upsert_each f xs db = (db', True) \<and>
    (\<forall>x \<in> set xs. \<exists>r. db_endpoints db' (k x) = Some r \<and> P x (db_endpoints db (k x)) r) \<and>
    (\<forall>key. key \<notin> k ` set xs \<longrightarrow> db_endpoints db' key = db_endpoints db key)"
  using assms
proof (induction xs arbitrary: db)
  case (Cons x xs)
  obtain r where r: "f x db = Some (db\<lparr>db_endpoints := (db_endpoints db)(k x \<mapsto> r)\<rparr>)" "P x (db_endpoints db (k x)) r"
    using Cons.prems(1) by fastforce
  let ?db = "db\<lparr>db_endpoints := (db_endpoints db)(k x \<mapsto> r)\<rparr>"
  have d: "distinct (List.map k xs)" and nx: "k x \<notin> k ` set xs" using Cons.prems(2) by auto
  obtain db' where e: "upsert_each f xs ?db = (db', True)"
    and rows: "\<forall>y \<in> set xs. \<exists>r. db_endpoints db' (k y) = Some r \<and> P y (db_endpoints ?db (k y)) r"
    and frame: "\<forall>key. key \<notin> k ` set xs \<longrightarrow> db_endpoints db' key = db_endpoints ?db key"
    using Cons.IH [OF _ d, of ?db] Cons.prems(1) by (metis list.set_intros(2))
  have "\<exists>r. db_endpoints db' (k y) = Some r \<and> P y (db_endpoints db (k y)) r" if "y \<in> set (x # xs)" for y
  proof (cases "y \<in> set xs")
    case True
    then have "k y \<noteq> k x" using nx by (metis image_eqI)
    then show ?thesis using rows True by auto
  next
    case False
    then have y: "y = x" using that by simp
    have "db_endpoints db' (k x) = Some r" using frame [rule_format, OF nx] by simp
    then show ?thesis using r(2) y by blast
  qed
  moreover have "upsert_each f (x # xs) db = (db', True)" using e r(1) by simp
  moreover have "\<forall>key. key \<notin> k ` set (x # xs) \<longrightarrow> db_endpoints db' key = db_endpoints db key" using frame by auto
  ultimately show ?case by blast
qed simp

lemma upsert_each_append:
  "upsert_each f (xs @ ys) db = (case upsert_each f xs db of
     (db', True) \<Rightarrow> upsert_each f ys db' | (db', False) \<Rightarrow> (db', False))"
  by (induction xs arbitrary: db) (auto split: option.splits)

section \<open>Properties\<close>

definition endpoint_slug :: "rs_endpoint_config \<Rightarrow> string" where
  "endpoint_slug e = slugBytesToString (re_slug e)"

text \<open>What a row must say of an on-chain endpoint, and what it must have kept of the row before.\<close>

definition row_shows :: "rs_endpoint_config \<Rightarrow> endpoint_entry option \<Rightarrow> endpoint_entry \<Rightarrow> bool" where
  "row_shows e old row \<longleftrightarrow>
     er_flatPremium row = uint (re_flat_premium_lamports e) \<and> er_percentBps row = uint (re_percent_bps e) \<and>
     er_slaLatencyMs row = uint (re_sla_latency_ms e) \<and> er_imputedCost row = uint (re_imputed_cost_lamports e) \<and>
     er_exposureCap row = uint (re_exposure_cap_per_hour_lamports e) \<and> er_paused row = (re_paused e \<noteq> 0) \<and>
     (case old of
        None \<Rightarrow> Some (er_upstreamBase row) = default_upstream (endpoint_slug e) \<and> er_displayName row = endpoint_slug e
      | Some o' \<Rightarrow> er_upstreamBase row = er_upstreamBase o' \<and> er_displayName row = er_displayName o' \<and>
          er_registeredAt row = er_registeredAt o')"

definition well_formed_endpoint :: "rs_endpoint_config \<Rightarrow> bool" where
  "well_formed_endpoint e \<longleftrightarrow> wf_endpoint_config e \<and> uint (re_fee_recipient_count e) \<le> 8 \<and>
     list_all (\<lambda>r. uint (rf_kind r) \<le> 2) (take (unat (re_fee_recipient_count e)) (re_fee_recipients e)) \<and>
     endpoint_slug e \<noteq> []"

text \<open>Which endpoints the table can hold: the program's unsigned fields reach beyond the columns.\<close>

definition storable_endpoint :: "rs_endpoint_config \<Rightarrow> bool" where
  "storable_endpoint e \<longleftrightarrow> endpoint_slug e \<notin> set prototype_names \<and>
     uint (re_flat_premium_lamports e) < 2 ^ 63 \<and> uint (re_imputed_cost_lamports e) < 2 ^ 63 \<and>
     uint (re_exposure_cap_per_hour_lamports e) < 2 ^ 63 \<and> uint (re_sla_latency_ms e) < 2 ^ 31"

lemma slug_length: "length bs = 16 \<Longrightarrow> length (slugBytesToString bs) \<le> 16"
  using length_takeWhile_le [of "\<lambda>b. b \<noteq> 0" bs] by (simp add: slugBytesToString_def)

lemma default_upstream_none: "default_upstream slug = None \<longleftrightarrow> slug \<in> set prototype_names"
  by (auto simp: default_upstream_def DEFAULT_UPSTREAM_BASE_def prototype_names_def split: option.splits if_splits)

lemma image_fits:
  assumes "well_formed_endpoint e" and "length net \<le> 24"
  shows "fits_columns net (endpoint_slug e) (config_of_account (endpoint_config_view b58 e)) \<and>
      endpoint_slug e \<notin> set prototype_names \<longleftrightarrow> storable_endpoint e"
proof -
  have "length (endpoint_slug e) \<le> 16"
    using assms(1) by (simp add: endpoint_slug_def slug_length well_formed_endpoint_def wf_endpoint_config_def)
  moreover have "uint (re_percent_bps e) < 2 ^ 31" using uint_lt2p [of "re_percent_bps e"] by simp
  moreover have low: "- (2 ^ 63) \<le> uint (w64 :: 64 word)" "- (2 ^ 31) \<le> uint (w32 :: 32 word)" "- (2 ^ 31) \<le> uint (w16 :: 16 word)" for w64 w32 w16
    by (rule order_trans [of _ 0]; simp)+
  ultimately show ?thesis using assms(2)
    by (auto simp: fits_columns_def storable_endpoint_def config_of_account_def endpoint_config_view_def simp del: power_numeral
        intro: low)
qed

lemma upsertOne_image:
  assumes "well_formed_endpoint e" and "length net \<le> 24"
  shows "storable_endpoint e \<Longrightarrow> \<exists>r. upsertOne b58 now net (endpoint_config_image e) db =
      Some (db\<lparr>db_endpoints := (db_endpoints db)((net, endpoint_slug e) \<mapsto> r)\<rparr>) \<and>
    row_shows e (db_endpoints db (net, endpoint_slug e)) r"
    and "\<not> storable_endpoint e \<Longrightarrow> upsertOne b58 now net (endpoint_config_image e) db = None"
proof -
  let ?view = "endpoint_config_view b58 e"
  have "decodeEndpointConfig b58 (endpoint_config_image e @ []) = Some ?view"
    using assms by (intro decodeEndpointConfig_image) (auto simp: well_formed_endpoint_def list_all_iff)
  then have one: "upsertOne b58 now net (endpoint_config_image e) db =
      upsert_config now net (endpoint_slug e) (config_of_account ?view) db"
    using assms(1) by (simp add: upsertOne_def Let_def endpoint_slug_def endpoint_config_view_def well_formed_endpoint_def)
  {
    assume "storable_endpoint e"
    then obtain u where "default_upstream (endpoint_slug e) = Some u" "fits_columns net (endpoint_slug e) (config_of_account ?view)"
      using image_fits [OF assms, of b58] default_upstream_none by fastforce
    then show "\<exists>r. upsertOne b58 now net (endpoint_config_image e) db =
        Some (db\<lparr>db_endpoints := (db_endpoints db)((net, endpoint_slug e) \<mapsto> r)\<rparr>) \<and>
      row_shows e (db_endpoints db (net, endpoint_slug e)) r"
      unfolding one
      by (auto simp: upsert_config_def endpoint_config_view_def config_of_account_def config_row_def row_shows_def split: option.splits)
  next
    assume "\<not> storable_endpoint e"
    then show "upsertOne b58 now net (endpoint_config_image e) db = None"
      using image_fits [OF assms, of b58] default_upstream_none [of "endpoint_slug e"]
      unfolding one by (auto simp: upsert_config_def split: option.splits)
  }
qed

text \<open>
  C25: the endpoint table shows the chain, up to the first endpoint it cannot hold. Let the node return
  the program's endpoint accounts, with slugs that are not empty and pairwise distinct and at most
  eight fee recipients of known kinds each. The pass writes for each of them before the first one
  that the columns cannot hold (a 64-bit amount of 2^63 or more, an SLA of 2^31 ms or more) or whose
  slug is a property name of every JavaScript object, under the Solana network in use (at most 24
  characters), exactly its on-chain prices, limits and pause flag; a row that existed keeps its
  upstream, display name and registration time, a new one gets the default upstream. Every other row
  is left alone, those of the later endpoints included, and the running flag is cleared.
\<close>

theorem sync_reflects_chain:
  assumes "\<forall>e \<in> set es. well_formed_endpoint e" and "distinct (List.map endpoint_slug es)"
    and "net = resolveLegacySolanaNetwork enabled" and "length net \<le> 24"
  shows "case sync_finish b58 now enabled (Inr (List.map endpoint_config_image es)) s of s' \<Rightarrow>
     (\<forall>e \<in> set (takeWhile storable_endpoint es). \<exists>row. db_endpoints (sy_db s') (net, endpoint_slug e) = Some row \<and>
        row_shows e (db_endpoints (sy_db s) (net, endpoint_slug e)) row)
     \<and> (\<forall>k. k \<notin> (\<lambda>e. (net, endpoint_slug e)) ` set (takeWhile storable_endpoint es) \<longrightarrow>
        db_endpoints (sy_db s') k = db_endpoints (sy_db s) k)
     \<and> \<not> sy_isRunning s'"
proof -
  let ?good = "takeWhile storable_endpoint es" and ?rest = "dropWhile storable_endpoint es"
  let ?one = "upsertOne b58 now net" and ?f = "\<lambda>e. upsertOne b58 now net (endpoint_config_image e)"
  have good: "well_formed_endpoint e \<and> storable_endpoint e" if "e \<in> set ?good" for e
    using that assms(1) by (auto dest: set_takeWhileD)
  have images: "upsert_each ?one (List.map endpoint_config_image es) db = upsert_each ?f es db" for db
    by (induction es arbitrary: db) (auto split: option.splits)
  have keys: "distinct (List.map (\<lambda>e. (net, endpoint_slug e)) ?good)"
  proof -
    have "distinct (takeWhile storable_endpoint es)" "inj_on endpoint_slug (set (takeWhile storable_endpoint es))"
      using assms(2) by (auto simp: distinct_map intro: inj_on_subset dest: set_takeWhileD)
    then show ?thesis by (simp add: distinct_map inj_on_def)
  qed
  obtain db' where db': "upsert_each ?f ?good (sy_db s) = (db', True)"
     "\<forall>e \<in> set ?good. \<exists>r. db_endpoints db' (net, endpoint_slug e) = Some r \<and> row_shows e (db_endpoints (sy_db s) (net, endpoint_slug e)) r"
     "\<forall>key. key \<notin> (\<lambda>e. (net, endpoint_slug e)) ` set ?good \<longrightarrow> db_endpoints db' key = db_endpoints (sy_db s) key"
    using upsert_each_rows [OF _ keys, of ?f row_shows "sy_db s"] upsertOne_image(1) [OF _ assms(4)] good by blast
  have "fst (upsert_each ?f ?rest db') = db'"
  proof (cases ?rest)
    case (Cons e rest)
    have "\<not> storable_endpoint e" using Cons dropWhile_eq_Cons_conv [of storable_endpoint es] by blast
    moreover have "e \<in> set es" by (rule set_dropWhileD [of e storable_endpoint]) (simp add: Cons)
    ultimately have "well_formed_endpoint e" "\<not> storable_endpoint e" using assms(1) by blast+
    then have "?f e db' = None" using upsertOne_image(2) [OF _ assms(4)] by blast
    then show ?thesis unfolding Cons by simp
  next
    case Nil
    then show ?thesis unfolding Nil by simp
  qed
  then have "fst (upsert_each ?f es (sy_db s)) = db'"
    using upsert_each_append [of ?f ?good ?rest "sy_db s"] db'(1) by simp
  then have "sync_finish b58 now enabled (Inr (List.map endpoint_config_image es)) s = s\<lparr>sy_db := db', sy_isRunning := False\<rparr>"
    by (simp add: sync_finish_def images assms(3) [symmetric])
  with db' show ?thesis by simp
qed

definition fal_endpoint :: rs_endpoint_config where
  "fal_endpoint = example_endpoint\<lparr>re_slug := slugBytes ''fal''\<rparr>"

lemma fal_endpoint_ok: "well_formed_endpoint fal_endpoint" "endpoint_slug fal_endpoint = ''fal''" "storable_endpoint fal_endpoint"
proof -
  show f: "endpoint_slug fal_endpoint = ''fal''"
    using slug_roundtrip [of "''fal''"] by (simp add: endpoint_slug_def fal_endpoint_def)
  show "well_formed_endpoint fal_endpoint"
    unfolding well_formed_endpoint_def f
    by (simp add: wf_endpoint_config_def wf_fee_recipient_def fal_endpoint_def example_endpoint_def example_recipient_def)
  show "storable_endpoint fal_endpoint"
    unfolding storable_endpoint_def f by (simp add: fal_endpoint_def example_endpoint_def prototype_names_def)
qed

theorem sync_reflects_chain_witness:
  "\<exists>row. db_endpoints (sy_db (sync_finish text_b58 7 [''solana-devnet''] (Inr [endpoint_config_image fal_endpoint])
      \<lparr>sy_db = empty_db, sy_cursor = Map.empty, sy_isRunning = True\<rparr>)) (''solana-devnet'', ''fal'') = Some row
   \<and> er_flatPremium row = uint (re_flat_premium_lamports fal_endpoint)"
proof -
  let ?s = "\<lparr>sy_db = empty_db, sy_cursor = Map.empty, sy_isRunning = True\<rparr>"
  have "\<forall>e \<in> set [fal_endpoint]. well_formed_endpoint e" "distinct (List.map endpoint_slug [fal_endpoint])"
    using fal_endpoint_ok by simp_all
  from sync_reflects_chain [OF this refl, of "[''solana-devnet'']" text_b58 7 ?s] show ?thesis
    by (auto simp: resolveLegacySolanaNetwork_def starts_with_def row_shows_def fal_endpoint_ok)
qed

end
