(* ===== verification/EvmAdapter.thy ===== *)
theory EvmAdapter
  imports ChainSync
begin

text \<open>
  The EVM chain adapter (\<open>packages/shared/src/adapters/evm/index.ts\<close>) and the calldata helpers it uses
  (\<open>packages/protocol-evm-v1-client/src/encode.ts\<close>). The answers of the RPC node, viem's address check
  and its ABI encoder are arguments; ABI encoding itself is left to the encoder.
\<close>

section \<open>Calldata arguments\<close>

definition slugToBytes16 :: "string \<Rightarrow> string option" where
  "slugToBytes16 slug = (if length slug > 16 then None
     else Some (''0x'' @ hex_of_bytes (List.map of_char slug @ replicate (16 - length slug) 0)))"

definition asSlugBytes16 :: "string \<Rightarrow> string option" where
  "asSlugBytes16 s = (if is_bytes16_hex s then Some (to_lower s) else slugToBytes16 s)"

definition asBytes16 :: "string \<Rightarrow> string option" where
  "asBytes16 i = (if is_bytes16_hex i then Some (to_lower i) else None)"

record settle_arg =
  sa_callId :: string
  sa_agent :: string
  sa_slug :: string
  sa_premium :: int
  sa_refund :: int
  sa_latencyMs :: "int option"
  sa_breach :: bool
  sa_hint :: int
  sa_timestamp :: int

text \<open>\<open>address\<close> is viem's check and checksum form; the settler always supplies a timestamp.\<close>

definition settle_arg_of :: "(string \<Rightarrow> string option) \<Rightarrow> string \<Rightarrow> adapter_event \<Rightarrow> settle_arg option" where
  "settle_arg_of address slug e =
     (case (asBytes16 (ae_callId e), address (ae_agent e), asSlugBytes16 slug) of
        (Some callId, Some agent, Some slug16) \<Rightarrow> Some
          \<lparr>sa_callId = callId, sa_agent = agent, sa_slug = slug16, sa_premium = ae_premiumBaseUnits e,
           sa_refund = ae_refundBaseUnits e, sa_latencyMs = ae_latencyMs e, sa_breach = ae_breach e,
           sa_hint = ae_feeRecipientCountHint e, sa_timestamp = ae_eventTimestamp e\<rparr>
      | _ \<Rightarrow> None)"

definition encodeSettleBatch ::
    "(string \<Rightarrow> string option) \<Rightarrow> (settle_arg list \<Rightarrow> string + string) \<Rightarrow> string \<Rightarrow> adapter_event list \<Rightarrow> string + string" where
  "encodeSettleBatch address abi slug events =
     (case those (List.map (settle_arg_of address slug) events) of
        None \<Rightarrow> Inl ''invalid argument'' | Some args \<Rightarrow> abi args)"

text \<open>The fixed array of eight fee recipients.\<close>

definition ZERO_ADDRESS :: string where "ZERO_ADDRESS = ''0x'' @ replicate 40 (CHR ''0'')"

definition padFeeRecipients :: "(string \<Rightarrow> string option) \<Rightarrow> evm_recipient list \<Rightarrow> evm_recipient list option" where
  "padFeeRecipients address rs =
     (if length rs > 8 then None
      else map_option (\<lambda>out. out @ replicate (8 - length out) \<lparr>ev_kind = 0, ev_recipient = ZERO_ADDRESS, ev_bps = 0\<rparr>)
        (those (List.map (\<lambda>r. map_option (\<lambda>a. r\<lparr>ev_recipient := a\<rparr>) (address (ev_recipient r))) rs)))"

section \<open>Reading endpoints\<close>

text \<open>The struct \<open>getEndpoint\<close> returns; its raw fields are read back by the sync.\<close>

record evm_endpoint =
  ee_paused :: bool
  ee_flatPremium :: int
  ee_percentBps :: int
  ee_slaLatencyMs :: int
  ee_imputedCost :: int
  ee_exposureCapPerHour :: int
  ee_feeRecipientCount :: nat
  ee_feeRecipients :: "evm_recipient list"

definition evm_raw :: "evm_endpoint \<Rightarrow> payload" where
  "evm_raw c = [(''paused'', JBool (ee_paused c)), (''flatPremium'', JNum (ee_flatPremium c)),
     (''percentBps'', JNum (ee_percentBps c)), (''slaLatencyMs'', JNum (ee_slaLatencyMs c)),
     (''imputedCost'', JNum (ee_imputedCost c)), (''exposureCapPerHour'', JNum (ee_exposureCapPerHour c))]"

text \<open>The node's answers during one read: the finalised block, the log queries, the endpoint structs.\<close>

record evm_view =
  vw_authority :: "string + string"
  vw_finalized :: "string + int"
  vw_logs :: "int \<Rightarrow> int \<Rightarrow> string + string list"
  vw_getEndpoint :: "string \<Rightarrow> string + evm_endpoint"

definition add_slug :: "string list \<Rightarrow> string \<Rightarrow> string list" where
  "add_slug seen slug = (if slug \<in> set seen then seen else seen @ [slug])"

definition collect_slugs :: "string list \<Rightarrow> string list \<Rightarrow> string list" where
  "collect_slugs seen slugs = foldl (\<lambda>seen slug. if slug = [] then seen else add_slug seen (to_lower slug)) seen slugs"

text \<open>
  The chunk loop over \<open>[from .. finalized]\<close>, shared by the discovery scan and the event tail; \<open>None\<close> when
  it would never end (a chunk that is not positive). A failed query is an error.
\<close>

function scan_chunks ::
    "(int \<Rightarrow> int \<Rightarrow> string + string list) \<Rightarrow> (string list \<Rightarrow> string list \<Rightarrow> string list) \<Rightarrow> int \<Rightarrow> int \<Rightarrow> int \<Rightarrow> string list \<Rightarrow>
     (string + string list) option" where
  "scan_chunks logs collect chunk from finalized acc =
     (if from > finalized then Some (Inr acc)
      else if chunk \<le> 0 then None
      else let to = (if from + chunk - 1 > finalized then finalized else from + chunk - 1) in
        case logs from to of
          Inl e \<Rightarrow> Some (Inl e)
        | Inr found \<Rightarrow> scan_chunks logs collect chunk (from + chunk) finalized (collect acc found))"
  by pat_completeness auto

termination
  by (relation "measure (\<lambda>(logs, collect, chunk, from, finalized, acc). nat (finalized + 1 - from))") auto

declare scan_chunks.simps [simp del]

fun seed_known :: "string list \<Rightarrow> string list \<Rightarrow> string list option" where
  "seed_known [] seen = Some seen"
| "seed_known (k # ks) seen =
     (case asSlugBytes16 k of None \<Rightarrow> None | Some hex \<Rightarrow> seed_known ks (add_slug seen hex))"

fun read_all :: "(string \<Rightarrow> string + evm_endpoint) \<Rightarrow> string list \<Rightarrow> string + config_snapshot list" where
  "read_all get [] = Inr []"
| "read_all get (slug # slugs) =
     (case get slug of Inl e \<Rightarrow> Inl e
      | Inr c \<Rightarrow> (case read_all get slugs of Inl e \<Rightarrow> Inl e
          | Inr ss \<Rightarrow> Inr (\<lparr>sn_slug = slug, sn_raw = evm_raw c\<rparr> # ss)))"

text \<open>\<open>None\<close> does not return.\<close>

definition readEndpointConfigsFrom ::
    "int \<Rightarrow> evm_view \<Rightarrow> int \<Rightarrow> string list \<Rightarrow> (string + config_snapshot list \<times> int) option" where
  "readEndpointConfigsFrom chunk v fromBlock known =
     (case (vw_authority v, vw_finalized v) of
        (Inr _, Inr finalized) \<Rightarrow>
          (case seed_known known [] of None \<Rightarrow> Some (Inl ''endpoint slug must be <= 16 bytes'')
           | Some seen \<Rightarrow>
               (case scan_chunks (vw_logs v) collect_slugs chunk fromBlock finalized seen of
                  None \<Rightarrow> None
                | Some (Inl e) \<Rightarrow> Some (Inl e)
                | Some (Inr slugs) \<Rightarrow> Some (case read_all (vw_getEndpoint v) slugs of
                    Inl e \<Rightarrow> Inl e | Inr ss \<Rightarrow> Inr (ss, finalized))))
      | (Inl e, _) \<Rightarrow> Some (Inl e)
      | (_, Inl e) \<Rightarrow> Some (Inl e))"

text \<open>\<open>getEndpoint\<close>: the recipients the contract pays, which the settler splits the premium among.\<close>

definition evm_getEndpoint :: "(string \<Rightarrow> string + evm_endpoint) \<Rightarrow> string \<Rightarrow> string + evm_recipient list" where
  "evm_getEndpoint get slug =
     (case slugToBytes16 slug of None \<Rightarrow> Inl ''endpoint slug must be <= 16 bytes''
      | Some hex \<Rightarrow> (case get hex of Inl e \<Rightarrow> Inl e
          | Inr c \<Rightarrow> Inr (take (ee_feeRecipientCount c) (ee_feeRecipients c))))"

section \<open>Submitting\<close>

text \<open>
  The node's answers to a submission: the fee estimate (\<open>None\<close> throws, \<open>Some None\<close> has no EIP-1559
  fee), the gas price, the gas estimate, the send, and for the \<open>k\<close>-th poll the receipt (reverted,
  block number), the current block and whether the timeout has passed.
\<close>

datatype gas_params = Eip1559 int "int option" | LegacyGas int

record evm_tx_node =
  tx_fees :: "(int option \<times> int option) option"
  tx_gasPrice :: "string + int"
  tx_estimateGas :: "string \<Rightarrow> gas_params \<Rightarrow> string + int"
  tx_send :: "string \<Rightarrow> int \<Rightarrow> gas_params \<Rightarrow> string + string"
  tx_receipt :: "nat \<Rightarrow> (bool \<times> int) option"
  tx_block :: "nat \<Rightarrow> string + int"
  tx_timedOut :: "nat \<Rightarrow> bool"

definition gas_strategy :: "evm_tx_node \<Rightarrow> string + gas_params" where
  "gas_strategy nd =
     (case tx_fees nd of
        Some (Some maxFee, prio) \<Rightarrow> Inr (Eip1559 ((maxFee * 120) sdiv 100) prio)
      | _ \<Rightarrow> (case tx_gasPrice nd of Inl e \<Rightarrow> Inl ''settleBatch gas estimation failed''
               | Inr gp \<Rightarrow> Inr (LegacyGas ((gp * 120) sdiv 100))))"

fun finality_wait :: "evm_tx_node \<Rightarrow> int \<Rightarrow> string \<Rightarrow> nat \<Rightarrow> nat \<Rightarrow> (string + string) option" where
  "finality_wait nd finalityBlocks tx k 0 = None"
| "finality_wait nd finalityBlocks tx k (Suc fuel) =
     (let wait = (if tx_timedOut nd k then Some (Inl ''settleBatch finality timeout'')
                  else finality_wait nd finalityBlocks tx (k + 1) fuel) in
      case tx_receipt nd k of
        None \<Rightarrow> wait
      | Some (reverted, blockNumber) \<Rightarrow>
          if reverted then Some (Inl ''settleBatch tx reverted on-chain'')
          else case tx_block nd k of Inl e \<Rightarrow> Some (Inl e)
            | Inr current \<Rightarrow> if current - blockNumber + 1 \<ge> finalityBlocks then Some (Inr tx) else wait)"

definition evm_submitSettleBatch ::
    "(string \<Rightarrow> string option) \<Rightarrow> (settle_arg list \<Rightarrow> string + string) \<Rightarrow> evm_tx_node \<Rightarrow> int \<Rightarrow> nat \<Rightarrow>
     string \<Rightarrow> adapter_event list \<Rightarrow> (string + string) option" where
  "evm_submitSettleBatch address abi nd finalityBlocks fuel slug events =
     (case encodeSettleBatch address abi slug events of Inl e \<Rightarrow> Some (Inl e)
      | Inr calldata \<Rightarrow> (case gas_strategy nd of Inl e \<Rightarrow> Some (Inl e)
        | Inr gas \<Rightarrow> (case tx_estimateGas nd calldata gas of Inl e \<Rightarrow> Some (Inl ''settleBatch estimateGas failed'')
          | Inr estimated \<Rightarrow> (case tx_send nd calldata ((estimated * 130) sdiv 100) gas of
              Inl e \<Rightarrow> Some (Inl ''settleBatch send failed'')
            | Inr tx \<Rightarrow> finality_wait nd finalityBlocks tx 0 fuel))))"

section \<open>Tailing settlements\<close>

text \<open>
  One round of \<open>tailSettlementEvents\<close>: the finalised block it got, the call ids it yields (\<open>logs\<close>
  answers the chunked queries of a round) and the next start. The generator repeats rounds forever.
\<close>

definition tail_round ::
    "int \<Rightarrow> (int \<Rightarrow> int \<Rightarrow> string + string list) \<Rightarrow> int option \<Rightarrow> int \<Rightarrow> (int \<times> (string + string list)) option" where
  "tail_round chunk logs finalized fromBlock =
     (case finalized of None \<Rightarrow> Some (fromBlock, Inr [])
      | Some fin \<Rightarrow>
          if fromBlock \<le> fin then
            map_option (\<lambda>r. (fin + 1, r)) (scan_chunks logs (@) chunk fromBlock fin [])
          else Some (fromBlock, Inr []))"

section \<open>Lemmas\<close>

lemma scan_chunks_returns: "0 < chunk \<Longrightarrow> scan_chunks logs collect chunk from finalized acc \<noteq> None"
proof (induction logs collect chunk "from" finalized acc rule: scan_chunks.induct)
  case (1 logs collect chunk "from" finalized acc)
  then show ?case by (subst scan_chunks.simps) (auto simp: Let_def split: sum.split)
qed

lemma scan_chunks_None [simp]: "0 < chunk \<Longrightarrow> (scan_chunks logs collect chunk from finalized acc = None) = False"
  using scan_chunks_returns by simp

text \<open>Every block of the range lies in a window whose logs were collected.\<close>

definition collected :: "(int \<Rightarrow> int \<Rightarrow> string + string list) \<Rightarrow> (string list \<Rightarrow> string list \<Rightarrow> string list) \<Rightarrow> string list \<Rightarrow> int \<Rightarrow> bool" where
  "collected logs collect acc' b \<longleftrightarrow>
     (\<exists>a t found acc0. a \<le> b \<and> b \<le> t \<and> logs a t = Inr found \<and> set (collect acc0 found) \<subseteq> set acc')"

lemma scan_chunks_covers:
  assumes "scan_chunks logs collect chunk from finalized acc = Some (Inr acc')"
    and mono: "\<And>acc found. set acc \<subseteq> set (collect acc found)"
  shows "set acc \<subseteq> set acc' \<and> (\<forall>b. from \<le> b \<and> b \<le> finalized \<longrightarrow> collected logs collect acc' b)"
  using assms
proof (induction logs collect chunk "from" finalized acc rule: scan_chunks.induct)
  case (1 logs collect chunk "from" finalized acc)
  show ?case
  proof (cases "from > finalized")
    case True
    then show ?thesis using 1(2) by (subst (asm) scan_chunks.simps) auto
  next
    case False
    let ?to = "if from + chunk - 1 > finalized then finalized else from + chunk - 1"
    obtain found where c: "\<not> chunk \<le> 0" and l: "logs from ?to = Inr found"
      and r: "scan_chunks logs collect chunk (from + chunk) finalized (collect acc found) = Some (Inr acc')"
      using 1(2) False by (subst (asm) scan_chunks.simps) (auto simp: Let_def split: if_splits sum.splits)
    note ih = 1(1) [OF False c refl l r 1(3)]
    have sub: "set (collect acc found) \<subseteq> set acc'" using ih by blast
    have "collected logs collect acc' b" if b: "from \<le> b" "b \<le> finalized" for b
    proof (cases "b \<le> ?to")
      case True
      then show ?thesis unfolding collected_def using b(1) l sub by blast
    next
      case False
      then have "from + chunk \<le> b" using b(2) by (simp split: if_splits)
      then show ?thesis using ih b(2) by blast
    qed
    moreover have "set acc \<subseteq> set acc'" using sub 1(3) [of acc found] by blast
    ultimately show ?thesis by blast
  qed
qed

lemma collect_slugs_set: "set (collect_slugs seen slugs) = set seen \<union> to_lower ` (set slugs - {[]})"
proof -
  have "set (foldl (\<lambda>seen slug. if slug = [] then seen else add_slug seen (to_lower slug)) seen slugs) =
      set seen \<union> to_lower ` (set slugs - {[]})" for seen
    by (induction slugs arbitrary: seen) (auto simp: add_slug_def)
  then show ?thesis by (simp add: collect_slugs_def)
qed

lemma read_all_slugs: "read_all get slugs = Inr ss \<Longrightarrow> List.map sn_slug ss = slugs"
  by (induction slugs arbitrary: ss) (auto split: sum.split_asm)

text \<open>The adapter reader as the sync calls it; a read that never returns leaves the tick pending.\<close>

definition evm_reader :: "int \<Rightarrow> evm_view \<Rightarrow> int \<Rightarrow> string list \<Rightarrow> string + config_snapshot list \<times> int" where
  "evm_reader chunk v from known =
     (case readEndpointConfigsFrom chunk v from known of None \<Rightarrow> Inl ''pending'' | Some r \<Rightarrow> r)"

text \<open>The log query of a node: on final blocks it returns every registration of the range.\<close>

definition honest_logs :: "(int \<Rightarrow> string list) \<Rightarrow> (int \<Rightarrow> int \<Rightarrow> string + string list) \<Rightarrow> bool" where
  "honest_logs registered logs \<longleftrightarrow>
     (\<forall>a t found b. logs a t = Inr found \<longrightarrow> a \<le> b \<longrightarrow> b \<le> t \<longrightarrow> set (registered b) \<subseteq> set found)"

lemma evm_reader_covers:
  assumes "evm_reader chunk v from known = Inr (snaps, scanned)" and "honest_logs registered (vw_logs v)"
    and "from \<le> b" "b \<le> scanned" "slug \<in> set (registered b)" "slug \<noteq> []"
  shows "to_lower slug \<in> set (List.map sn_slug snaps)"
proof -
  obtain fin seen slugs where f: "scanned = fin" and s: "scan_chunks (vw_logs v) collect_slugs chunk from fin seen = Some (Inr slugs)"
    and r: "read_all (vw_getEndpoint v) slugs = Inr snaps"
    using assms(1)
    by (auto simp: evm_reader_def readEndpointConfigsFrom_def split: sum.split_asm option.split_asm)
  have "collected (vw_logs v) collect_slugs slugs b"
    using scan_chunks_covers [OF s] assms(3,4) f by (simp add: collect_slugs_set)
  then obtain a t found acc0 where w: "a \<le> b" "b \<le> t" "vw_logs v a t = Inr found" "set (collect_slugs acc0 found) \<subseteq> set slugs"
    by (auto simp: collected_def)
  then have "slug \<in> set found" using assms(2,5) unfolding honest_logs_def by blast
  then have "to_lower slug \<in> set slugs" using w(4) assms(6) by (auto simp: collect_slugs_set)
  then show ?thesis using read_all_slugs [OF r] by simp
qed

text \<open>An adapter pass keeps the rows there are; a complete one leaves a row for every slug it read.\<close>

lemma upsert_config_rows:
  "upsert_config now net slug cfg db = Some db' \<Longrightarrow>
     (\<forall>k. db_endpoints db k \<noteq> None \<longrightarrow> db_endpoints db' k \<noteq> None) \<and> db_endpoints db' (net, slug) \<noteq> None"
  by (auto simp: upsert_config_def split: option.splits if_splits)

lemma upsertEndpointFromAdapter_rows:
  assumes "upsertEndpointFromAdapter now net sn db = Some db'"
  shows "(\<forall>k. db_endpoints db k \<noteq> None \<longrightarrow> db_endpoints db' k \<noteq> None) \<and>
    (normalizeSnapshotSlug (sn_slug sn) \<noteq> [] \<longrightarrow> db_endpoints db' (net, normalizeSnapshotSlug (sn_slug sn)) \<noteq> None)"
proof (cases "normalizeSnapshotSlug (sn_slug sn) = []")
  case True
  then show ?thesis using assms by (simp add: upsertEndpointFromAdapter_def)
next
  case False
  then obtain cfg where "upsert_config now net (normalizeSnapshotSlug (sn_slug sn)) cfg db = Some db'"
    using assms by (cases "normalizeRawConfig (sn_raw sn)") (simp_all add: upsertEndpointFromAdapter_def Let_def)
  from upsert_config_rows [OF this] show ?thesis by blast
qed

lemma upsert_each_adapter_rows:
  assumes "upsert_each (upsertEndpointFromAdapter now net) snaps db = (db', ok)"
  shows "(\<forall>k. db_endpoints db k \<noteq> None \<longrightarrow> db_endpoints db' k \<noteq> None) \<and>
    (ok \<longrightarrow> (\<forall>slug \<in> set (List.map sn_slug snaps). normalizeSnapshotSlug slug \<noteq> [] \<longrightarrow>
       db_endpoints db' (net, normalizeSnapshotSlug slug) \<noteq> None))"
  using assms
proof (induction snaps arbitrary: db)
  case (Cons sn snaps)
  show ?case
  proof (cases "upsertEndpointFromAdapter now net sn db")
    case None
    then show ?thesis using Cons.prems by simp
  next
    case (Some db1)
    then have "upsert_each (upsertEndpointFromAdapter now net) snaps db1 = (db', ok)" using Cons.prems by simp
    from Cons.IH [OF this] upsertEndpointFromAdapter_rows [OF Some] show ?thesis by auto
  qed
qed simp

type_synonym evm_tick = "int \<times> evm_view \<times> string list"

definition evm_tick :: "int \<Rightarrow> int \<Rightarrow> string \<Rightarrow> sync_state \<Rightarrow> evm_tick \<Rightarrow> sync_state" where
  "evm_tick chunk deploymentBlock net s tick = (case tick of (now, v, known) \<Rightarrow>
     refreshViaAdapterWithCursor now deploymentBlock known net (evm_reader chunk v) s)"

definition covered :: "(int \<Rightarrow> string list) \<Rightarrow> int \<Rightarrow> string \<Rightarrow> sync_state \<Rightarrow> bool" where
  "covered registered deploymentBlock net s \<longleftrightarrow> (case sy_cursor s net of None \<Rightarrow> True
     | Some c \<Rightarrow> \<forall>b slug. deploymentBlock \<le> b \<longrightarrow> b \<le> c \<longrightarrow> slug \<in> set (registered b) \<longrightarrow>
         normalizeSnapshotSlug (to_lower slug) \<noteq> [] \<longrightarrow>
         db_endpoints (sy_db s) (net, normalizeSnapshotSlug (to_lower slug)) \<noteq> None)"

lemma evm_tick_covered:
  assumes cov: "covered registered dep net s" and h: "honest_logs registered (vw_logs v)"
  shows "covered registered dep net (evm_tick chunk dep net s (now, v, known))"
proof (cases "evm_reader chunk v (resume_block dep net s) known")
  case (Inl e)
  then show ?thesis using cov by (simp add: evm_tick_def refreshViaAdapterWithCursor_def)
next
  case (Inr r)
  obtain snaps fin where r: "r = (snaps, fin)" by force
  obtain db ok where u: "upsert_each (upsertEndpointFromAdapter now net) snaps (sy_db s) = (db, ok)" by force
  note rows = upsert_each_adapter_rows [OF u]
  have t: "evm_tick chunk dep net s (now, v, known) =
      (if ok then s\<lparr>sy_db := db, sy_cursor := (sy_cursor s)(net \<mapsto> fin)\<rparr> else s\<lparr>sy_db := db\<rparr>)"
    by (simp add: evm_tick_def refreshViaAdapterWithCursor_def Inr r u)
  have old: "db_endpoints db (net, normalizeSnapshotSlug (to_lower slug)) \<noteq> None"
    if "sy_cursor s net = Some c" "dep \<le> b" "b \<le> c" "slug \<in> set (registered b)" "normalizeSnapshotSlug (to_lower slug) \<noteq> []" for b c slug
    using cov that rows by (auto simp: covered_def)
  show ?thesis
  proof (cases ok)
    case False
    then show ?thesis using old by (simp add: t covered_def split: option.split)
  next
    case True
    have "db_endpoints db (net, normalizeSnapshotSlug (to_lower slug)) \<noteq> None"
      if b: "dep \<le> b" "b \<le> fin" "slug \<in> set (registered b)" "normalizeSnapshotSlug (to_lower slug) \<noteq> []" for b slug
    proof (cases "resume_block dep net s \<le> b")
      case True
      have "slug \<noteq> []" using b(4) by (auto simp: normalizeSnapshotSlug_def to_lower_def is_bytes16_hex_def)
      then have "to_lower slug \<in> set (List.map sn_slug snaps)"
        using evm_reader_covers [OF Inr [unfolded r] h True b(2,3)] by blast
      then show ?thesis using rows \<open>ok\<close> b(4) by blast
    next
      case False
      then obtain c where "sy_cursor s net = Some c" "b \<le> c"
        using b(1) by (auto simp: resume_block_def split: option.splits)
      then show ?thesis using old b by blast
    qed
    then show ?thesis using True by (auto simp: t covered_def)
  qed
qed

section \<open>Properties\<close>

text \<open>
  C26: endpoint discovery has no gaps. A read of the EVM adapter always returns. Whatever the node
  answers over any sequence of ticks (failures, lagging or advancing finalised blocks, any answer of
  the contract), once the persisted cursor has reached a block, every endpoint registered at or before it
  and from the deployment block on has a row, if the log queries that succeeded were complete.
\<close>

theorem evm_discovery_has_no_gaps:
  assumes "0 < chunk" and "\<forall>(now, v, known) \<in> set ticks. honest_logs registered (vw_logs v)"
    and "sy_cursor s net = None" and "sy_cursor (foldl (evm_tick chunk dep net) s ticks) net = Some c"
    and "dep \<le> b" and "b \<le> c" and "slug \<in> set (registered b)" and "normalizeSnapshotSlug (to_lower slug) \<noteq> []"
  shows "db_endpoints (sy_db (foldl (evm_tick chunk dep net) s ticks)) (net, normalizeSnapshotSlug (to_lower slug)) \<noteq> None
    \<and> readEndpointConfigsFrom chunk v from known \<noteq> None"
proof -
  have "covered registered dep net (foldl (evm_tick chunk dep net) s ticks)"
    if "covered registered dep net s" "\<forall>(now, v, known) \<in> set ticks. honest_logs registered (vw_logs v)" for s ticks
    using that by (induction ticks arbitrary: s) (auto intro: evm_tick_covered)
  then have "covered registered dep net (foldl (evm_tick chunk dep net) s ticks)"
    using assms(2,3) by (simp add: covered_def)
  moreover have "readEndpointConfigsFrom chunk v from known \<noteq> None"
    using assms(1) by (auto simp: readEndpointConfigsFrom_def split: sum.split option.split)
  ultimately show ?thesis using assms(4-8) by (auto simp: covered_def)
qed

definition fal_hex :: string where
  "fal_hex = ''0x66616c00000000000000000000000000''"

definition demo_registered :: "int \<Rightarrow> string list" where
  "demo_registered b = (if b = 5 then [fal_hex] else [])"

definition demo_view :: evm_view where
  "demo_view = \<lparr>vw_authority = Inr ''0xabc'', vw_finalized = Inr 7,
     vw_logs = (\<lambda>a t. if a \<le> 5 \<and> 5 \<le> t then Inr [fal_hex] else Inr []),
     vw_getEndpoint = (\<lambda>_. Inr \<lparr>ee_paused = False, ee_flatPremium = 500, ee_percentBps = 0, ee_slaLatencyMs = 5000,
       ee_imputedCost = 10000, ee_exposureCapPerHour = 100, ee_feeRecipientCount = 0, ee_feeRecipients = []\<rparr>)\<rparr>"

lemma fal_hex_facts: "to_lower fal_hex = fal_hex" "normalizeSnapshotSlug fal_hex = ''fal''" "fal_hex \<noteq> []"
  by code_simp+

lemma demo_scan: "scan_chunks (vw_logs demo_view) collect_slugs 10 0 7 [] = Some (Inr [fal_hex])"
  by (subst scan_chunks.simps, simp add: demo_view_def collect_slugs_def fal_hex_facts add_slug_def, subst scan_chunks.simps, simp)

theorem evm_discovery_has_no_gaps_witness:
  "db_endpoints (sy_db (foldl (evm_tick 10 0 ''arc-testnet'') \<lparr>sy_db = empty_db, sy_cursor = Map.empty, sy_isRunning = False\<rparr>
     [(1, demo_view, [])])) (''arc-testnet'', ''fal'') \<noteq> None"
proof -
  let ?s = "\<lparr>sy_db = empty_db, sy_cursor = Map.empty, sy_isRunning = False\<rparr>"
  have "honest_logs demo_registered (vw_logs demo_view)"
    by (auto simp: honest_logs_def demo_registered_def demo_view_def split: if_splits)
  moreover have "evm_reader 10 demo_view 0 [] = Inr ([\<lparr>sn_slug = fal_hex, sn_raw = evm_raw (projr (vw_getEndpoint demo_view fal_hex))\<rparr>], 7)"
    using demo_scan by (simp add: evm_reader_def readEndpointConfigsFrom_def) (simp add: demo_view_def)
  then have "sy_cursor (foldl (evm_tick 10 0 ''arc-testnet'') ?s [(1, demo_view, [])]) ''arc-testnet'' = Some 7"
    by (simp add: evm_tick_def refreshViaAdapterWithCursor_def resume_block_def upsertEndpointFromAdapter_def fal_hex_facts
        normalizeRawConfig_def evm_raw_def demo_view_def get_prop_def nullish_def pick_def upsert_config_def fits_columns_def default_upstream_def
        DEFAULT_UPSTREAM_BASE_def Let_def)
  moreover have "fal_hex \<in> set (demo_registered 5)" by (simp add: demo_registered_def)
  ultimately show ?thesis
    using evm_discovery_has_no_gaps [of 10 "[(1, demo_view, [])]" demo_registered ?s "''arc-testnet''" 0 7 5 fal_hex]
    by (simp add: fal_hex_facts)
qed

lemma finality_wait_returns: "tx_timedOut nd n \<Longrightarrow> k \<le> n \<Longrightarrow> n < k + fuel \<Longrightarrow> finality_wait nd fb tx k fuel \<noteq> None"
proof (induction fuel arbitrary: k)
  case (Suc fuel)
  show ?case
  proof (cases "k = n")
    case True
    then show ?thesis using Suc.prems by (auto simp: Let_def split: option.split prod.split sum.split)
  next
    case False
    then have "finality_wait nd fb tx (k + 1) fuel \<noteq> None" using Suc by simp
    then show ?thesis by (auto simp: Let_def split: option.split prod.split sum.split)
  qed
qed simp

lemma finality_wait_step:
  assumes "finality_wait nd fb tx k (Suc fuel) = Some (Inr tx')"
  shows "finality_wait nd fb tx (k + 1) fuel = Some (Inr tx') \<or>
    (tx' = tx \<and> (\<exists>bn current. tx_receipt nd k = Some (False, bn) \<and> tx_block nd k = Inr current \<and> fb \<le> current - bn + 1))"
proof (cases "tx_receipt nd k")
  case None
  then show ?thesis using assms by (simp split: if_split_asm)
next
  case (Some rb)
  obtain reverted bn where rb: "rb = (reverted, bn)" by force
  show ?thesis
  proof (cases "tx_block nd k")
    case (Inl e)
    then show ?thesis using assms Some rb by (simp split: if_split_asm)
  next
    case (Inr current)
    then show ?thesis using assms Some rb by (auto simp del: finality_wait.simps simp: finality_wait.simps(2) split: if_split_asm)
  qed
qed

lemma finality_wait_final:
  "finality_wait nd fb tx k fuel = Some (Inr tx') \<Longrightarrow> tx' = tx \<and>
     (\<exists>i bn current. k \<le> i \<and> tx_receipt nd i = Some (False, bn) \<and> tx_block nd i = Inr current \<and> fb \<le> current - bn + 1)"
proof (induction fuel arbitrary: k)
  case (Suc fuel)
  from finality_wait_step [OF Suc.prems] show ?case
  proof
    assume "finality_wait nd fb tx (k + 1) fuel = Some (Inr tx')"
    from Suc.IH [OF this] show ?thesis by (meson add_leD1)
  qed blast
qed simp

text \<open>
  C27: an EVM submission returns, and a success is final. Once some poll finds the timeout passed, the
  submission has returned, with a result or an error; and a success means the transaction that was
  sent has a receipt that is not a revert and lies at least \<open>finalityBlocks\<close> deep.
\<close>

theorem evm_submission_returns_final:
  assumes "tx_timedOut nd n" and "n < fuel"
  shows "\<exists>r. evm_submitSettleBatch address abi nd fb fuel slug events = Some r \<and>
    (case r of Inl e \<Rightarrow> True
     | Inr tx \<Rightarrow> (\<exists>calldata gas limit. encodeSettleBatch address abi slug events = Inr calldata \<and>
           gas_strategy nd = Inr gas \<and> tx_send nd calldata limit gas = Inr tx) \<and>
         (\<exists>i bn current. tx_receipt nd i = Some (False, bn) \<and> tx_block nd i = Inr current \<and> fb \<le> current - bn + 1))"
proof -
  have "finality_wait nd fb tx 0 fuel \<noteq> None" for tx using finality_wait_returns [OF assms(1), of 0 fuel] assms(2) by simp
  then have "evm_submitSettleBatch address abi nd fb fuel slug events \<noteq> None"
    unfolding evm_submitSettleBatch_def by (simp split: sum.split)
  then obtain r where r: "evm_submitSettleBatch address abi nd fb fuel slug events = Some r" by blast
  show ?thesis
  proof (cases r)
    case (Inr tx)
    obtain calldata gas est tx0 where s: "encodeSettleBatch address abi slug events = Inr calldata" "gas_strategy nd = Inr gas"
      "tx_estimateGas nd calldata gas = Inr est" "tx_send nd calldata ((est * 130) sdiv 100) gas = Inr tx0"
      "finality_wait nd fb tx0 0 fuel = Some (Inr tx)"
      using r Inr by (auto simp: evm_submitSettleBatch_def split: sum.split_asm)
    from finality_wait_final [OF s(5)] have "tx = tx0"
      and "\<exists>i bn current. tx_receipt nd i = Some (False, bn) \<and> tx_block nd i = Inr current \<and> fb \<le> current - bn + 1" by blast+
    with s r Inr show ?thesis by auto
  qed (use r in auto)
qed

definition demo_node :: evm_tx_node where
  "demo_node = \<lparr>tx_fees = None, tx_gasPrice = Inr 10, tx_estimateGas = (\<lambda>_ _. Inr 21000), tx_send = (\<lambda>_ _ _. Inr ''0xt''),
     tx_receipt = (\<lambda>k. if k < 2 then None else Some (False, 100)), tx_block = (\<lambda>k. Inr (100 + int k)), tx_timedOut = (\<lambda>k. 5 \<le> k)\<rparr>"

theorem evm_submission_returns_final_witness:
  "\<exists>r. evm_submitSettleBatch Some (\<lambda>_. Inr ''0xdata'') demo_node 4 9 ''fal'' [] = Some r"
  using evm_submission_returns_final [of demo_node 5 9 Some "\<lambda>_. Inr ''0xdata''" 4 "''fal''" "[]"]
  by (auto simp: demo_node_def)

end
