(* ===== verification/SsrfGuard.thy ===== *)
theory SsrfGuard
  imports Prelude
begin

text \<open>
  \<open>packages/indexer/src/refund-delivery/ssrf-guard.ts\<close>: which webhook targets the indexer may contact.
  A URL is taken as \<open>new URL\<close> parsed it: its host is a name, an IPv4 address or the eight pieces of an
  IPv6 address, and \<open>hostname\<close> is the canonical text the URL standard prescribes. The answers of the
  resolver are inputs.
\<close>

section \<open>Parsed URLs\<close>

datatype url_host = HName string | HV4 "32 word" | HV6 "16 word list"

record web_url =
  wu_protocol :: string
  wu_username :: string
  wu_password :: string
  wu_host :: url_host
  wu_port :: string
  wu_path :: string

definition octet :: "nat \<Rightarrow> 32 word \<Rightarrow> nat" where
  "octet i w = unat w div 2 ^ (8 * (3 - i)) mod 256"

definition serialize_v4 :: "32 word \<Rightarrow> string" where
  "serialize_v4 w = join_with ''.'' (List.map (\<lambda>i. dec_digits (octet i w)) [0, 1, 2, 3])"

fun hex_digits :: "nat \<Rightarrow> string" where
  "hex_digits n = (if n < 16 then [hex_char n] else hex_digits (n div 16) @ [hex_char (n mod 16)])"

declare hex_digits.simps [simp del]

text \<open>The first longest run of at least two zero pieces is written as a double colon.\<close>

definition zero_runs :: "16 word list \<Rightarrow> nat list" where
  "zero_runs ps = List.map (\<lambda>i. length (takeWhile (\<lambda>p. p = 0) (drop i ps))) [0..<length ps]"

definition compressed :: "16 word list \<Rightarrow> (nat \<times> nat) option" where
  "compressed ps = (let runs = zero_runs ps; m = foldr max runs 0 in
     if m < 2 then None else Some (length (takeWhile (\<lambda>r. r \<noteq> m) runs), m))"

definition hex_pieces :: "16 word list \<Rightarrow> string" where
  "hex_pieces ps = join_with '':'' (List.map (\<lambda>p. hex_digits (unat p)) ps)"

definition serialize_v6 :: "16 word list \<Rightarrow> string" where
  "serialize_v6 ps = (case compressed ps of None \<Rightarrow> hex_pieces ps
     | Some (i, n) \<Rightarrow> hex_pieces (take i ps) @ ''::'' @ hex_pieces (drop (i + n) ps))"

definition address_text :: "url_host \<Rightarrow> string" where
  "address_text h = (case h of HName s \<Rightarrow> s | HV4 w \<Rightarrow> serialize_v4 w | HV6 ps \<Rightarrow> serialize_v6 ps)"

definition hostname :: "url_host \<Rightarrow> string" where
  "hostname h = (case h of HV6 ps \<Rightarrow> ''['' @ serialize_v6 ps @ '']'' | _ \<Rightarrow> address_text h)"

section \<open>The address check\<close>

definition is_digits :: "string \<Rightarrow> bool" where
  "is_digits s \<longleftrightarrow> s \<noteq> [] \<and> list_all (\<lambda>c. digit_val c \<noteq> None) s"

text \<open>\<open>/^\d+\.\d+\.\d+\.\d+$/\<close>\<close>

definition is_dotted :: "string \<Rightarrow> bool" where
  "is_dotted s \<longleftrightarrow> (let ps = split_on (CHR ''.'') s in length ps = 4 \<and> list_all is_digits ps)"

definition forbidden_octets :: "nat \<Rightarrow> nat \<Rightarrow> bool" where
  "forbidden_octets a b \<longleftrightarrow> a = 0 \<or> a = 10 \<or> a = 127 \<or> (a = 169 \<and> b = 254) \<or> (a = 172 \<and> b \<ge> 16 \<and> b \<le> 31) \<or>
     (a = 192 \<and> b = 168) \<or> (a = 100 \<and> b \<ge> 64 \<and> b \<le> 127) \<or> a \<ge> 224"

definition isUnsafeIpv4 :: "string \<Rightarrow> bool" where
  "isUnsafeIpv4 ip =
     (case List.map (parse_digits 0) (split_on (CHR ''.'') ip) of
        [Some a, Some b, Some c, Some d] \<Rightarrow>
          if a > 255 \<or> b > 255 \<or> c > 255 \<or> d > 255 then True else forbidden_octets a b
      | _ \<Rightarrow> True)"

text \<open>\<open>ip.replace(/^\[|\]$/g, "").split("%")[0]\<close>\<close>

definition strip_zone :: "string \<Rightarrow> string" where
  "strip_zone ip =
     (let s = (if starts_with ''['' ip then tl ip else ip);
          t = (if ends_with '']'' s then butlast s else s)
      in takeWhile (\<lambda>c. c \<noteq> CHR ''%'') t)"

definition is_hex_lower :: "char \<Rightarrow> bool" where
  "is_hex_lower c \<longleftrightarrow> c \<in> set ''0123456789abcdef''"

definition isUnsafeIpv6 :: "string \<Rightarrow> bool" where
  "isUnsafeIpv6 lo \<longleftrightarrow> lo = ''::1'' \<or> lo = ''::'' \<or> lo = ''::0'' \<or>
     (case lo of
        a # b # c # d # e # _ \<Rightarrow> a = CHR ''f'' \<and> is_hex_lower d \<and> e = CHR '':'' \<and>
          ((b \<in> set ''cd'' \<and> is_hex_lower c) \<or> (b = CHR ''e'' \<and> c \<in> set ''89ab'') \<or> (b = CHR ''f'' \<and> is_hex_lower c))
      | _ \<Rightarrow> False)"

definition isUnsafeIp :: "string \<Rightarrow> bool" where
  "isUnsafeIp ip =
     (let h = strip_zone ip in
      if to_lower (take 7 h) = ''::ffff:'' \<and> is_dotted (drop 7 h) then isUnsafeIpv4 (drop 7 h)
      else if is_dotted h then isUnsafeIpv4 h
      else if CHR '':'' \<in> set h then isUnsafeIpv6 (to_lower h)
      else False)"

definition ALLOWED_PORTS :: "string list" where "ALLOWED_PORTS = [[], ''443'']"

text \<open>\<open>None\<close>: \<open>new URL\<close> throws.\<close>

definition assertSafeWebhookUrl :: "web_url option \<Rightarrow> string + web_url" where
  "assertSafeWebhookUrl raw =
     (case raw of None \<Rightarrow> Inl ''unparseable URL''
      | Some u \<Rightarrow>
          if wu_protocol u \<noteq> ''https:'' then Inl ''must be https''
          else if wu_username u \<noteq> [] \<or> wu_password u \<noteq> [] then Inl ''URL must not contain credentials''
          else if wu_port u \<notin> set ALLOWED_PORTS then Inl ''port not allowed (443 only)''
          else if isUnsafeIp (hostname (wu_host u)) then Inl ''private/loopback IP literal''
          else Inr u)"

section \<open>The dispatcher\<close>

text \<open>The connect-time lookup: one forbidden address refuses the connection, else the first is used.\<close>

definition safe_lookup :: "string + string list \<Rightarrow> string + string" where
  "safe_lookup answer =
     (case answer of Inl err \<Rightarrow> Inl err
      | Inr [] \<Rightarrow> Inl ''no addresses resolved''
      | Inr (a # as) \<Rightarrow> if list_ex isUnsafeIp (a # as) then Inl ''ESSRF'' else Inr a)"

text \<open>A host that is an address literal is connected to directly; only a name is looked up.\<close>

definition connect_address :: "(string \<Rightarrow> string + string list) \<Rightarrow> web_url \<Rightarrow> string + string" where
  "connect_address resolve u =
     (case wu_host u of HName h \<Rightarrow> safe_lookup (resolve h) | lit \<Rightarrow> Inr (address_text lit))"

section \<open>The ranges the guard is for\<close>

text \<open>IPv4 blocks as base and prefix length; IPv6 classes by their first piece.\<close>

definition in_block :: "32 word \<Rightarrow> 32 word \<times> nat \<Rightarrow> bool" where
  "in_block w b = (case b of (base, n) \<Rightarrow> drop_bit (32 - n) w = drop_bit (32 - n) base)"

definition forbidden4 :: "32 word \<Rightarrow> bool" where
  "forbidden4 w = list_ex (in_block w) [(0x00000000, 8), (0x0A000000, 8), (0x7F000000, 8), (0xA9FE0000, 16),
     (0xAC100000, 12), (0xC0A80000, 16), (0x64400000, 10), (0xE0000000, 3)]"

definition forbidden6 :: "16 word list \<Rightarrow> bool" where
  "forbidden6 ps \<longleftrightarrow> ps = replicate 8 0 \<or> ps = replicate 7 0 @ [1] \<or>
     drop_bit 9 (hd ps) = 0x7E \<or> drop_bit 6 (hd ps) = 0x3FA \<or> drop_bit 8 (hd ps) = 0xFF"

section \<open>Lemmas\<close>

lemma dec_digits_no: "digit_val c = None \<Longrightarrow> c \<notin> set (dec_digits n)"
  using dec_digits_chars by fastforce

lemma digit_val_dot: "digit_val (CHR ''.'') = None" "digit_val (CHR '':'') = None" "digit_val (CHR ''['') = None"
  "digit_val (CHR '']'') = None" "digit_val (CHR ''%'') = None"
  by (simp_all add: digit_val_def)

lemma split_v4: "split_on (CHR ''.'') (serialize_v4 w) = List.map (\<lambda>i. dec_digits (octet i w)) [0, 1, 2, 3]"
  unfolding serialize_v4_def by (rule split_on_join) (auto simp: dec_digits_no digit_val_dot)

lemma serialize_v4_chars: "c \<in> set (serialize_v4 w) \<Longrightarrow> digit_val c \<noteq> None \<or> c = CHR ''.''"
  using dec_digits_chars by (fastforce simp: serialize_v4_def)

lemma takeWhile_all: "d \<notin> set s \<Longrightarrow> takeWhile (\<lambda>c. c \<noteq> d) s = s"
  by (induction s) auto

lemma ends_with_last: "ends_with [c] s \<longleftrightarrow> s \<noteq> [] \<and> last s = c"
  by (cases s rule: rev_cases) (auto simp: ends_with_def starts_with_def)

lemma strip_v4: "strip_zone (serialize_v4 w) = serialize_v4 w"
proof -
  have no: "c \<notin> set (serialize_v4 w)" if "c \<in> {CHR ''['', CHR '']'', CHR ''%''}" for c
    using that serialize_v4_chars [of c w] by (auto simp: digit_val_dot)
  have "serialize_v4 w \<noteq> []" by (simp add: serialize_v4_def)
  then have "hd (serialize_v4 w) \<noteq> CHR ''[''" "last (serialize_v4 w) \<noteq> CHR '']''"
    using no hd_in_set last_in_set by (metis insertCI)+
  then have "\<not> starts_with ''['' (serialize_v4 w)" "\<not> ends_with '']'' (serialize_v4 w)"
    by (auto simp: starts_with_iff ends_with_last)
  then show ?thesis using no by (simp add: strip_zone_def takeWhile_all)
qed

lemma octet_le: "octet i w < 256"
  by (simp add: octet_def)

lemma dotted_v4: "is_dotted (serialize_v4 w)"
  using dec_digits_chars by (fastforce simp: is_dotted_def split_v4 is_digits_def list_all_iff)

lemma serialize_v4_hd: "serialize_v4 w \<noteq> [] \<and> hd (serialize_v4 w) \<noteq> CHR '':''"
  using dec_digits_hd [of "octet 0 w"] by (auto simp: serialize_v4_def digit_val_dot)

lemma isUnsafeIp_v4: "isUnsafeIp (serialize_v4 w) = forbidden_octets (octet 0 w) (octet 1 w)"
proof -
  have "to_lower (take 7 (serialize_v4 w)) \<noteq> ''::ffff:''"
  proof
    assume *: "to_lower (take 7 (serialize_v4 w)) = ''::ffff:''"
    obtain c cs where c: "serialize_v4 w = c # cs" "c \<noteq> CHR '':''" using serialize_v4_hd [of w] by (cases "serialize_v4 w") auto
    then have "lower_char c = CHR '':''" using * by (simp add: to_lower_def)
    then show False using c(2) serialize_v4_chars [of c w] c(1)
      by (auto simp: lower_char_def digit_val_def Let_def split: if_split_asm)
  qed
  moreover have "\<not> octet i w > 255" for i using octet_le [of i w] by simp
  ultimately show ?thesis
    by (simp add: isUnsafeIp_def Let_def strip_v4 dotted_v4 isUnsafeIpv4_def split_v4)
qed

lemma octets_blocks:
  fixes q :: nat
  shows "(q div 16 = 0xAC1) = (q div 256 = 172 \<and> 16 \<le> q mod 256 \<and> q mod 256 \<le> 31)"
    and "(q div 64 = 0x191) = (q div 256 = 100 \<and> 64 \<le> q mod 256 \<and> q mod 256 \<le> 127)"
    and "q < 65536 \<Longrightarrow> (q div 8192 = 7) = (224 \<le> q div 256)"
    and "(q = 0xA9FE) = (q div 256 = 169 \<and> q mod 256 = 254)"
    and "(q = 0xC0A8) = (q div 256 = 192 \<and> q mod 256 = 168)"
proof -
  define a b where "a = q div 256" and "b = q mod 256"
  have q: "q = 256 * a + b" unfolding a_def b_def by (rule mult_div_mod_eq [symmetric])
  have b: "b < 256" by (simp add: b_def)
  have f1: "q div 16 = 16 * a + b div 16" using div_mult_self1 [of 16 b "16 * a"] by (simp add: q algebra_simps)
  have f2: "q div 64 = 4 * a + b div 64" using div_mult_self1 [of 64 b "4 * a"] by (simp add: q algebra_simps)
  have f3: "q div 8192 = a div 32" by (simp add: a_def div_mult2_eq [symmetric])
  have split: "(16 * a + c = 2753) = (a = 172 \<and> c = 1)" if "c < 16" for c :: nat using that by presburger
  have split': "(4 * a + c = 401) = (a = 100 \<and> c = 1)" if "c < 4" for c :: nat using that by presburger
  have "b div 16 < 16" "b div 64 < 4" using b by auto
  then have "(16 * a + b div 16 = 2753) = (a = 172 \<and> b div 16 = 1)" "(4 * a + b div 64 = 401) = (a = 100 \<and> b div 64 = 1)"
    using split split' by blast+
  moreover have "(b div 16 = 1) = (16 \<le> b \<and> b \<le> 31)" "(b div 64 = 1) = (64 \<le> b \<and> b \<le> 127)" by auto
  ultimately show "(q div 16 = 0xAC1) = (q div 256 = 172 \<and> 16 \<le> q mod 256 \<and> q mod 256 \<le> 31)"
    and "(q div 64 = 0x191) = (q div 256 = 100 \<and> 64 \<le> q mod 256 \<and> q mod 256 \<le> 127)"
    by (simp_all add: f1 f2 a_def [symmetric] b_def [symmetric])
  show "(q div 8192 = 7) = (224 \<le> q div 256)" if "q < 65536"
    unfolding a_def [symmetric] f3 using that q b by arith
  have "(256 * a + b = 0xA9FE) = (a = 169 \<and> b = 254)" "(256 * a + b = 0xC0A8) = (a = 192 \<and> b = 168)"
    using b by presburger+
  then show "(q = 0xA9FE) = (q div 256 = 169 \<and> q mod 256 = 254)" "(q = 0xC0A8) = (q div 256 = 192 \<and> q mod 256 = 168)"
    unfolding a_def [symmetric] b_def [symmetric] unfolding q by simp_all
qed

lemma forbidden4_octets: "forbidden4 w = forbidden_octets (octet 0 w) (octet 1 w)"
proof -
  define q where "q = unat w div 65536"
  have w: "unat w < 4294967296" using unsigned_less [of w] by simp
  then have q: "q < 65536" unfolding q_def by simp
  have o: "octet 0 w = q div 256" "octet 1 w = q mod 256"
    using w unfolding q_def octet_def by (simp_all add: div_mult2_eq [symmetric])
  have u: "unat (drop_bit k w) = unat w div 2 ^ k" for k by (rule trans [OF unat_drop_bit_eq drop_bit_eq_div])
  have d: "drop_bit k w = word_of_nat m \<longleftrightarrow> unat w div 2 ^ k = m" if "m < 4294967296" for k m
    using that by (simp only: word_unat_eq_iff u) (simp add: unat_of_nat)
  have k: "unat w div 16777216 = q div 256" "unat w div 1048576 = q div 16" "unat w div 4194304 = q div 64"
    "unat w div 536870912 = q div 8192" "unat w div 65536 = q"
    by (simp_all add: q_def div_mult2_eq [symmetric])
  show ?thesis
    unfolding forbidden4_def forbidden_octets_def o octets_blocks [symmetric]
    using d [of 10 24] d [of 127 24] d [of 0 24] d [of "0xA9FE" 16] d [of "0xC0A8" 16] d [of "0xAC1" 20] d [of "0x191" 22] d [of 7 29]
    by (simp add: in_block_def k octets_blocks(3) [OF q])
qed

text \<open>IPv6: the text of an address whose first piece is large begins with its four digits and a colon.\<close>

lemma is_hex_lower_char: "n < 16 \<Longrightarrow> is_hex_lower (hex_char n)"
proof -
  have "list_all (\<lambda>n. is_hex_lower (hex_char n)) [0..<16]" by code_simp
  then show "n < 16 \<Longrightarrow> is_hex_lower (hex_char n)" by (simp add: list_all_iff)
qed

lemma hex_lower_facts:
  assumes "is_hex_lower c"
  shows "lower_char c = c" "c \<noteq> CHR ''.''" "c \<noteq> CHR ''%''" "c \<noteq> CHR ''[''" "c \<noteq> CHR '']''"
  using assms by (auto simp: is_hex_lower_def lower_char_def)

lemma hex_digits_chars: "c \<in> set (hex_digits n) \<Longrightarrow> is_hex_lower c"
proof (induction n rule: hex_digits.induct)
  case (1 n)
  then show ?case by (cases "n < 16") (auto simp: hex_digits.simps [of n] is_hex_lower_char)
qed

lemma join_with_chars: "c \<in> set (join_with sep ws) \<Longrightarrow> c \<in> set sep \<or> (\<exists>w \<in> set ws. c \<in> set w)"
  by (induction sep ws rule: join_with.induct) auto

lemma serialize_v6_chars: "c \<in> set (serialize_v6 ps) \<Longrightarrow> is_hex_lower c \<or> c = CHR '':''"
proof -
  have "is_hex_lower c \<or> c = CHR '':''" if "c \<in> set (hex_pieces qs)" for qs
    using join_with_chars [OF that [unfolded hex_pieces_def]] hex_digits_chars by auto
  moreover assume "c \<in> set (serialize_v6 ps)"
  ultimately show ?thesis by (auto simp: serialize_v6_def split: option.split_asm)
qed

lemma hex_digits_four:
  assumes "4096 \<le> n" "n < 65536"
  shows "hex_digits n = [hex_char (n div 4096), hex_char (n div 256 mod 16), hex_char (n div 16 mod 16), hex_char (n mod 16)]"
proof -
  have "\<not> n < 16" "\<not> n div 16 < 16" "\<not> n div 256 < 16" "n div 4096 < 16" using assms by auto
  then show ?thesis
    by (simp add: hex_digits.simps [of n] hex_digits.simps [of "n div 16"] hex_digits.simps [of "n div 256"]
        hex_digits.simps [of "n div 4096"] div_mult2_eq [symmetric])
qed

lemma hex_pieces_Cons: "hex_pieces (p # q # ps) = hex_digits (unat p) @ '':'' @ hex_pieces (q # ps)"
  by (simp add: hex_pieces_def)

lemma compressed_positive:
  assumes "p \<noteq> 0" "compressed (p # ps) = Some (i, n)"
  shows "0 < i"
proof -
  obtain rs where "zero_runs (p # ps) = 0 # rs"
    using assms(1) by (simp add: zero_runs_def upt_conv_Cons del: upt_Suc)
  moreover have "2 \<le> n" "i = length (takeWhile (\<lambda>r. r \<noteq> n) (zero_runs (p # ps)))"
    using assms(2) by (auto simp: compressed_def Let_def split: if_split_asm)
  ultimately show ?thesis by simp
qed

lemma serialize_v6_first:
  assumes "p \<noteq> 0" "ps \<noteq> []"
  shows "\<exists>t. serialize_v6 (p # ps) = hex_digits (unat p) @ CHR '':'' # t"
proof (cases "compressed (p # ps)")
  case None
  then show ?thesis using assms(2) by (cases ps) (auto simp: serialize_v6_def hex_pieces_Cons)
next
  case (Some c)
  obtain i n where c: "c = (Suc i, n)"
    using compressed_positive [OF assms(1)] Some by (metis gr0_conv_Suc prod.exhaust)
  show ?thesis
  proof (cases "take i ps")
    case Nil
    then have "take (Suc i) (p # ps) = [p]" by simp
    then show ?thesis using Some c by (simp add: serialize_v6_def hex_pieces_def del: take_Suc_Cons)
  next
    case (Cons q qs)
    then show ?thesis using Some c by (simp add: serialize_v6_def hex_pieces_Cons)
  qed
qed

lemma strip_v6: "strip_zone (''['' @ serialize_v6 ps @ '']'') = serialize_v6 ps"
proof -
  have "CHR ''%'' \<notin> set (serialize_v6 ps)" using serialize_v6_chars hex_lower_facts(3) by fastforce
  then show ?thesis by (simp add: strip_zone_def starts_with_def ends_with_def takeWhile_all)
qed

lemma isUnsafeIp_v6:
  assumes "CHR '':'' \<in> set (serialize_v6 ps)"
  shows "isUnsafeIp (''['' @ serialize_v6 ps @ '']'') = isUnsafeIpv6 (serialize_v6 ps)"
proof -
  have dot: "CHR ''.'' \<notin> set (serialize_v6 ps)" using serialize_v6_chars hex_lower_facts(2) by fastforce
  have "\<not> is_dotted (drop k (serialize_v6 ps))" for k
  proof -
    have "CHR ''.'' \<notin> set (drop k (serialize_v6 ps))" using dot in_set_dropD by fast
    from split_on_no_sep [OF this] show ?thesis by (simp add: is_dotted_def)
  qed
  from this [of 7] this [of 0] have nd: "\<not> is_dotted (drop 7 (serialize_v6 ps))" "\<not> is_dotted (serialize_v6 ps)" by simp_all
  have "to_lower (serialize_v6 ps) = serialize_v6 ps"
    unfolding to_lower_def by (rule map_idI) (use serialize_v6_chars hex_lower_facts(1) in \<open>fastforce simp: lower_char_def\<close>)
  then show ?thesis using assms nd unfolding isUnsafeIp_def Let_def strip_v6 by simp
qed

lemma unsafe_first_piece:
  assumes "ps \<noteq> []" "drop_bit 9 p = 0x7E \<or> drop_bit 6 p = 0x3FA \<or> drop_bit 8 p = (0xFF :: 16 word)"
  shows "isUnsafeIp (''['' @ serialize_v6 (p # ps) @ '']'')"
proof -
  define n where "n = unat p"
  have n: "n < 65536" using unsigned_less [of p] by (simp add: n_def)
  have u: "unat (drop_bit k p) = n div 2 ^ k" for k unfolding n_def by (rule trans [OF unat_drop_bit_eq drop_bit_eq_div])
  have w: "drop_bit k p = word_of_nat m \<longleftrightarrow> n div 2 ^ k = m" if "m < 65536" for k m
    using that by (simp only: word_unat_eq_iff u) (simp add: unat_of_nat)
  have r: "n div 512 = 126 \<or> n div 64 = 1018 \<or> n div 256 = 255"
    using assms(2) w [of 126 9] w [of 1018 6] w [of 255 8] by simp
  then have big: "4096 \<le> n" "n div 4096 = 15" using n by auto
  have "p \<noteq> 0" using big(1) by (auto simp: n_def)
  from serialize_v6_first [OF this assms(1)] obtain t where t: "serialize_v6 (p # ps) = hex_digits n @ CHR '':'' # t"
    by (auto simp: n_def)
  define m where "m = n div 256"
  have "n div 512 = m div 2" "n div 64 = n div 16 div 4" "m = n div 16 div 16" by (simp_all add: m_def div_mult2_eq [symmetric])
  moreover have "m mod 16 \<in> {12, 13}" if "m div 2 = 126"
  proof -
    from that have "m = 252 \<or> m = 253" by presburger
    then show ?thesis by auto
  qed
  moreover have "k div 16 mod 16 = 14 \<and> k mod 16 \<in> {8, 9, 10, 11}" if "k div 4 = 1018" for k :: nat
  proof -
    from that have "k = 4072 \<or> k = 4073 \<or> k = 4074 \<or> k = 4075" by presburger
    then show ?thesis by auto
  qed
  ultimately have b: "m mod 16 \<in> {12, 13} \<or> (m mod 16 = 14 \<and> n div 16 mod 16 \<in> {8, 9, 10, 11}) \<or> m mod 16 = 15"
    using r unfolding m_def [symmetric] by auto
  have chars: "hex_char 15 = CHR ''f''" "hex_char 12 = CHR ''c''" "hex_char 13 = CHR ''d''" "hex_char 14 = CHR ''e''"
    "hex_char 8 = CHR ''8''" "hex_char 9 = CHR ''9''" "hex_char 10 = CHR ''a''" "hex_char 11 = CHR ''b''"
    by code_simp+
  have "isUnsafeIpv6 (serialize_v6 (p # ps))"
    using b unfolding t hex_digits_four [OF big(1) n] isUnsafeIpv6_def m_def [symmetric]
    by (auto simp: big(2) chars is_hex_lower_char)
  then show ?thesis using isUnsafeIp_v6 [of "p # ps"] t by simp
qed

lemma unsafe_forbidden6:
  assumes "length ps = 8" "forbidden6 ps"
  shows "isUnsafeIp (''['' @ serialize_v6 ps @ '']'')"
proof -
  consider "ps = replicate 8 0" | "ps = replicate 7 0 @ [1]"
    | "drop_bit 9 (hd ps) = 0x7E \<or> drop_bit 6 (hd ps) = 0x3FA \<or> drop_bit 8 (hd ps) = 0xFF"
    using assms(2) by (auto simp: forbidden6_def)
  then show ?thesis
  proof cases
    case 1
    have "isUnsafeIp (''['' @ serialize_v6 (replicate 8 0) @ '']'')" by code_simp
    then show ?thesis unfolding 1 .
  next
    case 2
    have "isUnsafeIp (''['' @ serialize_v6 (replicate 7 0 @ [1]) @ '']'')" by code_simp
    then show ?thesis unfolding 2 .
  next
    case 3
    obtain p qs where "ps = p # qs" "qs \<noteq> []" using assms(1) by (cases ps; cases "tl ps") auto
    then show ?thesis using unsafe_first_piece [of qs p] 3 by simp
  qed
qed

section \<open>Properties\<close>

text \<open>
  C28: a webhook is never delivered to a private target that the guard names. A URL that passes has
  the https scheme, no credentials and port 443; an IPv4 literal passes exactly when it is outside
  every forbidden CIDR block (this network, private, loopback, link-local, carrier NAT, multicast and
  reserved); an IPv6 literal that is unspecified, loopback, unique-local, link-local or multicast is
  refused; and a name is only connected to when none of its addresses is refused.
\<close>

theorem ssrf_guard_blocks_private:
  assumes "wu_host u = HV6 ps \<longrightarrow> length ps = 8"
  shows "(assertSafeWebhookUrl (Some u) = Inr u' \<longrightarrow>
      u' = u \<and> wu_protocol u = ''https:'' \<and> wu_username u = [] \<and> wu_password u = [] \<and> wu_port u \<in> {[], ''443''} \<and>
      (wu_host u = HV6 ps \<longrightarrow> \<not> forbidden6 ps) \<and>
      (\<forall>h addrs a. wu_host u = HName h \<and> resolve h = Inr addrs \<and> connect_address resolve u = Inr a \<longrightarrow>
         a \<in> set addrs \<and> list_all (\<lambda>b. \<not> isUnsafeIp b) addrs))
    \<and> (\<forall>w. wu_host u = HV4 w \<longrightarrow>
         (assertSafeWebhookUrl (Some u) = Inr u \<longleftrightarrow>
            wu_protocol u = ''https:'' \<and> wu_username u = [] \<and> wu_password u = [] \<and> wu_port u \<in> {[], ''443''} \<and> \<not> forbidden4 w))"
proof (intro conjI impI allI)
  assume safe: "assertSafeWebhookUrl (Some u) = Inr u'"
  then show "u' = u" "wu_protocol u = ''https:''" "wu_username u = []" "wu_password u = []" "wu_port u \<in> {[], ''443''}"
    by (auto simp: assertSafeWebhookUrl_def ALLOWED_PORTS_def split: if_split_asm)
  have "\<not> isUnsafeIp (hostname (wu_host u))" using safe by (auto simp: assertSafeWebhookUrl_def split: if_split_asm)
  then show "\<not> forbidden6 ps" if "wu_host u = HV6 ps"
    using unsafe_forbidden6 assms that by (auto simp: hostname_def)
  fix h addrs a
  assume "wu_host u = HName h \<and> resolve h = Inr addrs \<and> connect_address resolve u = Inr a"
  then have "safe_lookup (Inr addrs) = Inr a" by (auto simp: connect_address_def)
  then show "a \<in> set addrs" "list_all (\<lambda>b. \<not> isUnsafeIp b) addrs"
    by (cases addrs; auto simp: safe_lookup_def list_all_iff list_ex_iff split: if_split_asm)+
next
  fix w
  assume "wu_host u = HV4 w"
  then have "isUnsafeIp (hostname (wu_host u)) = forbidden4 w"
    by (simp add: hostname_def address_text_def isUnsafeIp_v4 forbidden4_octets)
  then show "assertSafeWebhookUrl (Some u) = Inr u \<longleftrightarrow> wu_protocol u = ''https:'' \<and> wu_username u = [] \<and> wu_password u = [] \<and>
      wu_port u \<in> {[], ''443''} \<and> \<not> forbidden4 w"
    by (auto simp: assertSafeWebhookUrl_def ALLOWED_PORTS_def)
qed

definition literal_url :: "url_host \<Rightarrow> web_url" where
  "literal_url h = \<lparr>wu_protocol = ''https:'', wu_username = [], wu_password = [], wu_host = h, wu_port = [], wu_path = ''/''\<rparr>"

theorem ssrf_guard_blocks_private_witness:
  "assertSafeWebhookUrl (Some (literal_url (HV4 0x0A010203))) \<noteq> Inr (literal_url (HV4 0x0A010203)) \<and>
   assertSafeWebhookUrl (Some (literal_url (HV4 0x08080808))) = Inr (literal_url (HV4 0x08080808))"
proof -
  have f: "forbidden4 0x0A010203" "\<not> forbidden4 0x08080808" by code_simp+
  have p: "wu_host (literal_url h) = HV6 [] \<longrightarrow> length [] = (8 :: nat)" if "h = HV4 w" for h w
    using that by (simp add: literal_url_def)
  show ?thesis
    using ssrf_guard_blocks_private [OF p [OF refl], of "0x0A010203"] ssrf_guard_blocks_private [OF p [OF refl], of "0x08080808"] f
    by (simp add: literal_url_def)
qed

text \<open>
  An IPv4-mapped IPv6 literal passes: the URL standard writes its last pieces in hexadecimal, which
  the pattern for mapped addresses does not match, and a literal host is not looked up.
\<close>

theorem mapped_loopback_passes:
  "assertSafeWebhookUrl (Some (literal_url (HV6 [0, 0, 0, 0, 0, 0xFFFF, 0x7F00, 1]))) =
     Inr (literal_url (HV6 [0, 0, 0, 0, 0, 0xFFFF, 0x7F00, 1])) \<and>
   connect_address (\<lambda>_. Inl ''not asked'') (literal_url (HV6 [0, 0, 0, 0, 0, 0xFFFF, 0x7F00, 1])) = Inr ''::ffff:7f00:1''"
proof -
  have c: "hex_char 15 = CHR ''f''" "hex_char 7 = CHR ''7''" "hex_char 0 = CHR ''0''" "hex_char (Suc 0) = CHR ''1''"
    by code_simp+
  have eight: "[0..<8] = [0, 1, 2, 3, 4, 5, 6, 7 :: nat]" by (simp add: upt_rec)
  have "compressed [0, 0, 0, 0, 0, 0xFFFF, 0x7F00, 1] = Some (0, 5)"
    by (simp add: compressed_def zero_runs_def eight Let_def)
  moreover have "hex_digits 0xFFFF = ''ffff''" "hex_digits 0x7F00 = ''7f00''" "hex_digits 1 = ''1''"
    by (simp_all add: hex_digits.simps c)
  ultimately have "serialize_v6 [0, 0, 0, 0, 0, 0xFFFF, 0x7F00, 1] = ''::ffff:7f00:1''"
    by (simp add: serialize_v6_def hex_pieces_def)
  moreover have "\<not> isUnsafeIp ''[::ffff:7f00:1]''" by code_simp
  ultimately
  show ?thesis
    by (simp add: literal_url_def assertSafeWebhookUrl_def ALLOWED_PORTS_def hostname_def connect_address_def address_text_def)
qed

end
