(* ===== verification/RefundDelivery.thy ===== *)
theory RefundDelivery
  imports SsrfGuard JsText ProxyAuth IndexerEvents
begin

text \<open>
  \<open>packages/indexer/src/refund-delivery\<close>: pushing settled calls to the webhooks agents registered. The
  signed payload (\<open>webhook-payload.ts\<close>), the bounded-retry sender (\<open>webhook-sender.ts\<close>), the per-agent
  fan-out with its failure count (\<open>refund-delivery.service.ts\<close>) and registration
  (\<open>agents-webhook.controller.ts\<close>). Keys, base58, SHA-256, the random nonce, the clock, the resolver and
  the agents' servers are arguments.
\<close>

section \<open>The signed payload\<close>

definition WEBHOOK_EVENT :: string where "WEBHOOK_EVENT = ''refund.settled''"

definition toWebhookCall :: "call_dto \<Rightarrow> payload option" where
  "toWebhookCall c =
     (case outcomeToBreach (cd_outcome c) of None \<Rightarrow> None
      | Some (breach, _) \<Rightarrow> Some
          [(''callId'', JStr (cd_callId c)), (''agentPubkey'', JStr (cd_agent c)), (''endpointSlug'', JStr (cd_slug c)),
           (''premiumLamports'', JStr (cd_premium c)), (''refundLamports'', JStr (cd_refund c)), (''breach'', JBool breach),
           (''settledAt'', JStr (cd_settledAt c)), (''signature'', JStr (cd_signature c))])"

definition webhook_payload :: "int \<Rightarrow> string \<Rightarrow> call_dto list \<Rightarrow> payload option" where
  "webhook_payload now agent calls =
     map_option (\<lambda>cs. [(''type'', JStr ''settlement.calls''), (''version'', JNum 1), (''indexerTs'', JStr (toISOString now)),
       (''agentPubkey'', JStr agent), (''calls'', JArr (List.map JObj cs))]) (those (List.map toWebhookCall calls))"

definition buildWebhookCanonical :: "string \<Rightarrow> int \<Rightarrow> string \<Rightarrow> string \<Rightarrow> string" where
  "buildWebhookCanonical path timestampMs nonce bodyHash =
     ''v1'' @ nl @ ''POST'' @ nl @ path @ nl @ string_of_int timestampMs @ nl @ nonce @ nl @ bodyHash"

record signing_lib =
  sl_decode58 :: "string \<Rightarrow> nat list option"
  sl_encode58 :: "nat list \<Rightarrow> string"
  sl_publicKey :: "nat list \<Rightarrow> nat list option"
  sl_sign :: "string \<Rightarrow> nat list \<Rightarrow> nat list"
  sl_sha256Hex :: "string \<Rightarrow> string"

text \<open>\<open>loadSigningKey\<close>: a 64-byte secret key in base58; \<open>None\<close> when it throws.\<close>

definition loadSigningKey :: "signing_lib \<Rightarrow> string \<Rightarrow> (nat list \<times> string) option" where
  "loadSigningKey l secretBs58 =
     (case sl_decode58 l secretBs58 of None \<Rightarrow> None
      | Some secretKey \<Rightarrow>
          if length secretKey \<noteq> 64 then None
          else map_option (\<lambda>pk. (secretKey, sl_encode58 l pk)) (sl_publicKey l secretKey))"

definition signWebhook ::
    "signing_lib \<Rightarrow> nat list \<times> string \<Rightarrow> web_url \<Rightarrow> payload \<Rightarrow> int \<Rightarrow> nat list \<Rightarrow> headers \<times> string" where
  "signWebhook l signer u p ts random =
     (let body = stringify (JObj p);
          nonce = sl_encode58 l random;
          canonical = buildWebhookCanonical (wu_path u) ts nonce (sl_sha256Hex l body);
          sig = sl_sign l canonical (fst signer)
      in ([(''content-type'', ''application/json''), (''x-pact-event'', WEBHOOK_EVENT), (''x-pact-agent'', snd signer),
           (''x-pact-timestamp'', string_of_int ts), (''x-pact-nonce'', nonce), (''x-pact-signature'', sl_encode58 l sig)], body))"

section \<open>The sender\<close>

record sender_config =
  sc_maxAttempts :: nat
  sc_maxBodyBytes :: nat

text \<open>One POST: the connection is refused or fails (\<open>Inl\<close>), or the agent's server answers a status.\<close>

definition post_once ::
    "(string \<Rightarrow> string + string list) \<Rightarrow> (string \<Rightarrow> headers \<times> string \<Rightarrow> string + int) \<Rightarrow> web_url \<Rightarrow> headers \<times> string \<Rightarrow> string + int" where
  "post_once resolve serve u msg =
     (case connect_address resolve u of Inl e \<Rightarrow> Inl e | Inr a \<Rightarrow> serve a msg)"

text \<open>The retry loop over the attempts' outcomes: whether it delivered and how many POSTs it made.\<close>

fun deliver_loop :: "(nat \<Rightarrow> string + int) \<Rightarrow> nat \<Rightarrow> nat \<Rightarrow> bool \<times> nat" where
  "deliver_loop attempt k 0 = (False, 0)"
| "deliver_loop attempt k (Suc left) =
     (case attempt k of
        Inr status \<Rightarrow>
          if 200 \<le> status \<and> status < 300 then (True, 1)
          else if 400 \<le> status \<and> status < 500 then (False, 1)
          else (case deliver_loop attempt (k + 1) left of (ok, n) \<Rightarrow> (ok, n + 1))
      | Inl e \<Rightarrow> (case deliver_loop attempt (k + 1) left of (ok, n) \<Rightarrow> (ok, n + 1)))"

text \<open>\<open>net k\<close>: the resolver and the servers at the \<open>k\<close>-th attempt.\<close>

type_synonym web_post = "web_url \<times> headers \<times> string"

type_synonym network_at = "nat \<Rightarrow> (string \<Rightarrow> string + string list) \<times> (string \<Rightarrow> headers \<times> string \<Rightarrow> string + int)"

text \<open>Whether it delivered, and the POSTs it made: the same message to the same URL every time.\<close>

definition deliver ::
    "signing_lib \<Rightarrow> sender_config \<Rightarrow> nat list \<times> string \<Rightarrow> web_url option \<Rightarrow> payload \<Rightarrow> int \<Rightarrow> nat list \<Rightarrow> network_at \<Rightarrow>
     bool \<times> web_post list" where
  "deliver l cfg signer url p ts random net =
     (case assertSafeWebhookUrl url of Inl e \<Rightarrow> (False, [])
      | Inr u \<Rightarrow>
          let msg = signWebhook l signer u p ts random in
          if length (snd msg) > sc_maxBodyBytes cfg then (False, [])
          else (case deliver_loop (\<lambda>k. post_once (fst (net k)) (snd (net k)) u msg) 1 (sc_maxAttempts cfg) of
              (ok, n) \<Rightarrow> (ok, replicate n (u, msg))))"

section \<open>Registrations and the failure count\<close>

text \<open>The webhook columns of the \<open>Agent\<close> rows.\<close>

record hook_row =
  hk_url :: "string option"
  hk_registeredAt :: "int option"
  hk_failCount :: int
  hk_lastDeliveryAt :: "int option"

type_synonym hooks = "string \<rightharpoonup> hook_row"

definition register :: "(string \<Rightarrow> web_url option) \<Rightarrow> int \<Rightarrow> string \<Rightarrow> json option \<Rightarrow> hooks \<Rightarrow> hooks \<times> (string + string)" where
  "register new_url now pubkey webhookUrl hs =
     (case webhookUrl of
        Some (JStr (c # cs)) \<Rightarrow>
          (case assertSafeWebhookUrl (new_url (c # cs)) of
             Inl e \<Rightarrow> (hs, Inl e)
           | Inr _ \<Rightarrow> (hs(pubkey \<mapsto> (case hs pubkey of
                 None \<Rightarrow> \<lparr>hk_url = Some (c # cs), hk_registeredAt = Some now, hk_failCount = 0, hk_lastDeliveryAt = None\<rparr>
               | Some row \<Rightarrow> row\<lparr>hk_url := Some (c # cs), hk_registeredAt := Some now, hk_failCount := 0\<rparr>)), Inr (c # cs)))
      | _ \<Rightarrow> (hs, Inl ''webhookUrl (https) is required''))"

definition unregister :: "string \<Rightarrow> hooks \<Rightarrow> hooks" where
  "unregister pubkey hs =
     (case hs pubkey of None \<Rightarrow> hs
      | Some row \<Rightarrow> hs(pubkey \<mapsto> row\<lparr>hk_url := None, hk_registeredAt := None, hk_failCount := 0\<rparr>))"

text \<open>\<open>recordResult\<close>: updating a row that is gone fails and is swallowed.\<close>

definition recordResult :: "int \<Rightarrow> int \<Rightarrow> string \<Rightarrow> bool \<Rightarrow> hooks \<Rightarrow> hooks" where
  "recordResult maxFailCount now pubkey ok hs =
     (case hs pubkey of None \<Rightarrow> hs
      | Some row \<Rightarrow>
          if ok then hs(pubkey \<mapsto> row\<lparr>hk_lastDeliveryAt := Some now, hk_failCount := 0\<rparr>)
          else let count = hk_failCount row + 1 in
            if count \<ge> maxFailCount then hs(pubkey \<mapsto> row\<lparr>hk_url := None, hk_failCount := 0\<rparr>)
            else hs(pubkey \<mapsto> row\<lparr>hk_failCount := count\<rparr>))"

section \<open>The fan-out\<close>

text \<open>The \<open>Map\<close> from agent to calls, in insertion order.\<close>

definition group_call :: "(string \<times> call_dto list) list \<Rightarrow> call_dto \<Rightarrow> (string \<times> call_dto list) list" where
  "group_call byAgent c =
     AList.update (cd_agent c) ((case map_of byAgent (cd_agent c) of None \<Rightarrow> [] | Some cs \<Rightarrow> cs) @ [c]) byAgent"

definition byAgent :: "call_dto list \<Rightarrow> (string \<times> call_dto list) list" where
  "byAgent calls = foldl group_call [] calls"

text \<open>The agents with a registered URL and what each is sent.\<close>

definition recipients :: "call_dto list \<Rightarrow> hooks \<Rightarrow> (string \<times> string \<times> call_dto list) list" where
  "recipients calls hs =
     concat (List.map (\<lambda>(a, cs). case hs a of
         None \<Rightarrow> []
       | Some row \<Rightarrow> (case hk_url row of None \<Rightarrow> [] | Some url \<Rightarrow> if url = [] then [] else [(a, url, cs)])) (byAgent calls))"

record delivery_service =
  ds_lib :: signing_lib
  ds_sender :: sender_config
  ds_maxFailCount :: int
  ds_enabled :: bool
  ds_signer :: "(nat list \<times> string) option"

text \<open>\<open>onModuleInit\<close>: without a usable signing key delivery is switched off.\<close>

definition delivery_init :: "signing_lib \<Rightarrow> sender_config \<Rightarrow> int \<Rightarrow> string option \<Rightarrow> string option \<Rightarrow> delivery_service" where
  "delivery_init l cfg maxFail flag secret =
     (let s = \<lparr>ds_lib = l, ds_sender = cfg, ds_maxFailCount = maxFail, ds_enabled = (flag = Some ''true''), ds_signer = None\<rparr> in
      if \<not> ds_enabled s then s
      else case secret of None \<Rightarrow> s\<lparr>ds_enabled := False\<rparr>
        | Some sec \<Rightarrow> if sec = [] then s\<lparr>ds_enabled := False\<rparr>
            else (case loadSigningKey l sec of None \<Rightarrow> s\<lparr>ds_enabled := False\<rparr> | Some k \<Rightarrow> s\<lparr>ds_signer := Some k\<rparr>))"

text \<open>
  One agent's task: the clock when the payload is built, when it is signed and when the result is
  noted, the nonce and the network. A payload that cannot be built ends the task without a note.
\<close>

record delivery_env =
  de_built :: int
  de_signed :: int
  de_noted :: int
  de_random :: "nat list"
  de_net :: network_at

record delivery =
  dl_agent :: string
  dl_posts :: "web_post list"
  dl_ok :: bool

definition send_to ::
    "delivery_service \<Rightarrow> (string \<Rightarrow> web_url option) \<Rightarrow> nat list \<times> string \<Rightarrow> (string \<Rightarrow> delivery_env) \<Rightarrow>
     string \<times> string \<times> call_dto list \<Rightarrow> delivery option" where
  "send_to s new_url signer env target =
     (case target of (a, url, cs) \<Rightarrow>
        (case webhook_payload (de_built (env a)) a cs of None \<Rightarrow> None
         | Some p \<Rightarrow>
            (case deliver (ds_lib s) (ds_sender s) signer (new_url url) p (de_signed (env a)) (de_random (env a)) (de_net (env a)) of
               (ok, posts) \<Rightarrow> Some \<lparr>dl_agent = a, dl_posts = posts, dl_ok = ok\<rparr>)))"

definition deliver_to ::
    "delivery_service \<Rightarrow> (string \<Rightarrow> web_url option) \<Rightarrow> nat list \<times> string \<Rightarrow> (string \<Rightarrow> delivery_env) \<Rightarrow>
     hooks \<times> delivery list \<Rightarrow> string \<times> string \<times> call_dto list \<Rightarrow> hooks \<times> delivery list" where
  "deliver_to s new_url signer env st target =
     (case st of (hs, sent) \<Rightarrow>
        (case send_to s new_url signer env target of None \<Rightarrow> (hs, sent)
         | Some d \<Rightarrow> (recordResult (ds_maxFailCount s) (de_noted (env (dl_agent d))) (dl_agent d) (dl_ok d) hs, sent @ [d])))"

text \<open>The registrations afterwards and the deliveries made.\<close>

definition enqueue_calls ::
    "delivery_service \<Rightarrow> (string \<Rightarrow> web_url option) \<Rightarrow> (string \<Rightarrow> delivery_env) \<Rightarrow> call_dto list \<Rightarrow> hooks \<Rightarrow>
     hooks \<times> delivery list" where
  "enqueue_calls s new_url env insertedCalls hs =
     (case ds_signer s of None \<Rightarrow> (hs, [])
      | Some signer \<Rightarrow>
          if \<not> ds_enabled s \<or> insertedCalls = [] then (hs, [])
          else foldl (deliver_to s new_url signer env) (hs, []) (recipients insertedCalls hs))"

section \<open>Lemmas\<close>

text \<open>The webhook signs the v1 payload the proxy's middleware verifies.\<close>

lemma webhook_canonical_v1: "buildWebhookCanonical path ts nonce h = buildSignaturePayload ''POST'' path ts nonce h None"
proof -
  have "to_upper ''POST'' = ''POST''" by code_simp
  then show ?thesis by (simp add: buildWebhookCanonical_def buildSignaturePayload_def)
qed

definition calls_of :: "string \<Rightarrow> call_dto list \<Rightarrow> call_dto list" where
  "calls_of a calls = filter (\<lambda>c. cd_agent c = a) calls"

lemma byAgent_groups:
  "distinct (List.map fst (byAgent calls)) \<and>
   map_of (byAgent calls) a = (if calls_of a calls = [] then None else Some (calls_of a calls))"
proof (induction calls arbitrary: a rule: rev_induct)
  case (snoc c calls)
  have step: "byAgent (calls @ [c]) = group_call (byAgent calls) c" by (simp add: byAgent_def)
  show ?case
    using snoc.IH [of "cd_agent c"] snoc.IH [of a]
    by (auto simp: step group_call_def distinct_update update_conv' calls_of_def)
qed (simp add: byAgent_def calls_of_def)

lemma deliver_loop_facts:
  "deliver_loop attempt k left = (ok, n) \<Longrightarrow> n \<le> left \<and>
     (ok \<longrightarrow> 0 < n \<and> (\<exists>st. attempt (k + n - 1) = Inr st \<and> 200 \<le> st \<and> st < 300)) \<and>
     (\<not> ok \<longrightarrow> n = left \<or> (0 < n \<and> (\<exists>st. attempt (k + n - 1) = Inr st \<and> 400 \<le> st \<and> st < 500)))"
proof (induction left arbitrary: k n)
  case (Suc left)
  let ?rest = "deliver_loop attempt (k + 1) left"
  have retry: ?case if "deliver_loop attempt k (Suc left) = (case ?rest of (ok, n) \<Rightarrow> (ok, n + 1))"
  proof -
    have "(case ?rest of (ok, n) \<Rightarrow> (ok, n + 1)) = (ok, n)" using that Suc.prems by (simp only:)
    then obtain m where m: "?rest = (ok, m)" "n = m + 1" by (cases ?rest) auto
    from Suc.IH [OF m(1)] m(2) show ?thesis by (auto; metis Suc_diff_1 add_Suc_right diff_Suc_1)
  qed
  show ?case
  proof (cases "attempt k")
    case (Inl e)
    then show ?thesis using retry by simp
  next
    case (Inr st)
    show ?thesis
    proof (cases "(200 \<le> st \<and> st < 300) \<or> (400 \<le> st \<and> st < 500)")
      case True
      then show ?thesis using Suc.prems Inr by (auto split: if_split_asm)
    next
      case False
      then show ?thesis using retry Inr by auto
    qed
  qed
qed simp

text \<open>Runs of failures.\<close>

definition trailing_failures :: "bool list \<Rightarrow> nat" where
  "trailing_failures rs = length (takeWhile Not (rev rs))"

lemma trailing_failures_snoc: "trailing_failures (rs @ [b]) = (if b then 0 else Suc (trailing_failures rs))"
  by (simp add: trailing_failures_def)

lemma suffix_failures: "suffix (replicate m False) rs \<longleftrightarrow> m \<le> trailing_failures rs"
proof -
  have "prefix (replicate m False) xs \<longleftrightarrow> m \<le> length (takeWhile Not xs)" for xs
  proof (induction xs arbitrary: m)
    case (Cons x xs)
    then show ?case by (cases m) auto
  qed auto
  from this [of "rev rs"] show ?thesis by (simp add: suffix_to_prefix trailing_failures_def)
qed

lemma sublist_snoc: "sublist xs (ys @ [y]) \<longleftrightarrow> sublist xs ys \<or> suffix xs (ys @ [y])"
proof
  assume "sublist xs (ys @ [y])"
  then obtain ps ss where d: "ys @ [y] = ps @ xs @ ss" unfolding sublist_def by blast
  show "sublist xs ys \<or> suffix xs (ys @ [y])"
  proof (cases ss rule: rev_cases)
    case Nil
    then show ?thesis using d by (simp add: suffix_def)
  next
    case (snoc ss' z)
    then have "ys = ps @ xs @ ss'" using d by simp
    then show ?thesis unfolding sublist_def by blast
  qed
next
  assume "sublist xs ys \<or> suffix xs (ys @ [y])"
  then show "sublist xs (ys @ [y])" by (metis sublist_append suffix_imp_sublist)
qed

definition record_results :: "int \<Rightarrow> string \<Rightarrow> (int \<times> bool) list \<Rightarrow> hooks \<Rightarrow> hooks" where
  "record_results m a rs hs = foldl (\<lambda>hs (now, ok). recordResult m now a ok hs) hs rs"

lemma record_results_inv:
  assumes "hs a = Some row" "hk_failCount row = 0" "hk_url row = Some url" "1 \<le> m"
  shows "\<exists>row'. record_results m a rs hs a = Some row' \<and>
    (if sublist (replicate (nat m) False) (List.map snd rs) then hk_url row' = None
     else hk_url row' = Some url \<and> hk_failCount row' = int (trailing_failures (List.map snd rs)))"
proof (induction rs rule: rev_induct)
  case Nil
  have "\<not> sublist (replicate (nat m) False) []" using assms(4) by simp
  then show ?case using assms by (simp add: record_results_def trailing_failures_def)
next
  case (snoc r rs)
  obtain now ok where r: "r = (now, ok)" by (cases r)
  obtain row' where row': "record_results m a rs hs a = Some row'"
    and inv: "if sublist (replicate (nat m) False) (List.map snd rs) then hk_url row' = None
      else hk_url row' = Some url \<and> hk_failCount row' = int (trailing_failures (List.map snd rs))"
    using snoc.IH by blast
  have step: "record_results m a (rs @ [r]) hs = recordResult m now a ok (record_results m a rs hs)"
    by (simp add: record_results_def r)
  have sub: "sublist (replicate (nat m) False) (List.map snd (rs @ [r])) \<longleftrightarrow>
      sublist (replicate (nat m) False) (List.map snd rs) \<or> nat m \<le> trailing_failures (List.map snd rs @ [ok])"
    using sublist_snoc [of _ "List.map snd rs" ok] suffix_failures [of "nat m" "List.map snd rs @ [ok]"] by (simp add: r)
  show ?case
    using inv assms(4) unfolding sub step by (auto simp: recordResult_def row' r trailing_failures_snoc Let_def split: if_splits)
qed

lemma recipients_exact:
  "distinct (List.map fst (recipients calls hs)) \<and>
   ((a, url, cs) \<in> set (recipients calls hs) \<longleftrightarrow>
      (\<exists>row. hs a = Some row \<and> hk_url row = Some url) \<and> url \<noteq> [] \<and> cs \<noteq> [] \<and> cs = filter (\<lambda>c. cd_agent c = a) calls)"
proof
  define g where "g = (\<lambda>(a, cs :: call_dto list). case hs a of
         None \<Rightarrow> []
       | Some row \<Rightarrow> (case hk_url row of None \<Rightarrow> [] | Some url \<Rightarrow> if url = [] then [] else [(a, url, cs)]))"
  have r: "recipients calls hs = concat (List.map g (byAgent calls))" by (simp add: recipients_def g_def)
  have elem: "(a, url, cs) \<in> set (g x) \<longleftrightarrow> x = (a, cs) \<and> (\<exists>row. hs a = Some row \<and> hk_url row = Some url) \<and> url \<noteq> []" for x
  proof (cases x)
    case (Pair b ds)
    show ?thesis
    proof (cases "hs b")
      case (Some row)
      then show ?thesis using Pair by (cases "hk_url row") (auto simp: g_def)
    qed (use Pair in \<open>auto simp: g_def\<close>)
  qed
  have one: "g x = [] \<or> (\<exists>url. g x = [(fst x, url, snd x)])" for x
    by (cases x) (auto simp: g_def split: option.split)
  have sub: "set (List.map fst (concat (List.map g xs))) \<subseteq> fst ` set xs" for xs
  proof (induction xs)
    case (Cons x xs)
    then show ?case using one [of x] by auto
  qed simp
  have "distinct (List.map fst xs) \<longrightarrow> distinct (List.map fst (concat (List.map g xs)))" for xs
  proof (induction xs)
    case (Cons x xs)
    show ?case
    proof
      assume d: "distinct (List.map fst (x # xs))"
      then have "fst x \<notin> set (List.map fst (concat (List.map g xs)))" using sub [of xs] by auto
      moreover have "distinct (List.map fst (concat (List.map g xs)))" using Cons d by simp
      moreover have "List.map fst (concat (List.map g (x # xs))) = List.map fst (g x) @ List.map fst (concat (List.map g xs))" by simp
      ultimately show "distinct (List.map fst (concat (List.map g (x # xs))))"
        using one [of x] by (elim disjE exE) (simp_all only: list.map append_Nil append_Cons distinct.simps fst_conv, simp)
    qed
  qed simp
  then show "distinct (List.map fst (recipients calls hs))" using byAgent_groups [of calls] unfolding r by blast
  have "(a, url, cs) \<in> set (recipients calls hs) \<longleftrightarrow>
      (a, cs) \<in> set (byAgent calls) \<and> (\<exists>row. hs a = Some row \<and> hk_url row = Some url) \<and> url \<noteq> []"
    unfolding r using elem by auto
  moreover have "(a, cs) \<in> set (byAgent calls) \<longleftrightarrow> map_of (byAgent calls) a = Some cs"
    using map_of_eq_Some_iff [of "byAgent calls" a cs] byAgent_groups [of calls a] by metis
  ultimately show "(a, url, cs) \<in> set (recipients calls hs) \<longleftrightarrow>
      (\<exists>row. hs a = Some row \<and> hk_url row = Some url) \<and> url \<noteq> [] \<and> cs \<noteq> [] \<and> cs = filter (\<lambda>c. cd_agent c = a) calls"
    using byAgent_groups [of calls a] by (auto simp: calls_of_def)
qed

lemmas recipients_distinct = recipients_exact [THEN conjunct1]

lemmas recipients_iff = recipients_exact [THEN conjunct2]

lemma recipients_none [simp]: "recipients [] hs = []"
  by (simp add: recipients_def byAgent_def)

text \<open>The fan-out, delivery by delivery.\<close>

definition note_result :: "delivery_service \<Rightarrow> (string \<Rightarrow> delivery_env) \<Rightarrow> hooks \<Rightarrow> delivery \<Rightarrow> hooks" where
  "note_result s env hs d = recordResult (ds_maxFailCount s) (de_noted (env (dl_agent d))) (dl_agent d) (dl_ok d) hs"

lemma enqueue_fold:
  "foldl (deliver_to s new_url signer env) (hs, sent) ts =
     (foldl (note_result s env) hs (List.map_filter (send_to s new_url signer env) ts),
      sent @ List.map_filter (send_to s new_url signer env) ts)"
  by (induction ts arbitrary: hs sent) (auto simp: deliver_to_def note_result_def map_filter_simps split: option.split)

lemma recordResult_local:
  "b \<noteq> a \<Longrightarrow> recordResult m now a ok hs b = hs b"
  "hs a = hs2 a \<Longrightarrow> recordResult m now a ok hs a = recordResult m now a ok hs2 a"
  by (auto simp: recordResult_def Let_def split: option.split)

lemma notes_frame: "a \<notin> dl_agent ` set ds \<Longrightarrow> foldl (note_result s env) hs ds a = hs a"
  by (induction ds arbitrary: hs) (auto simp: note_result_def recordResult_local)

lemma notes_local:
  "distinct (List.map dl_agent ds) \<Longrightarrow> d \<in> set ds \<Longrightarrow>
     foldl (note_result s env) hs ds (dl_agent d) = note_result s env hs d (dl_agent d)"
proof (induction ds arbitrary: hs)
  case (Cons x ds)
  show ?case
  proof (cases "d = x")
    case True
    then show ?thesis using notes_frame [of "dl_agent x" ds s env "note_result s env hs x"] Cons.prems by simp
  next
    case False
    then have d: "d \<in> set ds" using Cons.prems(2) by simp
    with Cons.prems(1) have "dl_agent d \<noteq> dl_agent x" by (metis distinct.simps(2) imageI list.set_map list.simps(9))
    note d = d this
    then have "note_result s env (note_result s env hs x) d (dl_agent d) = note_result s env hs d (dl_agent d)"
      unfolding note_result_def by (intro recordResult_local(2)) (simp add: recordResult_local)
    then show ?thesis using Cons.IH [of "note_result s env hs x"] Cons.prems d by simp
  qed
qed simp

lemma send_to_some:
  assumes "\<forall>c \<in> set (snd (snd t)). outcomeToBreach (cd_outcome c) \<noteq> None"
  shows "\<exists>d. send_to s new_url signer env t = Some d \<and> dl_agent d = fst t"
proof -
  obtain a url cs where t: "t = (a, url, cs)" by (cases t)
  have "those (List.map toWebhookCall cs) \<noteq> None"
    using assms unfolding t by (induction cs) (auto simp: toWebhookCall_def split: option.splits)
  then show ?thesis by (auto simp: t send_to_def webhook_payload_def split: option.split prod.split)
qed

lemma map_filter_agents:
  "(\<And>t. t \<in> set ts \<Longrightarrow> \<exists>d. f t = Some d \<and> g d = h t) \<Longrightarrow> List.map g (List.map_filter f ts) = List.map h ts"
proof (induction ts)
  case (Cons t ts)
  then obtain d where "f t = Some d" "g d = h t" by (metis list.set_intros(1))
  with Cons show ?case by (simp add: map_filter_simps)
qed (simp add: map_filter_simps)

lemma deliver_posts:
  assumes "deliver l cfg signer url p ts random net = (ok, posts)"
  shows "(\<forall>(u, msg) \<in> set posts. url = Some u \<and> msg = signWebhook l signer u p ts random) \<and> length posts \<le> sc_maxAttempts cfg"
  using assms
  by (auto simp: deliver_def assertSafeWebhookUrl_def Let_def dest!: deliver_loop_facts
      split: option.split_asm if_split_asm prod.split_asm sum.split_asm)

section \<open>Properties\<close>

text \<open>
  C29: the fan-out of a batch. With delivery enabled and outcomes that are known, exactly the agents
  with a registered URL and at least one call in the batch get a delivery, each a single one. The
  payload of each holds exactly that agent's calls in their order, every POST of it goes to the
  agent's own URL with this payload signed by the indexer's key, and the result is noted on the
  agent's registration; every other registration stays as it was.
\<close>

theorem webhook_fanout_per_agent:
  assumes "ds_enabled s" and "ds_signer s = Some signer" and "\<forall>c \<in> set calls. outcomeToBreach (cd_outcome c) \<noteq> None"
    and "enqueue_calls s new_url env calls hs = (hs', ds)"
  shows "distinct (List.map dl_agent ds)
    \<and> (\<forall>a. a \<in> dl_agent ` set ds \<longleftrightarrow>
         (\<exists>c \<in> set calls. cd_agent c = a) \<and> (\<exists>row url. hs a = Some row \<and> hk_url row = Some url \<and> url \<noteq> []))
    \<and> (\<forall>d \<in> set ds. \<exists>row url p e. hs (dl_agent d) = Some row \<and> hk_url row = Some url \<and> e = env (dl_agent d)
         \<and> webhook_payload (de_built e) (dl_agent d) (filter (\<lambda>c. cd_agent c = dl_agent d) calls) = Some p
         \<and> deliver (ds_lib s) (ds_sender s) signer (new_url url) p (de_signed e) (de_random e) (de_net e) = (dl_ok d, dl_posts d)
         \<and> (\<forall>(u, msg) \<in> set (dl_posts d). new_url url = Some u \<and> msg = signWebhook (ds_lib s) signer u p (de_signed e) (de_random e))
         \<and> length (dl_posts d) \<le> sc_maxAttempts (ds_sender s)
         \<and> hs' (dl_agent d) = recordResult (ds_maxFailCount s) (de_noted e) (dl_agent d) (dl_ok d) hs (dl_agent d))
    \<and> (\<forall>a. a \<notin> dl_agent ` set ds \<longrightarrow> hs' a = hs a)"
proof -
  let ?ts = "recipients calls hs"
  have run: "(hs', ds) = (foldl (note_result s env) hs ds, ds)" "ds = List.map_filter (send_to s new_url signer env) ?ts"
    using assms(4) enqueue_fold [of s new_url signer env hs "[]" ?ts] assms(1,2)
    by (auto simp: enqueue_calls_def recipients_none map_filter_simps split: if_split_asm)
  have all: "\<exists>d. send_to s new_url signer env t = Some d \<and> dl_agent d = fst t" if "t \<in> set ?ts" for t
  proof (rule send_to_some)
    obtain a url cs where t: "t = (a, url, cs)" by (cases t)
    then have "cs = filter (\<lambda>c. cd_agent c = a) calls" using that recipients_iff by blast
    then show "\<forall>c \<in> set (snd (snd t)). outcomeToBreach (cd_outcome c) \<noteq> None" using assms(3) t by auto
  qed
  have agents: "List.map dl_agent ds = List.map fst ?ts" unfolding run(2) by (rule map_filter_agents [OF all])
  then have dist: "distinct (List.map dl_agent ds)" using recipients_distinct by simp
  have "a \<in> dl_agent ` set ds \<longleftrightarrow> (\<exists>c \<in> set calls. cd_agent c = a) \<and> (\<exists>row url. hs a = Some row \<and> hk_url row = Some url \<and> url \<noteq> [])" for a
  proof -
    have "a \<in> dl_agent ` set ds \<longleftrightarrow> (\<exists>url cs. (a, url, cs) \<in> set ?ts)" using arg_cong [OF agents, of set] by (force simp: image_iff)
    then show ?thesis unfolding recipients_iff by (auto simp: filter_empty_conv)
  qed
  moreover have "\<exists>row url p e. hs (dl_agent d) = Some row \<and> hk_url row = Some url \<and> e = env (dl_agent d)
         \<and> webhook_payload (de_built e) (dl_agent d) (filter (\<lambda>c. cd_agent c = dl_agent d) calls) = Some p
         \<and> deliver (ds_lib s) (ds_sender s) signer (new_url url) p (de_signed e) (de_random e) (de_net e) = (dl_ok d, dl_posts d)
         \<and> (\<forall>(u, msg) \<in> set (dl_posts d). new_url url = Some u \<and> msg = signWebhook (ds_lib s) signer u p (de_signed e) (de_random e))
         \<and> length (dl_posts d) \<le> sc_maxAttempts (ds_sender s)
         \<and> hs' (dl_agent d) = recordResult (ds_maxFailCount s) (de_noted e) (dl_agent d) (dl_ok d) hs (dl_agent d)"
    if d: "d \<in> set ds" for d
  proof -
    obtain a url cs where t: "(a, url, cs) \<in> set ?ts" "send_to s new_url signer env (a, url, cs) = Some d"
      using d unfolding run(2) by (auto simp: List.map_filter_def)
    then have a: "dl_agent d = a" using all by fastforce
    obtain row where row: "hs a = Some row" "hk_url row = Some url" "cs = filter (\<lambda>c. cd_agent c = a) calls"
      using t(1) unfolding recipients_iff by blast
    obtain p where p: "webhook_payload (de_built (env a)) a cs = Some p"
      "deliver (ds_lib s) (ds_sender s) signer (new_url url) p (de_signed (env a)) (de_random (env a)) (de_net (env a)) = (dl_ok d, dl_posts d)"
      using t(2) by (auto simp: send_to_def split: option.split_asm prod.split_asm)
    have "hs' a = recordResult (ds_maxFailCount s) (de_noted (env a)) a (dl_ok d) hs a"
      using notes_local [OF dist d, of s env hs] run(1) a by (simp add: note_result_def)
    with row p deliver_posts [OF p(2)] show ?thesis unfolding a by blast
  qed
  moreover have "hs' a = hs a" if "a \<notin> dl_agent ` set ds" for a using notes_frame [OF that] run(1) by simp
  ultimately show ?thesis using dist by blast
qed

text \<open>
  C30: a webhook is switched off exactly by \<open>maxFailCount\<close> failures in a row. Whatever results follow a
  registration, the URL is kept, with the current run of failures as its count, as long as no run
  reached the limit, and is gone from the delivery that completes one.
\<close>

theorem webhook_disabled_after_failures:
  assumes "hs a = Some row" and "hk_failCount row = 0" and "hk_url row = Some url" and "1 \<le> maxFailCount"
  shows "\<exists>row'. foldl (\<lambda>hs (now, ok). recordResult maxFailCount now a ok hs) hs rs a = Some row' \<and>
    hk_url row' = (if sublist (replicate (nat maxFailCount) False) (List.map snd rs) then None else Some url) \<and>
    (hk_url row' \<noteq> None \<longrightarrow> hk_failCount row' = int (length (takeWhile Not (rev (List.map snd rs)))))"
  using record_results_inv [where hs = hs and a = a and rs = rs, OF assms] unfolding record_results_def trailing_failures_def
  by (auto split: if_split_asm)

theorem webhook_disabled_after_failures_witness:
  "\<exists>row'. foldl (\<lambda>hs (now, ok). recordResult 2 now ''A'' ok hs)
       [''A'' \<mapsto> \<lparr>hk_url = Some ''https://a.example/'', hk_registeredAt = Some 0, hk_failCount = 0, hk_lastDeliveryAt = None\<rparr>]
       [(1, False), (2, True), (3, False), (4, False)] ''A'' = Some row' \<and> hk_url row' = None"
proof -
  have "sublist (replicate (nat 2) False) (List.map snd [(1 :: int, False), (2, True), (3, False), (4, False)])"
    by (simp add: numeral_2_eq_2 sublist_Cons_right)
  then show ?thesis
    using webhook_disabled_after_failures [of "[''A'' \<mapsto> \<lparr>hk_url = Some ''https://a.example/'', hk_registeredAt = Some 0,
        hk_failCount = 0, hk_lastDeliveryAt = None\<rparr>]" "''A''" _ "''https://a.example/''" 2
        "[(1, False), (2, True), (3, False), (4, False)]"] by auto
qed

text \<open>
  A delivery is bounded and only counts as done on the agent's word. It makes at most
  \<open>maxAttempts\<close> POSTs; it succeeds exactly when the last of them reached an address the guard lets
  through and was answered with a 2xx status; and it stops early only on a 2xx or 4xx answer.
\<close>

theorem webhook_delivery_bounded:
  assumes "deliver l cfg signer url p ts random net = (ok, posts)" and "n = length posts"
  shows "n \<le> sc_maxAttempts cfg \<and>
    (ok \<longrightarrow> (\<exists>u a st. url = Some u \<and> assertSafeWebhookUrl url = Inr u \<and> connect_address (fst (net n)) u = Inr a \<and>
       snd (net n) a (signWebhook l signer u p ts random) = Inr st \<and> 200 \<le> st \<and> st < 300)) \<and>
    (\<not> ok \<and> 0 < n \<and> n < sc_maxAttempts cfg \<longrightarrow> (\<exists>u st. url = Some u \<and>
       post_once (fst (net n)) (snd (net n)) u (signWebhook l signer u p ts random) = Inr st \<and> 400 \<le> st \<and> st < 500))"
proof (cases "assertSafeWebhookUrl url")
  case (Inl e)
  then show ?thesis using assms by (simp add: deliver_def)
next
  case (Inr u)
  then have url: "url = Some u" by (auto simp: assertSafeWebhookUrl_def split: option.split_asm if_split_asm)
  let ?msg = "signWebhook l signer u p ts random"
  let ?attempt = "\<lambda>k. post_once (fst (net k)) (snd (net k)) u ?msg"
  show ?thesis
  proof (cases "length (snd ?msg) > sc_maxBodyBytes cfg")
    case True
    then show ?thesis using assms Inr by (simp add: deliver_def Let_def)
  next
    case False
    then have "deliver_loop ?attempt 1 (sc_maxAttempts cfg) = (ok, n)" using assms Inr
      by (auto simp: deliver_def Let_def split: prod.split_asm)
    from deliver_loop_facts [OF this] show ?thesis
      using url Inr by (auto simp: post_once_def split: sum.split_asm)
  qed
qed

definition demo_lib :: signing_lib where
  "demo_lib = \<lparr>sl_decode58 = (\<lambda>_. None), sl_encode58 = (\<lambda>_. ''b58''), sl_publicKey = (\<lambda>_. None), sl_sign = (\<lambda>_ _. []), sl_sha256Hex = (\<lambda>_. ''h'')\<rparr>"

definition demo_net :: network_at where
  "demo_net k = (\<lambda>_. Inr [''8.8.8.8''], \<lambda>a m. if k = 1 then Inl ''timeout'' else Inr 200)"

lemma demo_deliver:
  "deliver demo_lib \<lparr>sc_maxAttempts = 4, sc_maxBodyBytes = 100\<rparr> ([], ''pk'') (Some (literal_url (HName ''a.example''))) [] 0 [] demo_net =
     (True, replicate 2 (literal_url (HName ''a.example''), signWebhook demo_lib ([], ''pk'') (literal_url (HName ''a.example'')) [] 0 []))"
proof -
  have f: "\<not> isUnsafeIp ''a.example''" "\<not> isUnsafeIp ''8.8.8.8''" by code_simp+
  have "connect_address (\<lambda>_. Inr [''8.8.8.8'']) (literal_url (HName ''a.example'')) = Inr ''8.8.8.8''"
    by (simp add: connect_address_def literal_url_def safe_lookup_def f)
  then show ?thesis
    by (simp add: deliver_def assertSafeWebhookUrl_def literal_url_def hostname_def address_text_def ALLOWED_PORTS_def f
        signWebhook_def Let_def post_once_def demo_net_def numeral_eq_Suc)
qed

theorem webhook_delivery_bounded_witness:
  "\<exists>a st. connect_address (fst (demo_net 2)) (literal_url (HName ''a.example'')) = Inr a \<and>
     snd (demo_net 2) a (signWebhook demo_lib ([], ''pk'') (literal_url (HName ''a.example'')) [] 0 []) = Inr st \<and> 200 \<le> st"
  using webhook_delivery_bounded [OF demo_deliver refl] by auto

text \<open>One call of one registered agent.\<close>

definition demo_service :: delivery_service where
  "demo_service = \<lparr>ds_lib = demo_lib, ds_sender = \<lparr>sc_maxAttempts = 4, sc_maxBodyBytes = 1000\<rparr>, ds_maxFailCount = 20,
     ds_enabled = True, ds_signer = Some ([], ''pk'')\<rparr>"

theorem webhook_fanout_per_agent_witness:
  "\<exists>hs' ds. enqueue_calls demo_service (\<lambda>_. Some (literal_url (HName ''a.example'')))
      (\<lambda>_. \<lparr>de_built = 0, de_signed = 1, de_noted = 2, de_random = [1], de_net = demo_net\<rparr>) [sample_call]
      [cd_agent sample_call \<mapsto> \<lparr>hk_url = Some ''https://a.example/'', hk_registeredAt = Some 0, hk_failCount = 0,
        hk_lastDeliveryAt = None\<rparr>] = (hs', ds) \<and> dl_agent ` set ds = {cd_agent sample_call}"
proof -
  let ?hs = "[cd_agent sample_call \<mapsto> \<lparr>hk_url = Some ''https://a.example/'', hk_registeredAt = Some 0, hk_failCount = 0,
        hk_lastDeliveryAt = None\<rparr>]"
  have outcome: "outcomeToBreach (cd_outcome sample_call) = Some (True, Some ''server_error'')" by code_simp
  obtain hs' ds where run: "enqueue_calls demo_service (\<lambda>_. Some (literal_url (HName ''a.example'')))
      (\<lambda>_. \<lparr>de_built = 0, de_signed = 1, de_noted = 2, de_random = [1], de_net = demo_net\<rparr>) [sample_call] ?hs = (hs', ds)"
    by force
  have "\<forall>a. a \<in> dl_agent ` set ds \<longleftrightarrow>
      (\<exists>c \<in> set [sample_call]. cd_agent c = a) \<and> (\<exists>row url. ?hs a = Some row \<and> hk_url row = Some url \<and> url \<noteq> [])"
    using webhook_fanout_per_agent [OF _ _ _ run, of "([], ''pk'')"] outcome by (simp add: demo_service_def)
  then have "a \<in> dl_agent ` set ds \<longleftrightarrow> a = cd_agent sample_call" for a by (cases "a = cd_agent sample_call") simp_all
  then have "dl_agent ` set ds = {cd_agent sample_call}" by blast
  with run show ?thesis by blast
qed

end
