(* ===== verification/Facilitator.thy ===== *)
theory Facilitator
  imports ProxyAuth Submitter Complex_Main
begin

text \<open>
  \<open>packages/facilitator\<close>: coverage for calls paid with pay.sh. Authentication of the register call,
  on-chain verification of the payment, the premium and refund of a claim, the abuse gate on
  client-attested verdicts and the two coverage routes. Arguments stand for the crypto libraries, the
  Solana node, the database rows, the balance check, random bytes and the clock. The breach rates of
  the gate are rationals where the code has doubles.
\<close>

unbundle bit_operations_syntax

section \<open>Authentication\<close>

text \<open>The middleware: like the proxy's, but the agent is required, there is no project and only v1.\<close>

definition facilitator_verify ::
    "verify_options \<Rightarrow> crypto \<Rightarrow> replay_store \<Rightarrow> int \<Rightarrow> int \<Rightarrow> auth_request \<Rightarrow> replay_store \<times> (auth_error + string)" where
  "facilitator_verify opts c store now1 now2 req =
     (let hs = aq_headers req in
      case (truthy_header hs ''x-pact-agent'', truthy_header hs ''x-pact-timestamp'', truthy_header hs ''x-pact-nonce'',
            truthy_header hs ''x-pact-signature'') of
        (Some agent, Some timestamp, Some nonce, Some signature) \<Rightarrow>
          (case parseInt timestamp of None \<Rightarrow> (store, Inl Auth_stale)
           | Some tsMs \<Rightarrow>
               if \<bar>now1 - tsMs\<bar> > vo_skewMs opts then (store, Inl Auth_stale)
               else (case replay_seen (vo_replayTtlMs opts) store (agent @ '':'' @ nonce) now2 of
                   (store', True) \<Rightarrow> (store', Inl Auth_replay)
                 | (store', False) \<Rightarrow> (store',
                     case aq_body req of None \<Rightarrow> Inl Auth_bad_sig
                     | Some body \<Rightarrow>
                         let payload = buildSignaturePayload (aq_method req) (aq_path req) tsMs nonce
                               (if body = [] then [] else sha256Hex c body) None
                         in case (bs58_decode c agent, bs58_decode c signature) of
                              (Some pubkey, Some sig) \<Rightarrow>
                                if length pubkey = 32 \<and> length sig = 64 \<and> nacl_verify c payload sig pubkey = Some True
                                then Inr agent else Inl Auth_bad_sig
                            | _ \<Rightarrow> Inl Auth_bad_sig)))
      | _ \<Rightarrow> (store, Inl Auth_missing))"

section \<open>Verdicts and economics\<close>

definition verdictToOutcome :: "string \<Rightarrow> outcome option" where
  "verdictToOutcome v =
     (if v = ''success'' \<or> v = ''ok'' then Some Ok
      else if v = ''latency_breach'' then Some LatencyBreach
      else if v = ''server_error'' then Some ServerError
      else if v = ''network_error'' then Some NetworkError
      else if v = ''client_error'' \<or> v = ''payment_failed'' then Some ClientError
      else None)"

definition computeCoverage :: "outcome \<Rightarrow> economics_pool \<Rightarrow> int \<Rightarrow> economics" where
  "computeCoverage oc pool amountPaidBaseUnits = computeEconomics oc pool (Some amountPaidBaseUnits)"

section \<open>Coverage ids\<close>

text \<open>16 bytes with the version and variant of a version 4 UUID, in hexadecimal with hyphens.\<close>

definition uuid_bytes :: "bytes \<Rightarrow> bytes" where
  "uuid_bytes b0 = (let b = take 16 b0 in b[6 := (b ! 6 AND 0x0F) OR 0x40, 8 := (b ! 8 AND 0x3F) OR 0x80])"

definition uuid_string :: "bytes \<Rightarrow> string" where
  "uuid_string b = (let hex = hex_of_bytes b in
     take 8 hex @ ''-'' @ take 4 (drop 8 hex) @ ''-'' @ take 4 (drop 12 hex) @ ''-'' @ take 4 (drop 16 hex) @ ''-'' @ drop 20 hex)"

definition deriveCoverageId :: "(string \<Rightarrow> bytes) \<Rightarrow> string \<Rightarrow> string \<Rightarrow> string \<Rightarrow> string" where
  "deriveCoverageId sha256 payee resource paymentSignature =
     uuid_string (uuid_bytes (sha256 (''pay.sh'' @ nl @ payee @ nl @ resource @ nl @ paymentSignature)))"

definition randomCoverageId :: "bytes \<Rightarrow> string" where
  "randomCoverageId random = uuid_string (uuid_bytes random)"

section \<open>Payment verification\<close>

record token_balance =
  tb_accountIndex :: nat
  tb_mint :: string
  tb_owner :: "string option"
  tb_amount :: int

record parsed_tx =
  tx_err :: bool
  tx_pre :: "token_balance list"
  tx_post :: "token_balance list"

fun find_transfer :: "(nat \<rightharpoonup> int) \<Rightarrow> string \<Rightarrow> string \<Rightarrow> int \<Rightarrow> token_balance list \<Rightarrow> int option" where
  "find_transfer before asset payee amount [] = None"
| "find_transfer before asset payee amount (p # ps) =
     (if tb_mint p \<noteq> asset \<or> tb_owner p \<noteq> Some payee then find_transfer before asset payee amount ps
      else let delta = tb_amount p - (case before (tb_accountIndex p) of None \<Rightarrow> 0 | Some a \<Rightarrow> a)
        in if delta \<ge> amount then Some delta else find_transfer before asset payee amount ps)"

text \<open>\<open>answer\<close> is \<open>getParsedTransaction\<close>'s: an error, no transaction, or the transaction.\<close>

definition verifyPayment :: "string + parsed_tx option \<Rightarrow> string \<Rightarrow> string \<Rightarrow> int \<Rightarrow> string + int" where
  "verifyPayment answer payee asset amountBaseUnits =
     (case answer of
        Inl e \<Rightarrow> Inl ''rpc_error''
      | Inr None \<Rightarrow> Inl ''tx_not_found''
      | Inr (Some tx) \<Rightarrow>
          if tx_err tx then Inl ''tx_failed''
          else (case find_transfer (map_of (rev (List.map (\<lambda>p. (tb_accountIndex p, tb_amount p)) (tx_pre tx)))) asset payee
                   amountBaseUnits (tx_post tx) of
              None \<Rightarrow> Inl ''no_matching_transfer'' | Some delta \<Rightarrow> Inr delta))"

section \<open>Pool configuration\<close>

record pool_config =
  pc_slug :: string
  pc_flatPremium :: int
  pc_imputedCost :: int
  pc_slaLatencyMs :: int
  pc_exposureCapPerHour :: int
  pc_paused :: bool

definition readPoolConfig :: "string + pool_config list \<Rightarrow> pool_config \<Rightarrow> pool_config" where
  "readPoolConfig answer defaults = (case answer of Inr (row # _) \<Rightarrow> row | _ \<Rightarrow> defaults\<lparr>pc_paused := False\<rparr>)"

section \<open>The abuse gate\<close>

datatype gate_mode = GateOff | GateLogOnly | GateEnforce

record attestation_stats =
  as_agentRefund :: int
  as_agentCoveredClaims :: nat
  as_agentTotalCalls :: nat
  as_networkRate :: rat
  as_networkSamples :: nat

record attestation_thresholds =
  at_refundCap :: int
  at_anomalyMultiple :: rat
  at_minBreachRate :: rat
  at_minCalls :: nat

definition DEFAULT_THRESHOLDS :: attestation_thresholds where
  "DEFAULT_THRESHOLDS = \<lparr>at_refundCap = 3003000, at_anomalyMultiple = 3, at_minBreachRate = 1 / 2, at_minCalls = 10\<rparr>"

definition perAgentRefundCapFor :: "pool_config \<Rightarrow> int" where
  "perAgentRefundCapFor pool = 3 * (pc_imputedCost pool + pc_flatPremium pool)"

datatype attestation_decision = Allow | Throttle string

definition evaluateClientAttestation :: "int \<Rightarrow> attestation_stats \<Rightarrow> attestation_thresholds \<Rightarrow> attestation_decision" where
  "evaluateClientAttestation thisRefund st t =
     (if thisRefund \<le> 0 then Allow
      else if as_agentRefund st + thisRefund > at_refundCap t then Throttle ''per_agent_refund_cap''
      else if as_agentTotalCalls st \<ge> at_minCalls t \<and>
          of_nat (as_agentCoveredClaims st) / of_nat (as_agentTotalCalls st) >
            (if as_networkSamples st > 0 then max (at_minBreachRate t) (as_networkRate st * at_anomalyMultiple t)
             else at_minBreachRate t)
      then Throttle ''breach_claim_rate_anomaly''
      else Allow)"

text \<open>The rows of \<open>Call\<close> the loader's two queries read; times in milliseconds.\<close>

record attested_call =
  ac_agentPubkey :: string
  ac_source :: "string option"
  ac_verdictSource :: "string option"
  ac_refund :: int
  ac_breach :: bool
  ac_ts :: int

definition loadAttestationStats :: "attested_call list \<Rightarrow> int \<Rightarrow> string \<Rightarrow> attestation_stats" where
  "loadAttestationStats rows now agent =
     (let mine = filter (\<lambda>r. ac_agentPubkey r = agent \<and> ac_source r = Some ''pay.sh'' \<and> ac_ts r > now - 3600000) rows;
          seen = filter (\<lambda>r. ac_verdictSource r = Some ''pact_observed'' \<and> ac_ts r > now - 86400000) rows
      in \<lparr>as_agentRefund = sum_list (List.map ac_refund mine),
          as_agentCoveredClaims = length (filter ac_breach mine), as_agentTotalCalls = length mine,
          as_networkRate = of_nat (length (filter ac_breach seen)) / of_nat (length seen),
          as_networkSamples = length seen\<rparr>)"

section \<open>Registering coverage\<close>

definition is_base58 :: "nat \<Rightarrow> nat \<Rightarrow> string \<Rightarrow> bool" where
  "is_base58 lo hi s \<longleftrightarrow> lo \<le> length s \<and> length s \<le> hi \<and>
     list_all (\<lambda>c. c \<in> set ''123456789ABCDEFGHJKLMNPQRSTUVWXYZabcdefghijkmnopqrstuvwxyz'') s"

definition USDC_MINTS :: "string list" where
  "USDC_MINTS = [''EPjFWdd5AufqSSqeM2qN1xzybapC8G4wEGGkZwyTDt1v'', ''4zMMC9srt5Ri5X14GAgXhaHii3GnPAEERYPJgZJDncDU'']"

record pay_event =
  pe_callId :: string
  pe_agentPubkey :: string
  pe_endpointSlug :: string
  pe_premiumLamports :: string
  pe_refundLamports :: string
  pe_latencyMs :: int
  pe_outcome :: outcome
  pe_ts :: string
  pe_verified :: bool
  pe_payee :: "string option"
  pe_resource :: string

text \<open>What the route relies on during one request.\<close>

record coverage_env =
  ce_bs58 :: "string \<Rightarrow> nat list option"
  ce_sha256 :: "string \<Rightarrow> bytes"
  ce_random :: bytes
  ce_usdcMint :: string
  ce_tx :: "string \<Rightarrow> string + parsed_tx option"
  ce_pool :: "string + pool_config list"
  ce_defaults :: pool_config
  ce_check :: "string \<Rightarrow> int \<Rightarrow> string + balance_result"
  ce_gate :: gate_mode
  ce_stats :: "string \<Rightarrow> string + attestation_stats"
  ce_now :: int

datatype coverage_response =
    Rejected string int
  | Uncovered string int string bool
  | Pending string int int outcome "int option" bool
  | CoverageThrows

record claim =
  cl_agent :: string
  cl_payee :: "string option"
  cl_signature :: string
  cl_resource :: string
  cl_amount :: int
  cl_asset :: string
  cl_outcome :: outcome
  cl_latencyMs :: int

text \<open>A field that is absent, null or the empty string is not present.\<close>

definition present :: "json option \<Rightarrow> bool" where
  "present v \<longleftrightarrow> v \<noteq> None \<and> v \<noteq> Some JNull \<and> v \<noteq> Some (JStr [])"

definition string_where :: "(string \<Rightarrow> bool) \<Rightarrow> json option \<Rightarrow> bool" where
  "string_where P v = (case v of Some (JStr s) \<Rightarrow> P s | _ \<Rightarrow> False)"

definition str_of :: "json option \<Rightarrow> string" where
  "str_of v = (case v of Some (JStr s) \<Rightarrow> s | _ \<Rightarrow> [])"

text \<open>The shape and identity checks, in the code's order.\<close>

definition claim_error :: "coverage_env \<Rightarrow> string \<Rightarrow> payload \<Rightarrow> coverage_response option" where
  "claim_error env verifiedAgent d =
     (let g = get_prop d; agent = str_of (g ''agent'') in
      if \<not> string_where (is_base58 32 44) (g ''agent'') then Some (Rejected ''bad_agent'' 400)
      else if agent \<noteq> verifiedAgent then Some (Rejected ''agent_mismatch'' 401)
      else if (case ce_bs58 env agent of None \<Rightarrow> True | Some k \<Rightarrow> length k \<noteq> 32) then Some (Rejected ''bad_agent'' 400)
      else if present (g ''payee'') \<and> \<not> string_where (is_base58 32 44) (g ''payee'') then Some (Rejected ''bad_payee'' 400)
      else if present (g ''paymentSignature'') \<and> \<not> string_where (is_base58 64 90) (g ''paymentSignature'')
      then Some (Rejected ''bad_payment_signature'' 400)
      else if \<not> string_where (\<lambda>s. s \<noteq> [] \<and> length s \<le> 2048) (g ''resource'') then Some (Rejected ''bad_resource'' 400)
      else if \<not> string_where (\<lambda>s. s = ''x402'' \<or> s = ''mpp'') (g ''scheme'') then Some (Rejected ''bad_scheme'' 400)
      else if \<not> string_where (\<lambda>s. s \<in> set USDC_MINTS) (g ''asset'') then Some (Rejected ''unsupported_asset'' 400)
      else if str_of (g ''asset'') \<noteq> ce_usdcMint env then Some (Rejected ''asset_network_mismatch'' 400)
      else None)"

definition claim_amount :: "payload \<Rightarrow> int option" where
  "claim_amount d = (case get_prop d ''amountBaseUnits'' of None \<Rightarrow> None | Some v \<Rightarrow> bigint_of_string (string_of_json v))"

definition claim_outcome :: "payload \<Rightarrow> outcome option" where
  "claim_outcome d = (case get_prop d ''verdict'' of Some (JStr v) \<Rightarrow> verdictToOutcome v | _ \<Rightarrow> None)"

text \<open>The claim is verified when the merchant and the payment signature are both present.\<close>

definition claim_of :: "payload \<Rightarrow> int \<Rightarrow> outcome \<Rightarrow> claim" where
  "claim_of d amount oc =
     (let g = get_prop d; verified = (present (g ''payee'') \<and> present (g ''paymentSignature'')) in
      \<lparr>cl_agent = str_of (g ''agent''), cl_payee = (if verified then Some (str_of (g ''payee'')) else None),
       cl_signature = str_of (g ''paymentSignature''), cl_resource = str_of (g ''resource''), cl_amount = amount,
       cl_asset = str_of (g ''asset''), cl_outcome = oc,
       cl_latencyMs = (case g ''latencyMs'' of Some (JNum n) \<Rightarrow> max 0 n | _ \<Rightarrow> 0)\<rparr>)"

definition validate_claim :: "coverage_env \<Rightarrow> string \<Rightarrow> payload \<Rightarrow> coverage_response + claim" where
  "validate_claim env verifiedAgent d =
     (case claim_error env verifiedAgent d of Some r \<Rightarrow> Inl r
      | None \<Rightarrow> (case claim_amount d of None \<Rightarrow> Inl (Rejected ''bad_amount'' 400)
          | Some amount \<Rightarrow> if amount \<le> 0 then Inl (Rejected ''bad_amount'' 400)
              else (case claim_outcome d of None \<Rightarrow> Inl (Rejected ''bad_verdict'' 400)
                  | Some oc \<Rightarrow> Inr (claim_of d amount oc))))"

text \<open>The coverage id with the observed payment, or the reason the payment is refused.\<close>

definition identify_claim :: "coverage_env \<Rightarrow> claim \<Rightarrow> string + string \<times> int option" where
  "identify_claim env cl =
     (case cl_payee cl of
        None \<Rightarrow> Inr (randomCoverageId (ce_random env), None)
      | Some payee \<Rightarrow>
          (case verifyPayment (ce_tx env (cl_signature cl)) payee (cl_asset cl) (cl_amount cl) of
             Inl reason \<Rightarrow> Inl reason
           | Inr observed \<Rightarrow> Inr (deriveCoverageId (ce_sha256 env) payee (cl_resource cl) (cl_signature cl), Some observed)))"

text \<open>The gate's answer: the reason of a decline. A failed stats read lets the claim through.\<close>

definition attestation_gate :: "coverage_env \<Rightarrow> pool_config \<Rightarrow> string \<Rightarrow> int \<Rightarrow> string option" where
  "attestation_gate env pool agent refund =
     (if ce_gate env = GateOff \<or> refund \<le> 0 then None
      else case ce_stats env agent of Inl e \<Rightarrow> None
        | Inr st \<Rightarrow>
            (case evaluateClientAttestation refund st (DEFAULT_THRESHOLDS\<lparr>at_refundCap := perAgentRefundCapFor pool\<rparr>) of
               Allow \<Rightarrow> None
             | Throttle reason \<Rightarrow> if ce_gate env = GateEnforce then Some reason else None))"

definition claim_math :: "pool_config \<Rightarrow> claim \<Rightarrow> economics" where
  "claim_math pool cl = computeCoverage (cl_outcome cl)
     \<lparr>flatPremiumLamports = pc_flatPremium pool, imputedCostLamports = pc_imputedCost pool\<rparr> (cl_amount cl)"

definition cover_claim :: "coverage_env \<Rightarrow> claim \<Rightarrow> pay_event option \<times> coverage_response" where
  "cover_claim env cl =
     (case identify_claim env cl of
        Inl reason \<Rightarrow> (None, Rejected (''payment_'' @ reason) 422)
      | Inr (coverageId, observed) \<Rightarrow>
          let verified = (cl_payee cl \<noteq> None);
              slug = pc_slug (ce_defaults env);
              pool = readPoolConfig (ce_pool env) (ce_defaults env);
              math = claim_math pool cl;
              premium = ec_premiumLamports math; refund = ec_refundLamports math
          in if pc_paused pool then (None, Uncovered coverageId 0 ''pool_paused'' verified)
             else if \<not> ec_covered math then (None, Uncovered coverageId 0 ''not_covered_outcome'' verified)
             else (case ce_check env (cl_agent cl) premium of
                 Inl e \<Rightarrow> (None, Uncovered coverageId premium ''allowance_check_unavailable'' verified)
               | Inr (Ineligible reason b a) \<Rightarrow> (None, Uncovered coverageId premium
                     (if reason = Insufficient_allowance \<or> reason = No_ata then ''no_allowance'' else ''insufficient_balance'') verified)
               | Inr (Eligible b a) \<Rightarrow>
                   (case attestation_gate env pool (cl_agent cl) refund of
                      Some reason \<Rightarrow> (None, Uncovered coverageId 0 (''attestation_throttled_'' @ reason) verified)
                    | None \<Rightarrow>
                        (Some \<lparr>pe_callId = coverageId, pe_agentPubkey = cl_agent cl, pe_endpointSlug = slug,
                               pe_premiumLamports = string_of_int premium, pe_refundLamports = string_of_int refund,
                               pe_latencyMs = cl_latencyMs cl, pe_outcome = ec_outcome math, pe_ts = toISOString (ce_now env),
                               pe_verified = verified, pe_payee = cl_payee cl, pe_resource = cl_resource cl\<rparr>,
                         Pending coverageId premium refund (ec_outcome math) observed verified))))"

text \<open>
  The handler: the event it publishes and its answer. \<open>verifiedAgent\<close> is what the middleware stored,
  \<open>body\<close> the parsed body (\<open>None\<close>: not JSON). Reading a property of \<open>null\<close> throws.
\<close>

definition registerCoverageRoute :: "coverage_env \<Rightarrow> string option \<Rightarrow> json option \<Rightarrow> pay_event option \<times> coverage_response" where
  "registerCoverageRoute env verifiedAgent body =
     (case verifiedAgent of None \<Rightarrow> (None, Rejected ''pact_auth_missing'' 401)
      | Some agent \<Rightarrow> if agent = [] then (None, Rejected ''pact_auth_missing'' 401)
      else (case body of
          None \<Rightarrow> (None, Rejected ''bad_json'' 400)
        | Some JNull \<Rightarrow> (None, CoverageThrows)
        | Some v \<Rightarrow> (case validate_claim env agent (case v of JObj d \<Rightarrow> d | _ \<Rightarrow> []) of
            Inl r \<Rightarrow> (None, r) | Inr cl \<Rightarrow> cover_claim env cl)))"

section \<open>Reading coverage\<close>

datatype coverage_status = InvalidId | ReadFailed | NotYet string | Settled string call_record_view
  and call_record_view = CallView (cv_agent: string) (cv_premium: int) (cv_refund: int) (cv_signature: string)

definition getCoverageRoute :: "(string \<Rightarrow> string + call_record_view list) \<Rightarrow> string \<Rightarrow> coverage_status" where
  "getCoverageRoute rows i =
     (if \<not> CALL_ID_RE i then InvalidId
      else case rows i of Inl e \<Rightarrow> ReadFailed | Inr [] \<Rightarrow> NotYet i | Inr (r # _) \<Rightarrow> Settled i r)"

section \<open>Lemmas\<close>

lemma verifyPayment_received:
  "verifyPayment answer payee asset amount = Inr observed \<Longrightarrow>
     \<exists>tx p. answer = Inr (Some tx) \<and> \<not> tx_err tx \<and> p \<in> set (tx_post tx) \<and> tb_mint p = asset \<and> tb_owner p = Some payee \<and>
       amount \<le> observed \<and>
       observed = tb_amount p - (case map_of (rev (List.map (\<lambda>p. (tb_accountIndex p, tb_amount p)) (tx_pre tx))) (tb_accountIndex p) of
         None \<Rightarrow> 0 | Some a \<Rightarrow> a)"
proof -
  have find: "find_transfer before asset payee amount ps = Some d \<Longrightarrow>
      \<exists>p \<in> set ps. tb_mint p = asset \<and> tb_owner p = Some payee \<and> amount \<le> d \<and>
        d = tb_amount p - (case before (tb_accountIndex p) of None \<Rightarrow> 0 | Some a \<Rightarrow> a)" for before ps d
    by (induction ps) (auto simp: Let_def split: if_split_asm)
  assume "verifyPayment answer payee asset amount = Inr observed"
  then obtain tx where t: "answer = Inr (Some tx)" "\<not> tx_err tx"
    "find_transfer (map_of (rev (List.map (\<lambda>p. (tb_accountIndex p, tb_amount p)) (tx_pre tx)))) asset payee amount (tx_post tx) = Some observed"
    by (auto simp: verifyPayment_def split: sum.split_asm option.split_asm if_split_asm)
  from find [OF t(3)] t(1,2) show ?thesis by blast
qed

lemma validate_claim_facts:
  assumes "validate_claim env agent d = Inr cl"
  shows "cl_agent cl = agent \<and> 0 < cl_amount cl \<and> cl_asset cl = ce_usdcMint env"
proof -
  have e: "claim_error env agent d = None"
    using assms by (cases "claim_error env agent d") (simp_all add: validate_claim_def)
  then have "str_of (get_prop d ''agent'') = agent" "str_of (get_prop d ''asset'') = ce_usdcMint env"
    by (simp_all add: claim_error_def Let_def split: if_split_asm)
  moreover have "\<exists>amount oc. 0 < amount \<and> cl = claim_of d amount oc"
    using assms e by (auto simp: validate_claim_def not_le split: option.split_asm if_split_asm)
  ultimately show ?thesis by (auto simp: claim_of_def Let_def)
qed

lemma cover_claim_event:
  assumes "cover_claim env cl = (Some e, r)" and pool: "pool = readPoolConfig (ce_pool env) (ce_defaults env)"
  shows "\<exists>observed b a. identify_claim env cl = Inr (pe_callId e, observed) \<and> \<not> pc_paused pool \<and> ec_covered (claim_math pool cl) \<and>
    ce_check env (cl_agent cl) (ec_premiumLamports (claim_math pool cl)) = Inr (Eligible b a) \<and>
    attestation_gate env pool (cl_agent cl) (ec_refundLamports (claim_math pool cl)) = None \<and>
    pe_agentPubkey e = cl_agent cl \<and> pe_verified e = (cl_payee cl \<noteq> None) \<and> pe_payee e = cl_payee cl \<and> pe_resource e = cl_resource cl \<and>
    pe_outcome e = cl_outcome cl \<and> pe_premiumLamports e = string_of_int (ec_premiumLamports (claim_math pool cl)) \<and>
    pe_refundLamports e = string_of_int (ec_refundLamports (claim_math pool cl))"
proof -
  have oc: "ec_outcome (claim_math pool cl) = cl_outcome cl" by (simp add: claim_math_def computeCoverage_def computeEconomics_def Let_def)
  obtain coverageId observed where i: "identify_claim env cl = Inr (coverageId, observed)"
    using assms(1) by (cases "identify_claim env cl") (auto simp: cover_claim_def)
  have p: "\<not> pc_paused pool" "ec_covered (claim_math pool cl)"
    using assms(1) i by (auto simp: cover_claim_def Let_def pool [symmetric] split: if_split_asm)
  then obtain b a where c: "ce_check env (cl_agent cl) (ec_premiumLamports (claim_math pool cl)) = Inr (Eligible b a)"
    using assms(1) i by (auto simp: cover_claim_def Let_def pool [symmetric] split: sum.split_asm balance_result.split_asm)
  have g: "attestation_gate env pool (cl_agent cl) (ec_refundLamports (claim_math pool cl)) = None"
    using assms(1) i p c by (auto simp: cover_claim_def Let_def pool [symmetric] split: option.split_asm)
  show ?thesis using assms(1) i p c g by (auto simp: cover_claim_def Let_def pool [symmetric] oc)
qed

lemma register_event:
  assumes "registerCoverageRoute env verifiedAgent body = (Some e, r)"
  obtains agent cl where "verifiedAgent = Some agent" "cl_agent cl = agent" "0 < cl_amount cl" "cover_claim env cl = (Some e, r)"
    "cl_asset cl = ce_usdcMint env"
proof -
  obtain agent v d where v: "verifiedAgent = Some agent" "body = Some v" "d = (case v of JObj d \<Rightarrow> d | _ \<Rightarrow> [])"
    and c: "(case validate_claim env agent d of Inl r \<Rightarrow> (None, r) | Inr cl \<Rightarrow> cover_claim env cl) = (Some e, r)"
    using assms by (cases verifiedAgent; cases body) (auto simp: registerCoverageRoute_def split: if_split_asm json.split_asm)
  then obtain cl where cl: "validate_claim env agent d = Inr cl" "cover_claim env cl = (Some e, r)" by (auto split: sum.split_asm)
  from validate_claim_facts [OF cl(1)] cl(2) v(1) that show ?thesis by blast
qed

text \<open>What a claim that passes the checks says in the body.\<close>

lemma claim_fields:
  assumes "claim_error env agent d = None"
  shows "get_prop d ''agent'' = Some (JStr agent)" "get_prop d ''asset'' = Some (JStr (ce_usdcMint env))"
    "get_prop d ''resource'' = Some (JStr (str_of (get_prop d ''resource'')))"
    "present (get_prop d ''payee'') \<Longrightarrow> get_prop d ''payee'' = Some (JStr (str_of (get_prop d ''payee'')))"
    "present (get_prop d ''paymentSignature'') \<Longrightarrow>
       get_prop d ''paymentSignature'' = Some (JStr (str_of (get_prop d ''paymentSignature'')))"
  using assms
  by (auto simp: claim_error_def Let_def string_where_def str_of_def split: if_split_asm option.split_asm json.split_asm)

lemma register_body:
  assumes "registerCoverageRoute env verifiedAgent body = (Some e, r)"
  obtains agent d amount oc where "verifiedAgent = Some agent" "body = Some (JObj d)" "claim_error env agent d = None"
    "claim_amount d = Some amount" "0 < amount" "claim_outcome d = Some oc" "cover_claim env (claim_of d amount oc) = (Some e, r)"
proof -
  obtain agent v d where v: "verifiedAgent = Some agent" "body = Some v" "d = (case v of JObj d \<Rightarrow> d | _ \<Rightarrow> [])"
    and c: "(case validate_claim env agent d of Inl r \<Rightarrow> (None, r) | Inr cl \<Rightarrow> cover_claim env cl) = (Some e, r)"
    using assms by (cases verifiedAgent; cases body) (auto simp: registerCoverageRoute_def split: if_split_asm json.split_asm)
  then obtain cl where cl: "validate_claim env agent d = Inr cl" "cover_claim env cl = (Some e, r)" by (auto split: sum.split_asm)
  from cl(1) obtain amount oc where k: "claim_error env agent d = None" "claim_amount d = Some amount" "0 < amount"
    "claim_outcome d = Some oc" "cl = claim_of d amount oc"
    by (auto simp: validate_claim_def split: option.split_asm if_split_asm)
  have "get_prop d ''agent'' = Some (JStr agent)" by (rule claim_fields [OF k(1)])
  then have "d \<noteq> []" by (auto simp: get_prop_def)
  then have "v = JObj d" using v(3) by (cases v) auto
  with v(1,2) k cl(2) that show ?thesis by blast
qed

lemma claim_outcome_verdict:
  "claim_outcome d = Some oc \<longleftrightarrow> (\<exists>verdict. get_prop d ''verdict'' = Some (JStr verdict) \<and> verdictToOutcome verdict = Some oc)"
  by (auto simp: claim_outcome_def split: option.splits json.splits)

lemma claim_math_terms:
  assumes "ec_covered (claim_math pool cl)" "0 < cl_amount cl"
  shows "cl_outcome cl \<noteq> ClientError" "ec_premiumLamports (claim_math pool cl) = pc_flatPremium pool"
    "ec_refundLamports (claim_math pool cl) =
       (if isCoveredBreach (cl_outcome cl) then min (cl_amount cl) (pc_imputedCost pool) + pc_flatPremium pool else 0)"
  using assms by (auto simp: claim_math_def computeCoverage_def computeEconomics_def Let_def min_def split: if_split_asm)

lemma gate_bound:
  assumes "attestation_gate env pool agent refund = None" "ce_gate env = GateEnforce" "ce_stats env agent = Inr st" "0 < refund"
  shows "as_agentRefund st + refund \<le> perAgentRefundCapFor pool"
  using assms by (auto simp: attestation_gate_def evaluateClientAttestation_def split: if_split_asm)

lemma hex_char_not_sep: "n < 16 \<Longrightarrow> hex_char n \<noteq> CHR ''-'' \<and> hex_char n \<noteq> CHR ''+'' \<and> \<not> is_space (hex_char n)"
proof -
  have "list_all (\<lambda>n. hex_char n \<noteq> CHR ''-'' \<and> hex_char n \<noteq> CHR ''+'' \<and> \<not> is_space (hex_char n)) [0..<16]" by code_simp
  then show "n < 16 \<Longrightarrow> ?thesis" by (simp add: list_all_iff)
qed

lemma byte_nibbles: "unat (b :: 8 word) div 16 < 16" "unat (b :: 8 word) mod 16 < 16"
proof -
  have "unat b < 2 ^ LENGTH(8)" by (rule unsigned_less)
  then show "unat b div 16 < 16" "unat b mod 16 < 16" by (simp_all add: less_mult_imp_div_less)
qed

lemmas nibble_chars = hex_char_not_sep [OF byte_nibbles(1)] hex_char_not_sep [OF byte_nibbles(2)]

lemma hex_of_bytes_Cons: "hex_of_bytes (b # bs) = hex_char (unat b div 16) # hex_char (unat b mod 16) # hex_of_bytes bs"
  and hex_of_bytes_Nil: "hex_of_bytes [] = []"
  by (simp_all add: hex_of_bytes_def)

lemma hex_pairs_hex_of_bytes: "hex_pairs (hex_of_bytes bs) = bs"
  by (induction bs) (simp_all add: hex_of_bytes_Cons hex_of_bytes_Nil parse_hex_pair_def nibble_chars byte_nibbles)

lemma hex_of_bytes_plain: "filter (\<lambda>c. c \<noteq> CHR ''-'') (hex_of_bytes bs) = hex_of_bytes bs \<and> length (hex_of_bytes bs) = 2 * length bs"
  by (induction bs) (simp_all add: hex_of_bytes_Cons hex_of_bytes_Nil nibble_chars)

lemma parseCallId_uuid_string:
  assumes "length bs = 16"
  shows "parseCallId (uuid_string bs) = Some bs"
proof -
  let ?h = "hex_of_bytes bs"
  have eq: "filter (\<lambda>c. c \<noteq> CHR ''-'') (uuid_string bs) = filter (\<lambda>c. c \<noteq> CHR ''-'')
      (take 8 ?h @ take 4 (drop 8 ?h) @ take 4 (drop 12 ?h) @ take 4 (drop 16 ?h) @ drop 20 ?h)"
    by (simp add: uuid_string_def Let_def)
  have "take 4 (drop 16 ?h) @ drop 20 ?h = drop 16 ?h" using append_take_drop_id [of 4 "drop 16 ?h"] by simp
  moreover have "take 4 (drop 12 ?h) @ drop 16 ?h = drop 12 ?h" using append_take_drop_id [of 4 "drop 12 ?h"] by simp
  moreover have "take 4 (drop 8 ?h) @ drop 12 ?h = drop 8 ?h" using append_take_drop_id [of 4 "drop 8 ?h"] by simp
  ultimately have "filter (\<lambda>c. c \<noteq> CHR ''-'') (uuid_string bs) = ?h" using eq hex_of_bytes_plain [of bs] by (simp del: filter_append)
  then show ?thesis using hex_of_bytes_plain [of bs] assms by (simp add: parseCallId_def hex_pairs_hex_of_bytes)
qed

lemma hex_of_bytes_chars: "list_all is_hex (hex_of_bytes bs) \<and> CHR ''-'' \<notin> set (hex_of_bytes bs)"
  by (induction bs)
    (simp_all add: hex_of_bytes_Cons hex_of_bytes_Nil is_hex_def byte_nibbles nibble_chars nibble_chars [THEN conjunct1, THEN not_sym])

lemma hex_of_bytes_nth: "i < length bs \<Longrightarrow> hex_of_bytes bs ! (2 * i) = hex_char (unat (bs ! i) div 16)"
  by (induction bs arbitrary: i) (auto simp: hex_of_bytes_Cons less_Suc_eq_0_disj)

lemma uuid_nibbles:
  "unat ((b AND 0x0F) OR 0x40 :: 8 word) div 16 = 4"
  "unat ((b AND 0x3F) OR 0x80 :: 8 word) div 16 \<in> {8, 9, 10, 11}"
proof -
  have "list_all (\<lambda>n. unat ((word_of_nat n AND 0x0F) OR 0x40 :: 8 word) div 16 = 4 \<and>
      unat ((word_of_nat n AND 0x3F) OR 0x80 :: 8 word) div 16 \<in> {8, 9, 10, 11}) [0..<256]" by code_simp
  moreover have "unat b < 2 ^ LENGTH(8)" by (rule unsigned_less)
  then have "unat b \<in> set [0..<256]" by simp
  ultimately have "unat ((word_of_nat (unat b) AND 0x0F) OR 0x40 :: 8 word) div 16 = 4 \<and>
      unat ((word_of_nat (unat b) AND 0x3F) OR 0x80 :: 8 word) div 16 \<in> {8, 9, 10, 11}"
    unfolding list_all_iff by (rule bspec)
  then show "unat ((b AND 0x0F) OR 0x40 :: 8 word) div 16 = 4" "unat ((b AND 0x3F) OR 0x80 :: 8 word) div 16 \<in> {8, 9, 10, 11}"
    by simp_all
qed

lemma hex_char_4: "hex_char 4 = CHR ''4''"
  and hex_char_variant: "n \<in> {8, 9, 10, 11} \<Longrightarrow> hex_char n \<in> set ''89abAB''"
proof -
  show "hex_char 4 = CHR ''4''" by code_simp
  have "list_all (\<lambda>n. hex_char n \<in> set ''89abAB'') [8, 9, 10, 11]" by code_simp
  then show "n \<in> {8, 9, 10, 11} \<Longrightarrow> hex_char n \<in> set ''89abAB''" by auto
qed

lemma uuid_string_CALL_ID_RE:
  assumes "length bs = 16" "unat (bs ! 6) div 16 = 4" "unat (bs ! 8) div 16 \<in> {8, 9, 10, 11}"
  shows "CALL_ID_RE (uuid_string bs)"
proof -
  let ?h = "hex_of_bytes bs"
  have n: "length ?h = 32" using hex_of_bytes_plain [of bs] assms(1) by simp
  have hexes: "list_all is_hex (take k (drop i ?h)) \<and> CHR ''-'' \<notin> set (take k (drop i ?h))" for k i
    using hex_of_bytes_chars [of bs] by (auto simp: list_all_iff dest: in_set_takeD in_set_dropD)
  have hexes0: "list_all is_hex (take k ?h) \<and> CHR ''-'' \<notin> set (take k ?h)" "list_all is_hex (drop k ?h) \<and> CHR ''-'' \<notin> set (drop k ?h)" for k
    using hex_of_bytes_chars [of bs] by (auto simp: list_all_iff dest: in_set_takeD in_set_dropD)
  have split: "split_on (CHR ''-'') (uuid_string bs) =
      [take 8 ?h, take 4 (drop 8 ?h), take 4 (drop 12 ?h), take 4 (drop 16 ?h), drop 20 ?h]"
    by (simp add: uuid_string_def Let_def split_on_append split_on_no_sep hexes hexes0)
  have v: "take (Suc 0) (drop 12 ?h) = ''4''"
    using hex_of_bytes_nth [of 6 bs] assms(1,2) n by (simp add: take_Suc hd_drop_conv_nth hex_char_4)
  have d: "hd (drop 16 ?h) \<in> set ''89abAB''"
    using hex_of_bytes_nth [of 8 bs] assms(1) hex_char_variant [OF assms(3)] n by (simp add: hd_drop_conv_nth)
  show ?thesis unfolding CALL_ID_RE_def split
    using v d n by (simp add: hex_group_def hexes hexes0 hd_take)
qed

lemma uuid_string_readable:
  assumes "16 \<le> length b0"
  shows "CALL_ID_RE (uuid_string (uuid_bytes b0)) \<and> length (uuid_string (uuid_bytes b0)) = 36 \<and>
    parseCallId (uuid_string (uuid_bytes b0)) = Some (uuid_bytes b0)"
proof -
  have n: "length (uuid_bytes b0) = 16" using assms by (simp add: uuid_bytes_def Let_def)
  have "uuid_bytes b0 ! 6 = (b0 ! 6 AND 0x0F) OR 0x40" "uuid_bytes b0 ! 8 = (b0 ! 8 AND 0x3F) OR 0x80"
    using assms by (simp_all add: uuid_bytes_def Let_def)
  with uuid_nibbles [of "b0 ! 6"] uuid_nibbles [of "b0 ! 8"]
  have "CALL_ID_RE (uuid_string (uuid_bytes b0))" using uuid_string_CALL_ID_RE [OF n] by simp
  moreover have "length (uuid_string (uuid_bytes b0)) = 36"
    using hex_of_bytes_plain [of "uuid_bytes b0"] n by (simp add: uuid_string_def Let_def)
  ultimately show ?thesis using parseCallId_uuid_string [OF n] by simp
qed

text \<open>A verified claim for a server error on a payment of 500 base units.\<close>

definition demo_agent :: string where "demo_agent = replicate 32 (CHR ''A'')"
definition demo_payee :: string where "demo_payee = replicate 32 (CHR ''B'')"

definition demo_pool :: pool_config where
  "demo_pool = \<lparr>pc_slug = ''pay-default'', pc_flatPremium = 1000, pc_imputedCost = 1000000, pc_slaLatencyMs = 10000,
     pc_exposureCapPerHour = 5000000, pc_paused = False\<rparr>"

definition demo_env :: coverage_env where
  "demo_env = \<lparr>ce_bs58 = (\<lambda>_. Some (replicate 32 0)), ce_sha256 = (\<lambda>_. replicate 32 0xFF), ce_random = replicate 16 0,
     ce_usdcMint = USDC_MINTS ! 0,
     ce_tx = (\<lambda>_. Inr (Some \<lparr>tx_err = False, tx_pre = [],
       tx_post = [\<lparr>tb_accountIndex = 2, tb_mint = USDC_MINTS ! 0, tb_owner = Some demo_payee, tb_amount = 500\<rparr>]\<rparr>)),
     ce_pool = Inr [], ce_defaults = demo_pool, ce_check = (\<lambda>_ _. Inr (Eligible 5000000 5000000)), ce_gate = GateOff,
     ce_stats = (\<lambda>_. Inl ''down''), ce_now = 0\<rparr>"

definition demo_body :: json where
  "demo_body = JObj [(''agent'', JStr demo_agent), (''payee'', JStr demo_payee), (''paymentSignature'', JStr (replicate 64 (CHR ''C''))),
     (''resource'', JStr ''https://x.test/a''), (''scheme'', JStr ''x402''), (''asset'', JStr (USDC_MINTS ! 0)),
     (''amountBaseUnits'', JStr ''500''), (''verdict'', JStr ''server_error''), (''latencyMs'', JNum 12)]"

definition demo_claim :: claim where
  "demo_claim = \<lparr>cl_agent = demo_agent, cl_payee = Some demo_payee, cl_signature = replicate 64 (CHR ''C''), cl_resource = ''https://x.test/a'',
     cl_amount = 500, cl_asset = USDC_MINTS ! 0, cl_outcome = ServerError, cl_latencyMs = 12\<rparr>"

lemma demo_base58: "is_base58 32 44 demo_agent" "is_base58 32 44 demo_payee" "is_base58 64 90 (replicate 64 (CHR ''C''))"
  by (simp_all add: is_base58_def demo_agent_def demo_payee_def list_all_iff)

lemma demo_validates: "validate_claim demo_env demo_agent (case demo_body of JObj d \<Rightarrow> d | _ \<Rightarrow> []) = Inr demo_claim"
proof -
  let ?d = "case demo_body of JObj d \<Rightarrow> d | _ \<Rightarrow> []"
  have ne: "demo_payee \<noteq> []" by (simp add: demo_payee_def)
  have e: "claim_error demo_env demo_agent ?d = None"
    by (simp add: claim_error_def demo_body_def get_prop_def Let_def string_where_def str_of_def present_def demo_base58 demo_env_def USDC_MINTS_def)
  have "bigint_of_string ''500'' = Some 500" by code_simp
  then have a: "claim_amount ?d = Some 500" by (simp add: claim_amount_def demo_body_def get_prop_def)
  have o: "claim_outcome ?d = Some ServerError" by (simp add: claim_outcome_def demo_body_def get_prop_def verdictToOutcome_def)
  have "claim_of ?d 500 ServerError = demo_claim"
    by (simp add: claim_of_def demo_claim_def demo_body_def get_prop_def Let_def str_of_def present_def ne)
  with e a o show ?thesis by (simp add: validate_claim_def)
qed

lemma demo_identified:
  "identify_claim demo_env demo_claim = Inr (uuid_string (uuid_bytes (replicate 32 0xFF)), Some 500)"
  by (simp add: identify_claim_def demo_claim_def demo_env_def verifyPayment_def deriveCoverageId_def)

lemma demo_registers:
  "\<exists>r. registerCoverageRoute demo_env (Some demo_agent) (Some demo_body) =
     (Some \<lparr>pe_callId = uuid_string (uuid_bytes (replicate 32 0xFF)), pe_agentPubkey = demo_agent, pe_endpointSlug = ''pay-default'',
        pe_premiumLamports = string_of_int 1000, pe_refundLamports = string_of_int 1500, pe_latencyMs = 12, pe_outcome = ServerError,
        pe_ts = toISOString 0, pe_verified = True, pe_payee = Some demo_payee, pe_resource = ''https://x.test/a''\<rparr>, r)"
proof -
  have p: "readPoolConfig (ce_pool demo_env) (ce_defaults demo_env) = demo_pool"
    by (simp add: readPoolConfig_def demo_env_def demo_pool_def)
  have m: "claim_math demo_pool demo_claim = \<lparr>ec_outcome = ServerError, ec_premiumLamports = 1000, ec_refundLamports = 1500, ec_covered = True\<rparr>"
    by (simp add: claim_math_def computeCoverage_def computeEconomics_def Let_def demo_claim_def demo_pool_def isCoveredBreach_def)
  have g: "attestation_gate demo_env demo_pool agent refund = None" for agent refund
    by (simp add: attestation_gate_def demo_env_def)
  have f: "\<not> pc_paused demo_pool" "ce_check demo_env = (\<lambda>_ _. Inr (Eligible 5000000 5000000))" "pc_slug (ce_defaults demo_env) = ''pay-default''"
    "ce_now demo_env = 0" "cl_agent demo_claim = demo_agent" "cl_payee demo_claim = Some demo_payee" "cl_resource demo_claim = ''https://x.test/a''"
    "cl_latencyMs demo_claim = 12" by (simp_all add: demo_pool_def demo_env_def demo_claim_def)
  have "\<exists>r. cover_claim demo_env demo_claim = (Some \<lparr>pe_callId = uuid_string (uuid_bytes (replicate 32 0xFF)), pe_agentPubkey = demo_agent, pe_endpointSlug = ''pay-default'',
        pe_premiumLamports = string_of_int 1000, pe_refundLamports = string_of_int 1500, pe_latencyMs = 12, pe_outcome = ServerError,
        pe_ts = toISOString 0, pe_verified = True, pe_payee = Some demo_payee, pe_resource = ''https://x.test/a''\<rparr>, r)"
    using g f by (simp add: cover_claim_def Let_def p m demo_identified)
  moreover have "demo_agent \<noteq> []" "demo_body \<noteq> JNull" by (simp_all add: demo_agent_def demo_body_def)
  ultimately show ?thesis using demo_validates
    by (simp add: registerCoverageRoute_def demo_body_def)
qed

text \<open>A claim that is identified by a payment was paid.\<close>

lemma identified_payment:
  assumes "identify_claim env cl = Inr (coverageId, observed)" and "cl_payee cl = Some payee"
  shows "coverageId = deriveCoverageId (ce_sha256 env) payee (cl_resource cl) (cl_signature cl) \<and>
    (\<exists>tx p. ce_tx env (cl_signature cl) = Inr (Some tx) \<and> \<not> tx_err tx \<and>
      p \<in> set (tx_post tx) \<and> tb_mint p = cl_asset cl \<and> tb_owner p = Some payee \<and>
      cl_amount cl \<le> tb_amount p - (case map_of (rev (List.map (\<lambda>p. (tb_accountIndex p, tb_amount p)) (tx_pre tx))) (tb_accountIndex p) of
        None \<Rightarrow> 0 | Some x \<Rightarrow> x))"
proof -
  obtain obs where v: "verifyPayment (ce_tx env (cl_signature cl)) payee (cl_asset cl) (cl_amount cl) = Inr obs"
    and i: "coverageId = deriveCoverageId (ce_sha256 env) payee (cl_resource cl) (cl_signature cl)"
    using assms by (auto simp: identify_claim_def split: sum.split_asm)
  from verifyPayment_received [OF v] i show ?thesis by blast
qed

section \<open>Properties\<close>

text \<open>
  C31: what a published claim has behind it. The event is for the agent the middleware verified and the
  body names; its outcome is the one of the body's verdict and is covered, and its pool is not paused;
  its premium is the pool's flat premium, which the balance check found the agent able to pay; its
  refund is the body's amount up to the pool's per-call ceiling plus the premium for a breach and
  nothing otherwise. It is marked verified exactly when the body has a payee and a payment
  signature, and then the transaction of that signature, which has no error, moved at least the
  body's amount of USDC to that payee, and the call id is derived from payee, resource and signature.
\<close>

theorem published_claim_is_funded:
  assumes "registerCoverageRoute env verifiedAgent body = (Some e, r)"
    and "pool = readPoolConfig (ce_pool env) (ce_defaults env)"
  shows "verifiedAgent = Some (pe_agentPubkey e) \<and> \<not> pc_paused pool \<and> pe_outcome e \<noteq> ClientError \<and>
    pe_premiumLamports e = string_of_int (pc_flatPremium pool) \<and>
    (\<exists>b a. ce_check env (pe_agentPubkey e) (pc_flatPremium pool) = Inr (Eligible b a)) \<and>
    (\<exists>d amount verdict. body = Some (JObj d) \<and> claim_amount d = Some amount \<and> 0 < amount \<and>
      get_prop d ''agent'' = Some (JStr (pe_agentPubkey e)) \<and> get_prop d ''resource'' = Some (JStr (pe_resource e)) \<and>
      get_prop d ''verdict'' = Some (JStr verdict) \<and> verdictToOutcome verdict = Some (pe_outcome e) \<and>
      pe_refundLamports e = string_of_int
        (if isCoveredBreach (pe_outcome e) then min amount (pc_imputedCost pool) + pc_flatPremium pool else 0) \<and>
      pe_verified e = (present (get_prop d ''payee'') \<and> present (get_prop d ''paymentSignature'')) \<and>
      (pe_verified e \<longrightarrow> (\<exists>payee sig tx p.
         get_prop d ''payee'' = Some (JStr payee) \<and> get_prop d ''paymentSignature'' = Some (JStr sig) \<and> pe_payee e = Some payee \<and>
         pe_callId e = deriveCoverageId (ce_sha256 env) payee (pe_resource e) sig \<and>
         ce_tx env sig = Inr (Some tx) \<and> \<not> tx_err tx \<and>
         p \<in> set (tx_post tx) \<and> tb_mint p = ce_usdcMint env \<and> tb_owner p = Some payee \<and>
         amount \<le> tb_amount p - (case map_of (rev (List.map (\<lambda>p. (tb_accountIndex p, tb_amount p)) (tx_pre tx))) (tb_accountIndex p) of
           None \<Rightarrow> 0 | Some x \<Rightarrow> x))))"
proof -
  obtain agent d amount oc where reg: "verifiedAgent = Some agent" "body = Some (JObj d)" "claim_error env agent d = None"
    "claim_amount d = Some amount" "0 < amount" "claim_outcome d = Some oc" "cover_claim env (claim_of d amount oc) = (Some e, r)"
    by (rule register_body [OF assms(1)])
  let ?cl = "claim_of d amount oc"
  let ?verified = "present (get_prop d ''payee'') \<and> present (get_prop d ''paymentSignature'')"
  note body = claim_fields [OF reg(3)]
  have cl: "cl_agent ?cl = agent" "cl_amount ?cl = amount" "cl_outcome ?cl = oc" "cl_asset ?cl = ce_usdcMint env"
    "get_prop d ''resource'' = Some (JStr (cl_resource ?cl))" "cl_signature ?cl = str_of (get_prop d ''paymentSignature'')"
    "cl_payee ?cl = (if ?verified then Some (str_of (get_prop d ''payee'')) else None)"
    using body(1-3) by (simp_all add: claim_of_def Let_def str_of_def)
  from cover_claim_event [OF reg(7) assms(2)] obtain observed b a where ev:
    "identify_claim env ?cl = Inr (pe_callId e, observed)" "\<not> pc_paused pool" "ec_covered (claim_math pool ?cl)"
    "ce_check env (cl_agent ?cl) (ec_premiumLamports (claim_math pool ?cl)) = Inr (Eligible b a)"
    "pe_agentPubkey e = cl_agent ?cl" "pe_verified e = (cl_payee ?cl \<noteq> None)" "pe_payee e = cl_payee ?cl" "pe_resource e = cl_resource ?cl"
    "pe_outcome e = cl_outcome ?cl" "pe_premiumLamports e = string_of_int (ec_premiumLamports (claim_math pool ?cl))"
    "pe_refundLamports e = string_of_int (ec_refundLamports (claim_math pool ?cl))" by blast
  have "0 < cl_amount ?cl" by (simp add: cl(2) reg(5))
  note terms = claim_math_terms [OF ev(3) this]
  have verified: "pe_verified e = ?verified" using ev(6) cl(7) by simp
  have paid: "\<exists>payee sig tx p. get_prop d ''payee'' = Some (JStr payee) \<and> get_prop d ''paymentSignature'' = Some (JStr sig) \<and> pe_payee e = Some payee \<and>
      pe_callId e = deriveCoverageId (ce_sha256 env) payee (pe_resource e) sig \<and> ce_tx env sig = Inr (Some tx) \<and> \<not> tx_err tx \<and>
      p \<in> set (tx_post tx) \<and> tb_mint p = ce_usdcMint env \<and> tb_owner p = Some payee \<and>
      amount \<le> tb_amount p - (case map_of (rev (List.map (\<lambda>p. (tb_accountIndex p, tb_amount p)) (tx_pre tx))) (tb_accountIndex p) of
        None \<Rightarrow> 0 | Some x \<Rightarrow> x)" if v: "pe_verified e"
  proof -
    have p: "cl_payee ?cl = Some (str_of (get_prop d ''payee''))"
      "get_prop d ''payee'' = Some (JStr (str_of (get_prop d ''payee'')))"
      "get_prop d ''paymentSignature'' = Some (JStr (cl_signature ?cl))"
      using v verified cl(6,7) body(4,5) by simp_all
    from identified_payment [OF ev(1) p(1), unfolded cl(2,4)] ev(7,8) p show ?thesis by simp
  qed
  have oc: "pe_outcome e = oc" using ev(9) cl(3) by simp
  have refund: "pe_refundLamports e = string_of_int
      (if isCoveredBreach (pe_outcome e) then min amount (pc_imputedCost pool) + pc_flatPremium pool else 0)"
    using ev(11) terms(3) oc cl(2,3) by simp
  have said: "get_prop d ''agent'' = Some (JStr (pe_agentPubkey e))" "get_prop d ''resource'' = Some (JStr (pe_resource e))"
    using body(1) cl(1,5) ev(5,8) by simp_all
  obtain verdict where verdict: "get_prop d ''verdict'' = Some (JStr verdict)" "verdictToOutcome verdict = Some (pe_outcome e)"
    using reg(6) oc by (auto simp: claim_outcome_verdict)
  have basics: "verifiedAgent = Some (pe_agentPubkey e)" "pe_outcome e \<noteq> ClientError"
    "pe_premiumLamports e = string_of_int (pc_flatPremium pool)"
    "\<exists>b a. ce_check env (pe_agentPubkey e) (pc_flatPremium pool) = Inr (Eligible b a)"
    using reg(1) ev(4,5,9,10) terms(1,2) cl(1,3) by simp_all
  show ?thesis using basics ev(2) reg(2,4,5) said verdict refund verified paid by blast
qed

theorem published_claim_is_funded_witness:
  "\<exists>e r b a. registerCoverageRoute demo_env (Some demo_agent) (Some demo_body) = (Some e, r) \<and> pe_verified e \<and>
     pe_premiumLamports e = string_of_int 1000 \<and> pe_refundLamports e = string_of_int 1500 \<and>
     ce_check demo_env (pe_agentPubkey e) (pc_flatPremium (readPoolConfig (ce_pool demo_env) (ce_defaults demo_env))) = Inr (Eligible b a)"
proof -
  from demo_registers obtain e r where e: "registerCoverageRoute demo_env (Some demo_agent) (Some demo_body) = (Some e, r)"
    "pe_verified e" "pe_premiumLamports e = string_of_int 1000" "pe_refundLamports e = string_of_int 1500" by force
  with published_claim_is_funded [OF e(1) refl] show ?thesis by blast
qed

definition refund_of :: "pay_event \<Rightarrow> int" where
  "refund_of e = (case bigint_of_string (pe_refundLamports e) of None \<Rightarrow> 0 | Some n \<Rightarrow> n)"

definition claim_step :: "string \<Rightarrow> pay_event list \<Rightarrow> coverage_env \<times> attestation_stats \<times> json option \<Rightarrow> pay_event list" where
  "claim_step agent published request =
     (case request of (env, st, body) \<Rightarrow>
        (case fst (registerCoverageRoute
                (env\<lparr>ce_gate := GateEnforce, ce_stats := (\<lambda>_. Inr (st\<lparr>as_agentRefund := sum_list (List.map refund_of published)\<rparr>))\<rparr>)
                (Some agent) body) of
           None \<Rightarrow> published | Some e \<Rightarrow> published @ [e]))"

lemma claim_step_bound:
  assumes "readPoolConfig (ce_pool env) (ce_defaults env) = pool" and "sum_list (List.map refund_of published) \<le> perAgentRefundCapFor pool"
  shows "sum_list (List.map refund_of (claim_step agent published (env, st, body))) \<le> perAgentRefundCapFor pool"
proof -
  let ?total = "sum_list (List.map refund_of published)"
  let ?env = "env\<lparr>ce_gate := GateEnforce, ce_stats := (\<lambda>_. Inr (st\<lparr>as_agentRefund := ?total\<rparr>))\<rparr>"
  show ?thesis
  proof (cases "fst (registerCoverageRoute ?env (Some agent) body)")
    case None
    then show ?thesis using assms(2) by (simp add: claim_step_def)
  next
    case (Some e)
    then obtain r where "registerCoverageRoute ?env (Some agent) body = (Some e, r)" by (metis prod.collapse)
    then obtain cl where cl: "cover_claim ?env cl = (Some e, r)" by (rule register_event)
    have p: "pool = readPoolConfig (ce_pool ?env) (ce_defaults ?env)" using assms(1) by simp
    from cover_claim_event [OF cl p] have g: "attestation_gate ?env pool (cl_agent cl) (refund_of e) = None"
      by (auto simp: refund_of_def)
    have "?total + refund_of e \<le> perAgentRefundCapFor pool"
    proof (cases "0 < refund_of e")
      case True
      then show ?thesis using gate_bound [OF g] by simp
    next
      case False
      then show ?thesis using assms(2) by simp
    qed
    then show ?thesis using Some by (simp add: claim_step_def)
  qed
qed

text \<open>
  C32: the gate bounds what one agent can draw. With the gate enforced and statistics that count every
  claim published so far, the refunds of all claims an agent gets published, in any sequence of
  requests, never exceed three full refunds of the pool.
\<close>

theorem gate_bounds_agent_refunds:
  assumes "\<forall>(env, st, body) \<in> set requests. readPoolConfig (ce_pool env) (ce_defaults env) = pool"
    and "0 \<le> pc_imputedCost pool + pc_flatPremium pool"
  shows "sum_list (List.map refund_of (foldl (claim_step agent) [] requests)) \<le> 3 * (pc_imputedCost pool + pc_flatPremium pool)"
proof -
  have "sum_list (List.map refund_of (foldl (claim_step agent) published requests)) \<le> perAgentRefundCapFor pool"
    if "sum_list (List.map refund_of published) \<le> perAgentRefundCapFor pool" for published
    using assms(1) that
  proof (induction requests arbitrary: published)
    case (Cons request requests)
    obtain env st body where q: "request = (env, st, body)" by (cases request)
    have "readPoolConfig (ce_pool env) (ce_defaults env) = pool" using Cons.prems(1) q by simp
    from claim_step_bound [OF this Cons.prems(2)] Cons q show ?case by simp
  qed simp
  then show ?thesis using assms(2) by (simp add: perAgentRefundCapFor_def)
qed

theorem gate_bounds_agent_refunds_witness:
  "let st = \<lparr>as_agentRefund = 0, as_agentCoveredClaims = 0, as_agentTotalCalls = 0, as_networkRate = 0, as_networkSamples = 0\<rparr>
   in sum_list (List.map refund_of (foldl (claim_step demo_agent) [] (replicate 7 (demo_env, st, Some demo_body)))) \<le> 3003000"
proof -
  let ?st = "\<lparr>as_agentRefund = 0, as_agentCoveredClaims = 0, as_agentTotalCalls = 0, as_networkRate = 0, as_networkSamples = 0\<rparr> :: attestation_stats"
  let ?requests = "replicate 7 (demo_env, ?st, Some demo_body)"
  have p: "readPoolConfig (ce_pool demo_env) (ce_defaults demo_env) = demo_pool"
    by (simp add: readPoolConfig_def demo_env_def demo_pool_def)
  have "\<forall>(env, st, body) \<in> set ?requests. readPoolConfig (ce_pool env) (ce_defaults env) = demo_pool" using p by auto
  from gate_bounds_agent_refunds [OF this] show ?thesis by (simp add: demo_pool_def)
qed

text \<open>
  The ids of coverage are usable downstream. The id derived from a payment and the random id of an
  unverified claim have the shape the coverage route and the market proxy ask for, fit the indexer's
  column of 36 characters, and the settler reads back from them exactly the 16 bytes they were made of.
\<close>

theorem coverage_ids_are_readable:
  assumes "length random = 16" and "hash (''pay.sh'' @ nl @ payee @ nl @ resource @ nl @ signature) = digest" and "length digest = 32"
  shows "CALL_ID_RE (randomCoverageId random) \<and> length (randomCoverageId random) = 36 \<and>
      parseCallId (randomCoverageId random) = Some (uuid_bytes random) \<and>
    CALL_ID_RE (deriveCoverageId hash payee resource signature) \<and> length (deriveCoverageId hash payee resource signature) = 36 \<and>
      parseCallId (deriveCoverageId hash payee resource signature) = Some (uuid_bytes digest)"
proof -
  have "CALL_ID_RE (uuid_string (uuid_bytes b0)) \<and> length (uuid_string (uuid_bytes b0)) = 36 \<and>
      parseCallId (uuid_string (uuid_bytes b0)) = Some (uuid_bytes b0)" if "16 \<le> length b0" for b0
    using uuid_string_readable [OF that] .
  then show ?thesis using assms by (simp add: randomCoverageId_def deriveCoverageId_def)
qed

theorem coverage_ids_are_readable_witness:
  "CALL_ID_RE (deriveCoverageId (\<lambda>_. replicate 32 0xFF) ''payee'' ''https://x.test'' ''sig'') \<and>
   parseCallId (deriveCoverageId (\<lambda>_. replicate 32 0xFF) ''payee'' ''https://x.test'' ''sig'') = Some (uuid_bytes (replicate 32 0xFF))"
  using coverage_ids_are_readable [where random = "replicate 16 0" and hash = "\<lambda>_. replicate 32 0xFF" and payee = "''payee''"
    and resource = "''https://x.test''" and signature = "''sig''" and digest = "replicate 32 0xFF"] by simp

end
