(* ===== verification/JsonParse.thy ===== *)
theory JsonParse
  imports JsText
begin

text \<open>
  \<open>JSON.parse\<close> for the JSON values of the model: white space, the escapes, integer numbers, arrays
  and objects, where a repeated key keeps its place and takes the last value. Numbers with a fraction
  or an exponent, and escapes above \<open>U+00FF\<close>, are outside the model's values and are refused. Every call
  consumes a character, so fuel of the text's length is never exhausted. \<open>parse_stringify\<close> is the
  round trip of what the services write.
\<close>

section \<open>The parser\<close>

definition is_ws :: "char \<Rightarrow> bool" where
  "is_ws c \<longleftrightarrow> (of_char c :: nat) \<in> {9, 10, 13, 32}"

abbreviation skip_ws :: "string \<Rightarrow> string" where "skip_ws \<equiv> dropWhile is_ws"

fun unescape :: "char \<Rightarrow> char option" where
  "unescape c = (let n = (of_char c :: nat) in
     if n = 34 \<or> n = 92 \<or> n = 47 then Some c
     else if c = CHR ''b'' then Some (CHR 0x08) else if c = CHR ''t'' then Some (CHR 0x09)
     else if c = CHR ''n'' then Some (CHR 0x0A) else if c = CHR ''f'' then Some (CHR 0x0C)
     else if c = CHR ''r'' then Some (CHR 0x0D) else None)"

text \<open>The rest of a string literal after its opening quote.\<close>

fun parse_chars :: "string \<Rightarrow> (string \<times> string) option" where
  "parse_chars [] = None"
| "parse_chars (c # cs) =
     (let n = (of_char c :: nat) in
      if n = 34 then Some ([], cs)
      else if n < 32 then None
      else if n = 92 then
        (case cs of [] \<Rightarrow> None
         | e # r \<Rightarrow>
             if e = CHR ''u'' then
               (case r of
                  d1 # d2 # d3 # d4 # u \<Rightarrow>
                    if hex_val d1 = Some 0 \<and> hex_val d2 = Some 0 then
                      (case (hex_val d3, hex_val d4) of
                         (Some a, Some b) \<Rightarrow> map_option (\<lambda>(s, t). (char_of (16 * a + b) # s, t)) (parse_chars u)
                       | _ \<Rightarrow> None)
                    else None
                | _ \<Rightarrow> None)
             else (case unescape e of None \<Rightarrow> None
                 | Some x \<Rightarrow> map_option (\<lambda>(s, t). (x # s, t)) (parse_chars r)))
      else map_option (\<lambda>(s, t). (c # s, t)) (parse_chars cs))"

definition is_digit :: "char \<Rightarrow> bool" where "is_digit c \<longleftrightarrow> digit_val c \<noteq> None"

text \<open>A number: an optional minus, digits without a leading zero, and nothing a fraction continues with.\<close>

definition parse_number :: "string \<Rightarrow> (int \<times> string) option" where
  "parse_number s =
     (let neg = starts_with ''-'' s; t = (if neg then tl s else s);
          ds = takeWhile is_digit t; r = dropWhile is_digit t in
      if ds = [] \<or> (hd ds = CHR ''0'' \<and> length ds > 1) \<or> (r \<noteq> [] \<and> hd r \<in> set ''.eE'') then None
      else map_option (\<lambda>n. (if neg then - int n else int n, r)) (parse_digits 0 ds))"

definition keyword :: "string \<Rightarrow> 'a \<Rightarrow> string \<Rightarrow> ('a \<times> string) option" where
  "keyword w v s = (if starts_with w s then Some (v, drop (length w) s) else None)"

definition merge_keys :: "payload \<Rightarrow> payload" where
  "merge_keys kvs = foldl (\<lambda>d (k, v). AList.update k v d) [] kvs"

fun parse_value :: "nat \<Rightarrow> string \<Rightarrow> (json \<times> string) option"
  and parse_elems :: "nat \<Rightarrow> string \<Rightarrow> (json list \<times> string) option"
  and parse_members :: "nat \<Rightarrow> string \<Rightarrow> (payload \<times> string) option" where
  "parse_value 0 s = None"
| "parse_value (Suc n) s =
     (case skip_ws s of
        [] \<Rightarrow> None
      | c # cs \<Rightarrow>
          if c = CHR ''{'' then
            (case skip_ws cs of d # r \<Rightarrow>
                 if d = CHR ''}'' then Some (JObj [], r)
                 else map_option (\<lambda>(kvs, t). (JObj (merge_keys kvs), t)) (parse_members n (d # r))
             | [] \<Rightarrow> None)
          else if c = CHR ''['' then
            (case skip_ws cs of d # r \<Rightarrow>
                 if d = CHR '']'' then Some (JArr [], r)
                 else map_option (\<lambda>(vs, t). (JArr vs, t)) (parse_elems n (d # r))
             | [] \<Rightarrow> None)
          else if c = CHR 0x22 then map_option (\<lambda>(x, t). (JStr x, t)) (parse_chars cs)
          else if c = CHR ''t'' then keyword ''true'' (JBool True) (c # cs)
          else if c = CHR ''f'' then keyword ''false'' (JBool False) (c # cs)
          else if c = CHR ''n'' then keyword ''null'' JNull (c # cs)
          else map_option (\<lambda>(i, t). (JNum i, t)) (parse_number (c # cs)))"
| "parse_elems 0 s = None"
| "parse_elems (Suc n) s =
     (case parse_value n s of None \<Rightarrow> None
      | Some (v, t) \<Rightarrow>
          (case skip_ws t of
             c # r \<Rightarrow> if c = CHR '','' then map_option (\<lambda>(vs, u). (v # vs, u)) (parse_elems n r)
                      else if c = CHR '']'' then Some ([v], r) else None
           | [] \<Rightarrow> None))"
| "parse_members 0 s = None"
| "parse_members (Suc n) s =
     (case skip_ws s of
        q # t \<Rightarrow>
          if q = CHR 0x22 then
            (case parse_chars t of None \<Rightarrow> None
             | Some (k, t1) \<Rightarrow>
                 (case skip_ws t1 of
                    c # t2 \<Rightarrow>
                      if c = CHR '':'' then
                        (case parse_value n t2 of None \<Rightarrow> None
                         | Some (v, t3) \<Rightarrow>
                             (case skip_ws t3 of
                                d # r \<Rightarrow> if d = CHR '','' then map_option (\<lambda>(kvs, u). ((k, v) # kvs, u)) (parse_members n r)
                                         else if d = CHR ''}'' then Some ([(k, v)], r) else None
                              | [] \<Rightarrow> None))
                      else None
                  | [] \<Rightarrow> None))
          else None
      | [] \<Rightarrow> None)"

definition parse_json :: "string \<Rightarrow> json option" where
  "parse_json s = (case parse_value (2 * length s + 1) s of
     Some (v, t) \<Rightarrow> if skip_ws t = [] then Some v else None | None \<Rightarrow> None)"

lemma parse_examples:
  "parse_json ''{ }'' = Some (JObj [])"
  "parse_json '' [1, -20 ,true,null]'' = Some (JArr [JNum 1, JNum (-20), JBool True, JNull])"
  "parse_json ''[1,]'' = None"
  "parse_json ''01'' = None"
  by code_simp+

section \<open>Round trip\<close>

text \<open>Values whose objects do not repeat a key.\<close>

fun wf_json :: "json \<Rightarrow> bool" where
  "wf_json (JArr vs) \<longleftrightarrow> list_all wf_json vs"
| "wf_json (JObj kvs) \<longleftrightarrow> distinct (map fst kvs) \<and> list_all (\<lambda>(k, v). wf_json v) kvs"
| "wf_json _ \<longleftrightarrow> True"

definition ends_number :: "string \<Rightarrow> bool" where
  "ends_number t \<longleftrightarrow> t = [] \<or> (\<not> is_digit (hd t) \<and> hd t \<notin> set ''.eE'')"

declare parse_chars.simps(2) [simp del]

lemma parse_chars_plain:
  "(of_char c :: nat) \<ge> 32 \<Longrightarrow> (of_char c :: nat) \<noteq> 34 \<Longrightarrow> (of_char c :: nat) \<noteq> 92 \<Longrightarrow>
     parse_chars (c # r) = map_option (\<lambda>(s, t). (c # s, t)) (parse_chars r)"
  by (simp add: parse_chars.simps(2) Let_def)

lemma parse_chars_short:
  "e \<noteq> CHR ''u'' \<Longrightarrow> unescape e = Some x \<Longrightarrow>
     parse_chars (CHR 0x5C # e # r) = map_option (\<lambda>(s, t). (x # s, t)) (parse_chars r)"
  by (simp add: parse_chars.simps(2) Let_def)

lemma parse_chars_unicode:
  "a < 16 \<Longrightarrow> b < 16 \<Longrightarrow>
     parse_chars ([CHR 0x5C, CHR ''u'', CHR ''0'', CHR ''0'', hex_char a, hex_char b] @ r) =
     map_option (\<lambda>(s, t). (char_of (16 * a + b) # s, t)) (parse_chars r)"
proof -
  have "hex_val (CHR ''0'') = Some 0" by (simp add: hex_val_def)
  then show "a < 16 \<Longrightarrow> b < 16 \<Longrightarrow> ?thesis" by (simp add: parse_chars.simps(2) Let_def)
qed

lemma parse_chars_escape: "parse_chars (escape_char c @ r) = map_option (\<lambda>(s, t). (c # s, t)) (parse_chars r)"
proof -
  let ?n = "of_char c :: nat"
  have c: "c = char_of ?n" by simp
  consider "?n \<in> {34, 92, 8, 9, 10, 12, 13}" | "?n < 32" "?n \<notin> {8, 9, 10, 12, 13}" | "?n \<ge> 32" "?n \<noteq> 34" "?n \<noteq> 92"
    by fastforce
  then show ?thesis
  proof cases
    case 1
    with c have "c \<in> char_of ` {34, 92, 8, 9, 10, 12, 13 :: nat}" by (metis imageI)
    then consider "c = CHR 0x22" | "c = CHR 0x5C" | "c = CHR 8" | "c = CHR 9" | "c = CHR 10" | "c = CHR 12" | "c = CHR 13"
      by (auto simp: char_of_def bit_0)
    then show ?thesis by cases (simp_all add: escape_char_def parse_chars_short)
  next
    case 2
    then have "escape_char c = [CHR 0x5C, CHR ''u'', CHR ''0'', CHR ''0'', hex_char (?n div 16), hex_char (?n mod 16)]"
      by (auto simp: escape_char_def Let_def)
    moreover have "?n div 16 < 16" "?n mod 16 < 16" using 2 by auto
    moreover have "char_of (16 * (?n div 16) + ?n mod 16) = c" by simp
    ultimately show ?thesis using parse_chars_unicode by metis
  next
    case 3
    then show ?thesis by (simp add: escape_char_def Let_def parse_chars_plain)
  qed
qed

lemma parse_quote: "parse_chars (concat (map escape_char s) @ CHR 0x22 # t) = Some (s, t)"
  by (induction s) (simp_all add: parse_chars_escape parse_chars.simps(2))

lemma string_of_int_number:
  assumes "ends_number t"
  shows "parse_number (string_of_int i @ t) = Some (i, t)"
proof -
  have digits: "takeWhile is_digit (dec_digits n @ t) = dec_digits n \<and> dropWhile is_digit (dec_digits n @ t) = t" for n
    using dec_digits_chars [of _ n] assms
    by (cases t) (auto simp: ends_number_def is_digit_def takeWhile_append2 dropWhile_append2)
  have zero: "digit_val (CHR ''0'') = Some 0" by (simp add: digit_val_def)
  have lead: "hd (dec_digits n) = CHR ''0'' \<Longrightarrow> length (dec_digits n) = 1" for n
  proof (induction n rule: dec_digits.induct)
    case (1 n)
    show ?case
    proof (cases "n < 10")
      case True
      then show ?thesis by (simp add: dec_digits.simps [of n])
    next
      case False
      have "hd (dec_digits (n div 10)) = CHR ''0''" using "1.prems" False by (simp add: dec_digits.simps [of n])
      with "1.IH" False have one: "length (dec_digits (n div 10)) = 1" by blast
      then have "n div 10 < 10" by (metis One_nat_def add_is_1 dec_digits.simps dec_digits_nonempty length_0_conv length_append list.size(3,4) one_neq_zero)
      then have "hd (dec_digits (n div 10)) = digit_char (n div 10)" by (simp add: dec_digits.simps [of "n div 10"])
      moreover have "digit_val (digit_char (n div 10)) = Some (n div 10)" using \<open>n div 10 < 10\<close> by simp
      ultimately have "n div 10 = 0" using \<open>hd (dec_digits (n div 10)) = CHR ''0''\<close> zero by simp
      with False show ?thesis by simp
    qed
  qed
  have tail: "\<not> (t \<noteq> [] \<and> hd t \<in> set ''.eE'')" using assms by (auto simp: ends_number_def)
  show ?thesis
  proof (cases "i < 0")
    case True
    then show ?thesis using digits [of "nat (- i)"] lead [of "nat (- i)"] tail
      by (simp add: parse_number_def string_of_int_def starts_with_def Let_def del: dropWhile_eq_Nil_conv)
  next
    case False
    have "\<not> starts_with ''-'' (dec_digits (nat i) @ t)" using dec_digits_hd [of "nat i"] digit_val_not by (auto simp: starts_with_def)
    then show ?thesis using False digits [of "nat i"] lead [of "nat i"] tail
      by (simp add: parse_number_def string_of_int_def Let_def del: dropWhile_eq_Nil_conv)
  qed
qed

text \<open>How the text of a value begins.\<close>

lemma stringify_hd:
  "\<exists>c cs. stringify v = c # cs \<and> \<not> is_ws c \<and> c \<noteq> CHR '']'' \<and> c \<noteq> CHR ''}'' \<and>
     (c = CHR ''{'' \<longrightarrow> (\<exists>d. v = JObj d)) \<and> (c = CHR ''['' \<longrightarrow> (\<exists>vs. v = JArr vs))"
proof (cases v)
  case (JNum i)
  show ?thesis
  proof (cases "i < 0")
    case True
    then show ?thesis using JNum by (simp add: string_of_int_def is_ws_def)
  next
    case False
    obtain c cs where "dec_digits (nat i) = c # cs" "digit_val c \<noteq> None" using dec_digits_hd by blast
    then show ?thesis using JNum False by (auto simp: string_of_int_def is_ws_def digit_val_def Let_def split: if_split_asm)
  qed
qed (auto simp: quote_def is_ws_def)

lemma stringify_skip: "skip_ws (stringify v @ t) = stringify v @ t"
  using stringify_hd [of v] by auto

lemma merge_keys_distinct: "distinct (map fst kvs) \<Longrightarrow> merge_keys kvs = kvs"
proof -
  have "distinct (map fst (d @ kvs)) \<Longrightarrow> foldl (\<lambda>d (k, v). AList.update k v d) d kvs = d @ kvs" for d
  proof (induction kvs arbitrary: d)
    case (Cons p kvs)
    obtain k v where p: "p = (k, v)" by fastforce
    have "k \<notin> fst ` set d" using Cons.prems p by auto
    then have "AList.update k v d = d @ [(k, v)]" by (induction d) auto
    with Cons p show ?case by simp
  qed simp
  from this [of "[]"] show "distinct (map fst kvs) \<Longrightarrow> merge_keys kvs = kvs" by (simp add: merge_keys_def)
qed

abbreviation elems_text :: "json list \<Rightarrow> string" where
  "elems_text vs \<equiv> join_with '','' (map stringify vs)"

abbreviation members_text :: "payload \<Rightarrow> string" where
  "members_text kvs \<equiv> join_with '','' (map (\<lambda>(k, v). quote k @ '':'' @ stringify v) kvs)"

lemma stringify_length: "0 < length (stringify v)"
  using stringify_hd [of v] by auto

lemma ends_number_closer: "c \<in> {CHR '','', CHR '']'', CHR ''}''} \<Longrightarrow> ends_number (c # t)"
  by (auto simp: ends_number_def is_digit_def digit_val_def)

text \<open>A keyword or a number is not read as anything else.\<close>

lemma parse_value_atom:
  assumes "ends_number t" and "\<nexists>d. v = JObj d" and "\<nexists>vs. v = JArr vs"
  shows "parse_value (Suc n) (stringify v @ t) = Some (v, t)"
proof (cases v)
  case (JStr s)
  then show ?thesis using parse_quote [of s t] by (simp add: quote_def is_ws_def)
next
  case (JNum i)
  obtain c cs where c: "string_of_int i = c # cs" "c = CHR ''-'' \<or> digit_val c \<noteq> None"
    using dec_digits_hd [of "nat i"] by (cases "i < 0") (auto simp: string_of_int_def)
  then have "\<not> is_ws c" "c \<notin> {CHR ''{'', CHR ''['', CHR 0x22, CHR ''t'', CHR ''f'', CHR ''n''}"
    by (auto simp: is_ws_def digit_val_def Let_def split: if_split_asm)
  then show ?thesis using JNum c(1) string_of_int_number [OF assms(1), of i] by simp
next
  case (JBool b)
  then show ?thesis by (cases b) (simp_all add: is_ws_def keyword_def starts_with_def)
next
  case JNull
  then show ?thesis by (simp add: is_ws_def keyword_def starts_with_def)
qed (use assms in auto)

lemma parse_stringify_rest:
  "(\<forall>v t. wf_json v \<longrightarrow> 2 * length (stringify v) \<le> n \<longrightarrow> ends_number t \<longrightarrow> parse_value n (stringify v @ t) = Some (v, t)) \<and>
   (\<forall>v vs t. list_all wf_json (v # vs) \<longrightarrow> 2 * length (elems_text (v # vs)) < n \<longrightarrow>
      parse_elems n (elems_text (v # vs) @ '']'' @ t) = Some (v # vs, t)) \<and>
   (\<forall>kv kvs t. list_all (\<lambda>(k, v). wf_json v) (kv # kvs) \<longrightarrow> 2 * length (members_text (kv # kvs)) < n \<longrightarrow>
      parse_members n (members_text (kv # kvs) @ ''}'' @ t) = Some (kv # kvs, t))"
proof (induction n)
  case 0
  then show ?case using stringify_length by auto
next
  case (Suc n)
  note pval = Suc.IH [THEN conjunct1, rule_format]
  note elems = Suc.IH [THEN conjunct2, THEN conjunct1, rule_format]
  note members = Suc.IH [THEN conjunct2, THEN conjunct2, rule_format]
  have v: "parse_value (Suc n) (stringify v @ t) = Some (v, t)"
    if "wf_json v" "2 * length (stringify v) \<le> Suc n" "ends_number t" for v t
  proof (cases "(\<exists>vs. v = JArr vs) \<or> (\<exists>d. v = JObj d)")
    case False
    then show ?thesis using parse_value_atom [OF that(3)] by blast
  next
    case True
    then show ?thesis
    proof (elim disjE exE)
      fix vs assume a: "v = JArr vs"
      show ?thesis
      proof (cases vs)
        case Nil
        then show ?thesis using a by (simp add: is_ws_def)
      next
        case (Cons w ws)
        then have "skip_ws (elems_text vs @ '']'' @ t) = elems_text vs @ '']'' @ t \<and> (\<exists>c cs. elems_text vs = c # cs \<and> c \<noteq> CHR '']'')"
          using stringify_hd [of w] by (cases ws) auto
        moreover have "parse_elems n (elems_text vs @ '']'' @ t) = Some (vs, t)"
          using elems [of w ws t] that(1,2) a Cons by simp
        ultimately show ?thesis using a by (auto simp: is_ws_def)
      qed
    next
      fix d assume a: "v = JObj d"
      show ?thesis
      proof (cases d)
        case Nil
        then show ?thesis using a by (simp add: is_ws_def)
      next
        case (Cons kv kvs)
        then have "skip_ws (members_text d @ ''}'' @ t) = members_text d @ ''}'' @ t \<and> (\<exists>cs. members_text d = CHR 0x22 # cs)"
          by (cases kvs) (auto simp: quote_def is_ws_def split: prod.splits)
        moreover have "parse_members n (members_text d @ ''}'' @ t) = Some (d, t)"
          using members [of kv kvs t] that(1,2) a Cons by simp
        ultimately show ?thesis using a that(1) merge_keys_distinct [of d] by (auto simp: is_ws_def)
      qed
    qed
  qed
  have e: "parse_elems (Suc n) (elems_text (v # vs) @ '']'' @ t) = Some (v # vs, t)"
    if "list_all wf_json (v # vs)" "2 * length (elems_text (v # vs)) < Suc n" for v vs t
  proof (cases vs)
    case Nil
    then show ?thesis using pval [of v "'']'' @ t"] that by (simp add: ends_number_closer is_ws_def)
  next
    case (Cons w ws)
    then show ?thesis using pval [of v "'','' @ elems_text vs @ '']'' @ t"] elems [of w ws t] that
      by (simp add: ends_number_closer is_ws_def)
  qed
  have m: "parse_members (Suc n) (members_text (kv # kvs) @ ''}'' @ t) = Some (kv # kvs, t)"
    if "list_all (\<lambda>(k, v). wf_json v) (kv # kvs)" "2 * length (members_text (kv # kvs)) < Suc n" for kv kvs t
  proof -
    obtain k v where kv: "kv = (k, v)" by fastforce
    show ?thesis
    proof (cases kvs)
      case Nil
      then show ?thesis using pval [of v "''}'' @ t"] that kv parse_quote [of k "'':'' @ stringify v @ ''}'' @ t"]
        by (simp add: ends_number_closer is_ws_def quote_def)
    next
      case (Cons w ws)
      then show ?thesis using pval [of v "'','' @ members_text kvs @ ''}'' @ t"] members [of w ws t] that kv
          parse_quote [of k "'':'' @ stringify v @ '','' @ members_text kvs @ ''}'' @ t"]
        by (simp add: ends_number_closer is_ws_def quote_def)
    qed
  qed
  from v e m show ?case by blast
qed

lemma parse_stringify: "wf_json v \<Longrightarrow> parse_json (stringify v) = Some v"
  using parse_stringify_rest [of "2 * length (stringify v) + 1", THEN conjunct1, rule_format, of v "[]"]
  by (simp add: parse_json_def ends_number_def)

section \<open>Parsed values\<close>

text \<open>What the parser returns has no repeated keys.\<close>

lemma merge_keys_wf: "list_all (\<lambda>(k, v). wf_json v) kvs \<Longrightarrow> wf_json (JObj (merge_keys kvs))"
proof -
  have "list_all (\<lambda>(k, v). wf_json v) kvs \<Longrightarrow> wf_json (JObj d) \<Longrightarrow> wf_json (JObj (foldl (\<lambda>d (k, v). AList.update k v d) d kvs))" for d
  proof (induction kvs arbitrary: d)
    case (Cons p kvs)
    obtain k v where p: "p = (k, v)" by fastforce
    have "wf_json (JObj (AList.update k v d))"
      using Cons.prems p distinct_update [of d k v] by (induction d) (auto simp: update_keys)
    with Cons p show ?case by simp
  qed simp
  from this [of "[]"] show "list_all (\<lambda>(k, v). wf_json v) kvs \<Longrightarrow> ?thesis" by (simp add: merge_keys_def)
qed

lemma parse_wf_rest:
  shows "parse_value n s = Some (v, t) \<Longrightarrow> wf_json v"
    and "parse_elems n s = Some (vs, t) \<Longrightarrow> list_all wf_json vs"
    and "parse_members n s = Some (kvs, t) \<Longrightarrow> list_all (\<lambda>(k, v). wf_json v) kvs"
proof (induction n s and n s and n s arbitrary: v t and vs t and kvs t rule: parse_value_parse_elems_parse_members.induct)
  case (2 n s)
  then show ?case
    by (auto split: list.split_asm if_split_asm simp: keyword_def merge_keys_wf simp del: wf_json.simps(2) dropWhile_eq_Nil_conv)
      (simp_all)
next
  case (4 n s)
  then show ?case by (auto split: list.split_asm if_split_asm option.split_asm prod.split_asm)
next
  case (6 n s)
  then show ?case by (auto split: list.split_asm if_split_asm option.split_asm prod.split_asm)
qed auto
lemma parse_json_wf: "parse_json s = Some v \<Longrightarrow> wf_json v"
  using parse_wf_rest(1) by (auto simp: parse_json_def split: option.split_asm prod.split_asm if_split_asm simp del: parse_value.simps)

end
