(* ===== verification/SdkStorage.thy ===== *)
theory SdkStorage
  imports JsonParse
begin

text \<open>
  The observation buffer of \<open>packages/sdk/src\<close>: \<open>storage.ts\<close>, the in-memory store mirrored to
  \<open>localStorage\<close> (\<open>storage-memory.ts\<close>) and the JSONL file (\<open>observation-buffer.ts\<close>). A row is the
  JSON object it is written as. The locale \<open>pact_storage\<close> is the contract of \<open>PactStorage\<close>; both
  stores satisfy it, the file for as long as every line it holds was written whole.
\<close>

section \<open>Observations\<close>

record observation =
  ob_callId :: string
  ob_agentPubkey :: string
  ob_slug :: string
  ob_host :: string
  ob_ts :: string
  ob_premium :: "string option"
  ob_refund :: "string option"
  ob_outcome :: "string option"
  ob_breach :: bool

definition or_null :: "string option \<Rightarrow> json" where
  "or_null v = (case v of None \<Rightarrow> JNull | Some s \<Rightarrow> JStr s)"

definition obs_json :: "observation \<Rightarrow> payload" where
  "obs_json ob = [(''callId'', JStr (ob_callId ob)), (''agentPubkey'', JStr (ob_agentPubkey ob)), (''slug'', JStr (ob_slug ob)),
     (''host'', JStr (ob_host ob)), (''ts'', JStr (ob_ts ob)), (''premiumLamports'', or_null (ob_premium ob)),
     (''refundLamports'', or_null (ob_refund ob)), (''outcome'', or_null (ob_outcome ob)), (''breach'', JBool (ob_breach ob)),
     (''reconciled'', JBool False)]"

definition row_pending :: "payload \<Rightarrow> bool" where
  "row_pending r \<longleftrightarrow> \<not> js_truthy (get_prop r ''reconciled'')"

text \<open>\<open>===\<close> on values from JSON: two objects are never the same one.\<close>

definition same_id :: "json option \<Rightarrow> json option \<Rightarrow> bool" where
  "same_id a b \<longleftrightarrow> a = b \<and> (case a of Some (JObj _) \<Rightarrow> False | Some (JArr _) \<Rightarrow> False | _ \<Rightarrow> True)"

definition row_is :: "json option \<Rightarrow> payload \<Rightarrow> bool" where
  "row_is i r \<longleftrightarrow> same_id (get_prop r ''callId'') i"

text \<open>The loop body of \<open>markReconciled\<close>, the same in both stores.\<close>

definition flip_row :: "json option \<Rightarrow> payload \<Rightarrow> payload" where
  "flip_row i r = (if row_is i r \<and> row_pending r then AList.update ''reconciled'' (JBool True) r else r)"

definition flips :: "json option \<Rightarrow> payload list \<Rightarrow> bool" where
  "flips i rows \<longleftrightarrow> list_ex (\<lambda>r. row_is i r \<and> row_pending r) rows"

section \<open>Aggregation\<close>

record observation_stats =
  os_total :: nat
  os_reconciled :: nat
  os_pending :: nat
  os_premium :: int
  os_refund :: int
  os_bySlug :: "(string \<times> nat \<times> nat) list"

definition safeBig :: "json option \<Rightarrow> int" where
  "safeBig v = (case bigint_of_json v of None \<Rightarrow> 0 | Some n \<Rightarrow> n)"

definition slug_key :: "payload \<Rightarrow> string" where
  "slug_key r = (case get_prop r ''slug'' of Some (JStr s) \<Rightarrow> s | _ \<Rightarrow> ''undefined'')"

definition aggregate_row :: "observation_stats \<Rightarrow> payload \<Rightarrow> observation_stats" where
  "aggregate_row st r =
     (let big = (\<lambda>k. if js_truthy (get_prop r k) then safeBig (get_prop r k) else 0);
          (calls, breaches) = (case map_of (os_bySlug st) (slug_key r) of None \<Rightarrow> (0, 0) | Some cb \<Rightarrow> cb)
      in st\<lparr>os_reconciled := os_reconciled st + (if row_pending r then 0 else 1),
            os_premium := os_premium st + big ''premiumLamports'', os_refund := os_refund st + big ''refundLamports'',
            os_bySlug := AList.update (slug_key r)
              (calls + 1, breaches + (if js_truthy (get_prop r ''breach'') then 1 else 0)) (os_bySlug st)\<rparr>)"

definition aggregate :: "payload list \<Rightarrow> observation_stats" where
  "aggregate rows =
     (let st = foldl aggregate_row \<lparr>os_total = 0, os_reconciled = 0, os_pending = 0, os_premium = 0, os_refund = 0, os_bySlug = []\<rparr> rows
      in st\<lparr>os_total := length rows, os_pending := length rows - os_reconciled st\<rparr>)"

section \<open>The in-memory store\<close>

text \<open>
  \<open>ms_local\<close> is the \<open>localStorage\<close> entry under the persist key; \<open>ms_accepts\<close> says whether writing a text
  succeeds (a failing write is swallowed). Without a key or a \<open>localStorage\<close> nothing is written.
\<close>

record memory_storage =
  ms_rows :: "payload list"
  ms_persistent :: bool
  ms_local :: "string option"
  ms_accepts :: "string \<Rightarrow> bool"

definition rows_text :: "payload list \<Rightarrow> string" where
  "rows_text rows = stringify (JArr (List.map JObj rows))"

definition objects_of :: "json list \<Rightarrow> payload list" where
  "objects_of vs = concat (List.map (\<lambda>v. case v of JObj d \<Rightarrow> [d] | _ \<Rightarrow> []) vs)"

definition memory_open :: "bool \<Rightarrow> (string \<Rightarrow> bool) \<Rightarrow> string option \<Rightarrow> memory_storage" where
  "memory_open persistent accepts stored =
     \<lparr>ms_rows = (if persistent then (case stored of None \<Rightarrow> [] | Some raw \<Rightarrow>
        if raw = [] then [] else (case parse_json raw of Some (JArr vs) \<Rightarrow> objects_of vs | _ \<Rightarrow> [])) else []),
      ms_persistent = persistent, ms_local = stored, ms_accepts = accepts\<rparr>"

definition memory_persist :: "memory_storage \<Rightarrow> memory_storage" where
  "memory_persist s =
     (if ms_persistent s \<and> ms_accepts s (rows_text (ms_rows s)) then s\<lparr>ms_local := Some (rows_text (ms_rows s))\<rparr> else s)"

definition memory_append :: "payload \<Rightarrow> memory_storage \<Rightarrow> memory_storage" where
  "memory_append r s = memory_persist (s\<lparr>ms_rows := ms_rows s @ [r]\<rparr>)"

definition memory_loadPending :: "memory_storage \<Rightarrow> payload list" where
  "memory_loadPending s = filter row_pending (ms_rows s)"

definition memory_markReconciled :: "json option \<Rightarrow> memory_storage \<Rightarrow> memory_storage" where
  "memory_markReconciled i s =
     (if flips i (ms_rows s) then memory_persist (s\<lparr>ms_rows := List.map (flip_row i) (ms_rows s)\<rparr>) else s)"

definition memory_stats :: "memory_storage \<Rightarrow> observation_stats" where
  "memory_stats s = aggregate (ms_rows s)"

section \<open>The JSONL file\<close>

text \<open>
  The file's text, or \<open>None\<close> while it does not exist. A line that does not parse is skipped; a line that
  parses to something other than an object is not one the buffer writes, and is skipped here too.
\<close>

type_synonym jsonl = "string option"

definition line_text :: "payload \<Rightarrow> string" where
  "line_text r = stringify (JObj r) @ [CHR 0x0A]"

definition fs_append :: "payload \<Rightarrow> jsonl \<Rightarrow> jsonl" where
  "fs_append r f = Some ((case f of None \<Rightarrow> [] | Some text \<Rightarrow> text) @ line_text r)"

definition read_line :: "string \<Rightarrow> payload list" where
  "read_line line = (let t = trim line in
     if t = [] then [] else (case parse_json t of Some (JObj d) \<Rightarrow> [d] | _ \<Rightarrow> []))"

definition readAll :: "jsonl \<Rightarrow> payload list" where
  "readAll f = (case f of None \<Rightarrow> [] | Some text \<Rightarrow> concat (List.map read_line (split_on (CHR 0x0A) text)))"

definition fs_loadPending :: "jsonl \<Rightarrow> payload list" where
  "fs_loadPending f = filter row_pending (readAll f)"

definition fs_markReconciled :: "json option \<Rightarrow> jsonl \<Rightarrow> jsonl" where
  "fs_markReconciled i f =
     (let rows = readAll f in
      if flips i rows then Some (join_with [CHR 0x0A] (List.map (\<lambda>r. stringify (JObj (flip_row i r))) rows) @ [CHR 0x0A]) else f)"

definition fs_stats :: "jsonl \<Rightarrow> observation_stats" where
  "fs_stats f = aggregate (readAll f)"

section \<open>The contract\<close>

definition wf_row :: "payload \<Rightarrow> bool" where
  "wf_row r \<longleftrightarrow> wf_json (JObj r)"

locale pact_storage =
  fixes append_op :: "payload \<Rightarrow> 's \<Rightarrow> 's"
    and load_op :: "'s \<Rightarrow> payload list"
    and mark_op :: "json option \<Rightarrow> 's \<Rightarrow> 's"
    and rows :: "'s \<Rightarrow> payload list"
    and ok :: "'s \<Rightarrow> bool"
  assumes ok_append: "ok s \<Longrightarrow> wf_row r \<Longrightarrow> ok (append_op r s)"
    and rows_append: "ok s \<Longrightarrow> wf_row r \<Longrightarrow> rows (append_op r s) = rows s @ [r]"
    and ok_mark: "ok s \<Longrightarrow> ok (mark_op i s)"
    and rows_mark: "ok s \<Longrightarrow> rows (mark_op i s) = List.map (flip_row i) (rows s)"
    and load_pending: "ok s \<Longrightarrow> load_op s = filter row_pending (rows s)"

lemma flip_row_idle: "\<not> flips i rs \<Longrightarrow> List.map (flip_row i) rs = rs"
  by (induction rs) (auto simp: flips_def flip_row_def)

lemma update_wf: "wf_row r \<Longrightarrow> wf_row (AList.update k (JBool b) r)"
proof -
  have "wf_json (JObj r) \<Longrightarrow> wf_json (JObj (AList.update k (JBool b) r))"
    using distinct_update [of r k "JBool b"] by (induction r) (auto simp: update_keys)
  then show "wf_row r \<Longrightarrow> wf_row (AList.update k (JBool b) r)" by (simp add: wf_row_def)
qed

lemma flip_row_wf: "wf_row r \<Longrightarrow> wf_row (flip_row i r)"
  by (simp add: flip_row_def update_wf)

lemma obs_json_wf: "wf_row (obs_json ob)"
  by (simp add: wf_row_def obs_json_def or_null_def split: option.split)

definition memory_ok :: "memory_storage \<Rightarrow> bool" where
  "memory_ok s \<longleftrightarrow> list_all wf_row (ms_rows s)"

interpretation mem_store: pact_storage memory_append memory_loadPending memory_markReconciled ms_rows memory_ok
proof
  fix s r i
  assume ok: "memory_ok s"
  show "memory_ok (memory_append r s)" if "wf_row r"
    using ok that by (simp add: memory_ok_def memory_append_def memory_persist_def)
  show "ms_rows (memory_append r s) = ms_rows s @ [r]" if "wf_row r"
    by (simp add: memory_append_def memory_persist_def)
  show "memory_ok (memory_markReconciled i s)"
    using ok by (auto simp: memory_ok_def memory_markReconciled_def memory_persist_def list_all_iff flip_row_wf)
  show "ms_rows (memory_markReconciled i s) = List.map (flip_row i) (ms_rows s)"
    using flip_row_idle [of i "ms_rows s"] by (simp add: memory_markReconciled_def memory_persist_def)
  show "memory_loadPending s = filter row_pending (ms_rows s)"
    by (simp add: memory_loadPending_def)
qed

text \<open>Written whole, a row is a line of its own that reads back as the row.\<close>

lemma escape_no_newline: "CHR 0x0A \<notin> set (escape_char c)"
proof -
  have hex: "n < 16 \<Longrightarrow> hex_char n \<noteq> CHR 0x0A" for n
  proof -
    have "list_all (\<lambda>n. hex_char n \<noteq> CHR 0x0A) [0..<16]" by code_simp
    then show "n < 16 \<Longrightarrow> ?thesis" by (simp add: list_all_iff)
  qed
  have "(of_char c :: nat) mod 16 < 16" by simp
  moreover have "(of_char c :: nat) < 32 \<Longrightarrow> (of_char c :: nat) div 16 < 16" by (simp add: less_mult_imp_div_less)
  moreover have "c = CHR 0x0A \<Longrightarrow> (of_char c :: nat) = 10" by simp
  ultimately show ?thesis using hex [of "of_char c div 16"] hex [of "of_char c mod 16"]
    by (auto simp: escape_char_def Let_def)
qed

lemma quote_no_newline: "CHR 0x0A \<notin> set (quote s)"
  using escape_no_newline by (auto simp: quote_def)

lemma join_no_newline: "(\<forall>w \<in> set ws. CHR 0x0A \<notin> set w) \<Longrightarrow> CHR 0x0A \<notin> set (join_with '','' ws)"
  by (induction "'',''" ws rule: join_with.induct) auto

lemma stringify_no_newline: "CHR 0x0A \<notin> set (stringify v)"
proof (induction v rule: stringify.induct)
  case (5 vs)
  then show ?case using join_no_newline [of "List.map stringify vs"] by auto
next
  case (6 kvs)
  have "CHR 0x0A \<notin> set (quote k @ '':'' @ stringify v)" if "(k, v) \<in> set kvs" for k v
    using 6 [OF that refl] quote_no_newline by auto
  then show ?case using join_no_newline [of "List.map (\<lambda>(k, v). quote k @ '':'' @ stringify v) kvs"] by fastforce
qed (auto simp: string_of_int_no_newline quote_no_newline)

lemma read_line_row:
  assumes "wf_row r"
  shows "read_line (stringify (JObj r)) = [r]"
proof -
  have "trim (stringify (JObj r)) = stringify (JObj r)" "stringify (JObj r) \<noteq> []"
    by (simp_all add: trim_def is_space_def)
  then show ?thesis using parse_stringify [of "JObj r"] assms by (simp add: read_line_def wf_row_def del: stringify.simps)
qed

definition lines_text :: "payload list \<Rightarrow> string" where
  "lines_text rs = concat (List.map line_text rs)"

lemma readAll_lines: "list_all wf_row rs \<Longrightarrow> readAll (Some (lines_text rs)) = rs"
proof (induction rs)
  case Nil
  then show ?case by (simp add: readAll_def lines_text_def read_line_def trim_def)
next
  case (Cons r rs)
  then have "split_on (CHR 0x0A) (lines_text (r # rs)) = stringify (JObj r) # split_on (CHR 0x0A) (lines_text rs)"
    using split_on_append [OF stringify_no_newline] by (simp add: lines_text_def line_text_def del: stringify.simps)
  with Cons show ?case by (simp add: readAll_def read_line_row del: stringify.simps)
qed

definition fs_ok :: "jsonl \<Rightarrow> bool" where
  "fs_ok f \<longleftrightarrow> list_all wf_row (readAll f) \<and> f \<in> {None, Some (lines_text (readAll f))}"

lemma fs_ok_lines: "list_all wf_row rs \<Longrightarrow> fs_ok (Some (lines_text rs))"
  by (simp add: fs_ok_def readAll_lines)

lemma fs_append_lines: "fs_ok f \<Longrightarrow> fs_append r f = Some (lines_text (readAll f @ [r]))"
proof -
  assume "fs_ok f"
  then consider "f = None" | "f = Some (lines_text (readAll f))" by (auto simp: fs_ok_def)
  then show ?thesis
  proof cases
    case 1
    then show ?thesis by (simp add: fs_append_def lines_text_def readAll_def)
  next
    case 2
    then have "fs_append r f = Some (lines_text (readAll f) @ line_text r)" by (metis fs_append_def option.simps(5))
    then show ?thesis by (simp add: lines_text_def)
  qed
qed

lemma join_lines:
  "ws \<noteq> [] \<Longrightarrow> join_with [CHR 0x0A] ws @ [CHR 0x0A] = concat (List.map (\<lambda>w. w @ [CHR 0x0A]) ws)"
  by (induction "[CHR 0x0A]" ws rule: join_with.induct) auto

lemma fs_mark_lines:
  assumes "fs_ok f"
  shows "fs_markReconciled i f = (if flips i (readAll f) then Some (lines_text (List.map (flip_row i) (readAll f))) else f)"
proof -
  have "readAll f \<noteq> []" if "flips i (readAll f)" using that by (auto simp: flips_def)
  then show ?thesis
    using join_lines [of "List.map (\<lambda>r. stringify (JObj (flip_row i r))) (readAll f)"]
    by (simp add: fs_markReconciled_def Let_def lines_text_def line_text_def [abs_def] comp_def)
qed

lemma flip_rows_wf: "list_all wf_row rs \<Longrightarrow> list_all wf_row (List.map (flip_row i) rs)"
  by (simp add: list_all_iff flip_row_wf)

interpretation fs_store: pact_storage fs_append fs_loadPending fs_markReconciled readAll fs_ok
proof
  fix f r i
  assume ok: "fs_ok f"
  then have wf: "list_all wf_row (readAll f)" by (simp add: fs_ok_def)
  show "fs_ok (fs_append r f)" if "wf_row r"
    using fs_append_lines [OF ok] wf that fs_ok_lines [of "readAll f @ [r]"] by simp
  show "readAll (fs_append r f) = readAll f @ [r]" if "wf_row r"
    using fs_append_lines [OF ok] wf that readAll_lines [of "readAll f @ [r]"] by simp
  show "fs_ok (fs_markReconciled i f)"
    using fs_mark_lines [OF ok] ok fs_ok_lines [OF flip_rows_wf [OF wf]] by simp
  show "readAll (fs_markReconciled i f) = List.map (flip_row i) (readAll f)"
    using fs_mark_lines [OF ok] readAll_lines [OF flip_rows_wf [OF wf]] flip_row_idle by simp
  show "fs_loadPending f = filter row_pending (readAll f)"
    by (simp add: fs_loadPending_def)
qed

end
