(* ===== verification/SdkReconcile.thy ===== *)
theory SdkReconcile
  imports SdkStorage
begin

text \<open>
  Reconciliation of covered calls in the SDK: the sink \<open>recordSettled\<close> of \<open>factory.ts\<close>, the poller of
  \<open>indexer-poller.ts\<close> with its snapshot and its running flag, and the settled calls a webhook brings. The
  sink is written over the operations of a \<open>pact_storage\<close>; the lemmas are proved once in the locale and
  hold of the memory store and of the JSONL file.
\<close>

section \<open>Settled calls\<close>

text \<open>
  What the indexer's rows and the webhook's calls are turned into. Fields are taken over unchecked;
  \<open>settledAt\<close> is the text the \<open>Date\<close> is built from.
\<close>

record notification =
  nt_callId :: "json option"
  nt_slug :: "json option"
  nt_premium :: int
  nt_refund :: int
  nt_breach :: bool
  nt_settledAt :: "json option"
  nt_txSignature :: "json option"

definition notice_of :: "json \<Rightarrow> notification" where
  "notice_of c = (let g = js_member (Some c) in
     \<lparr>nt_callId = g ''callId'', nt_slug = g ''endpointSlug'', nt_premium = safeBig (g ''premiumLamports''),
      nt_refund = safeBig (g ''refundLamports''), nt_breach = js_truthy (g ''breach''), nt_settledAt = g ''settledAt'',
      nt_txSignature = g ''signature''\<rparr>)"

text \<open>Reading a property of \<open>null\<close> throws, which ends the loop over the calls.\<close>

definition notices :: "json list \<Rightarrow> notification list" where
  "notices cs = List.map notice_of (takeWhile (\<lambda>c. c \<noteq> JNull) cs)"

datatype sdk_event =
    Billed (ev_callId: "json option") "json option" int "json option" "json option"
  | Refund (ev_callId: "json option") "json option" int "json option" "json option"

definition settled_events :: "notification \<Rightarrow> sdk_event list" where
  "settled_events n =
     (if nt_premium n > 0 then [Billed (nt_callId n) (nt_slug n) (nt_premium n) (nt_settledAt n) (nt_txSignature n)] else []) @
     (if nt_breach n \<and> nt_refund n > 0 then [Refund (nt_callId n) (nt_slug n) (nt_refund n) (nt_settledAt n) (nt_txSignature n)] else [])"

definition recordSettled ::
    "('s \<Rightarrow> payload list) \<Rightarrow> (json option \<Rightarrow> 's \<Rightarrow> 's) \<Rightarrow> notification \<Rightarrow> 's \<times> sdk_event list \<Rightarrow> 's \<times> sdk_event list" where
  "recordSettled load mark n st =
     (if \<not> list_ex (row_is (nt_callId n)) (load (fst st)) then st
      else (mark (nt_callId n) (fst st), snd st @ settled_events n))"

section \<open>The client's steps\<close>

text \<open>\<open>cl_poll\<close> is the running flag with the pass's snapshot of pending call ids.\<close>

record 's sdk_client =
  cl_store :: 's
  cl_events :: "sdk_event list"
  cl_poll :: "json option list option"

datatype indexer_answer = PollFailed | PollStatus | PollRows json

text \<open>
  \<open>Observe\<close>: a covered call is appended. \<open>FlushStart\<close> runs \<open>flush\<close> up to its request, \<open>FlushEnd\<close> is the
  request's answer; \<open>Webhook\<close> is the calls of an accepted delivery.
\<close>

datatype sdk_input = Observe observation | FlushStart | FlushEnd indexer_answer | Webhook "json list"

definition flush_start :: "('s \<Rightarrow> payload list) \<Rightarrow> 's sdk_client \<Rightarrow> 's sdk_client" where
  "flush_start load st =
     (if cl_poll st \<noteq> None then st
      else if load (cl_store st) = [] then st
      else st\<lparr>cl_poll := Some (List.map (\<lambda>r. get_prop r ''callId'') (load (cl_store st)))\<rparr>)"

definition in_snapshot :: "json option list \<Rightarrow> notification \<Rightarrow> bool" where
  "in_snapshot ids n \<longleftrightarrow> list_ex (\<lambda>i. same_id i (nt_callId n)) ids"

definition flush_end ::
    "('s \<Rightarrow> payload list) \<Rightarrow> (json option \<Rightarrow> 's \<Rightarrow> 's) \<Rightarrow> indexer_answer \<Rightarrow> 's sdk_client \<Rightarrow> 's sdk_client" where
  "flush_end load mark answer st =
     (case cl_poll st of None \<Rightarrow> st
      | Some ids \<Rightarrow>
          (case answer of
             PollRows (JArr rows) \<Rightarrow>
               (case foldl (\<lambda>s n. recordSettled load mark n s) (cl_store st, cl_events st) (filter (in_snapshot ids) (notices rows)) of
                  (s, es) \<Rightarrow> st\<lparr>cl_store := s, cl_events := es, cl_poll := None\<rparr>)
           | _ \<Rightarrow> st\<lparr>cl_poll := None\<rparr>))"

definition sdk_step ::
    "(payload \<Rightarrow> 's \<Rightarrow> 's) \<Rightarrow> ('s \<Rightarrow> payload list) \<Rightarrow> (json option \<Rightarrow> 's \<Rightarrow> 's) \<Rightarrow> 's sdk_client \<Rightarrow> sdk_input \<Rightarrow> 's sdk_client" where
  "sdk_step app load mark st inp =
     (case inp of
        Observe ob \<Rightarrow> st\<lparr>cl_store := app (obs_json ob) (cl_store st)\<rparr>
      | FlushStart \<Rightarrow> flush_start load st
      | FlushEnd answer \<Rightarrow> flush_end load mark answer st
      | Webhook calls \<Rightarrow>
          (case foldl (\<lambda>s n. recordSettled load mark n s) (cl_store st, cl_events st) (notices calls) of
             (s, es) \<Rightarrow> st\<lparr>cl_store := s, cl_events := es\<rparr>))"

definition sdk_start :: "'s \<Rightarrow> 's sdk_client" where
  "sdk_start store = \<lparr>cl_store = store, cl_events = [], cl_poll = None\<rparr>"

section \<open>At most one settlement per call\<close>

definition observed_ids :: "sdk_input list \<Rightarrow> string list" where
  "observed_ids inps = concat (List.map (\<lambda>i. case i of Observe ob \<Rightarrow> [ob_callId ob] | _ \<Rightarrow> []) inps)"

definition received :: "sdk_input list \<Rightarrow> notification list" where
  "received inps = concat (List.map (\<lambda>i. case i of Webhook cs \<Rightarrow> notices cs | FlushEnd (PollRows (JArr rs)) \<Rightarrow> notices rs | _ \<Rightarrow> []) inps)"

definition events_of :: "string \<Rightarrow> sdk_event list \<Rightarrow> sdk_event list" where
  "events_of i es = filter (\<lambda>e. ev_callId e = Some (JStr i)) es"

definition row_id :: "payload \<Rightarrow> string option" where
  "row_id r = (case get_prop r ''callId'' of Some (JStr s) \<Rightarrow> Some s | _ \<Rightarrow> None)"

text \<open>
  The invariant over the rows: every row carries the id of an observed call, no id occurs twice, a call
  whose row is pending has had no event, one whose row is reconciled has had exactly the events of one of
  the notifications received, and there are no other events.
\<close>

definition settled_once :: "notification list \<Rightarrow> payload list \<Rightarrow> sdk_event list \<Rightarrow> bool" where
  "settled_once ns rs es \<longleftrightarrow>
     list_all (\<lambda>r. row_id r \<noteq> None) rs \<and> distinct (List.map row_id rs) \<and>
     (\<forall>r i. r \<in> set rs \<longrightarrow> row_id r = Some i \<longrightarrow>
        (if row_pending r then events_of i es = [] else \<exists>n \<in> set ns. nt_callId n = Some (JStr i) \<and> events_of i es = settled_events n)) \<and>
     (\<forall>i. Some i \<notin> set (List.map row_id rs) \<longrightarrow> events_of i es = [])"

lemma row_is_id: "row_id r = Some i \<Longrightarrow> row_is k r \<longleftrightarrow> k = Some (JStr i)"
  by (auto simp: row_id_def row_is_def same_id_def split: option.split_asm json.split_asm)

lemma get_update_other: "k \<noteq> k' \<Longrightarrow> get_prop (AList.update k v r) k' = get_prop r k'"
  by (simp add: get_prop_def update_conv')

lemma row_id_flip: "row_id (flip_row k r) = row_id r"
  by (simp add: row_id_def flip_row_def get_update_other)

lemma row_pending_flip: "row_pending (flip_row k r) \<longleftrightarrow> row_pending r \<and> \<not> row_is k r"
  by (auto simp: flip_row_def row_pending_def get_prop_def update_conv')

lemma obs_json_row: "row_id (obs_json ob) = Some (ob_callId ob)" "row_pending (obs_json ob)"
  by (simp_all add: row_id_def obs_json_def get_prop_def row_pending_def)

lemma events_of_append: "events_of i (es @ fs) = events_of i es @ events_of i fs"
  by (simp add: events_of_def)

lemma events_of_settled:
  "events_of i (settled_events n) = (if nt_callId n = Some (JStr i) then settled_events n else [])"
  by (simp add: events_of_def settled_events_def)

lemma settled_once_mono: "settled_once ns rs es \<Longrightarrow> set ns \<subseteq> set ns' \<Longrightarrow> settled_once ns' rs es"
  unfolding settled_once_def by (metis subsetD)

lemma settled_once_mark:
  assumes "settled_once ns rs es" "n \<in> set ns" "list_ex (row_is (nt_callId n)) (filter row_pending rs)"
  shows "settled_once ns (List.map (flip_row (nt_callId n)) rs) (es @ settled_events n)"
proof -
  obtain r where r: "r \<in> set rs" "row_pending r" "row_is (nt_callId n) r" using assms(3) by (auto simp: list_ex_iff)
  then obtain i where i: "row_id r = Some i" using assms(1) by (auto simp: settled_once_def list_all_iff)
  with r have n: "nt_callId n = Some (JStr i)" by (simp add: row_is_id)
  have none: "events_of i es = []" using assms(1) r(1,2) i by (auto simp: settled_once_def)
  have ids: "row_id \<circ> flip_row k = row_id" for k by (simp add: fun_eq_iff row_id_flip)
  have "if row_pending (flip_row (nt_callId n) q) then events_of j (es @ settled_events n) = []
      else \<exists>m \<in> set ns. nt_callId m = Some (JStr j) \<and> events_of j (es @ settled_events n) = settled_events m"
    if q: "q \<in> set rs" "row_id q = Some j" for q j
  proof (cases "j = i")
    case True
    then have "\<not> row_pending (flip_row (nt_callId n) q)" using q n by (simp add: row_pending_flip row_is_id)
    then show ?thesis using True n none assms(2) by (auto simp: events_of_append events_of_settled)
  next
    case False
    then have "\<not> row_is (nt_callId n) q" using q n by (simp add: row_is_id)
    then show ?thesis using False q n assms(1) unfolding settled_once_def
      by (simp add: row_pending_flip events_of_append events_of_settled)
  qed
  moreover have "events_of j (es @ settled_events n) = []" if "Some j \<notin> set (List.map row_id rs)" for j
  proof -
    have "Some i \<in> set (List.map row_id rs)" using r(1) i by (metis image_eqI image_set)
    then have "j \<noteq> i" using that by blast
    then show ?thesis using that n assms(1) by (simp add: settled_once_def events_of_append events_of_settled)
  qed
  moreover have "list_all (\<lambda>r. row_id r \<noteq> None) (List.map (flip_row (nt_callId n)) rs)"
      "distinct (List.map row_id (List.map (flip_row (nt_callId n)) rs))"
      "set (List.map row_id (List.map (flip_row (nt_callId n)) rs)) = set (List.map row_id rs)"
    using assms(1) ids by (simp_all add: settled_once_def list_all_iff row_id_flip image_image)
  ultimately show ?thesis unfolding settled_once_def by (force simp: row_id_flip)
qed

lemma settled_once_observe:
  assumes "settled_once ns rs es" "Some (ob_callId ob) \<notin> set (List.map row_id rs)"
  shows "settled_once ns (rs @ [obs_json ob]) es"
  using assms unfolding settled_once_def by (auto simp: obs_json_row list_all_iff)

context pact_storage
begin

definition client_ok :: "sdk_input list \<Rightarrow> 's sdk_client \<Rightarrow> bool" where
  "client_ok inps st \<longleftrightarrow> ok (cl_store st) \<and> settled_once (received inps) (rows (cl_store st)) (cl_events st) \<and>
     set (List.map row_id (rows (cl_store st))) = Some ` set (observed_ids inps)"

lemma record_step:
  assumes "ok s" "settled_once ns (rows s) es" "n \<in> set ns"
  shows "let (s', es') = recordSettled load_op mark_op n (s, es) in
    ok s' \<and> settled_once ns (rows s') es' \<and> List.map row_id (rows s') = List.map row_id (rows s)"
  using assms settled_once_mark [OF assms(2,3)]
  by (simp add: recordSettled_def load_pending ok_mark rows_mark row_id_flip)

lemma record_all:
  assumes "ok s" "settled_once ns (rows s) es" "set qs \<subseteq> set ns"
  shows "let (s', es') = foldl (\<lambda>s n. recordSettled load_op mark_op n s) (s, es) qs in
    ok s' \<and> settled_once ns (rows s') es' \<and> List.map row_id (rows s') = List.map row_id (rows s)"
  using assms
proof (induction qs arbitrary: s es)
  case (Cons q qs)
  obtain s1 es1 where q: "recordSettled load_op mark_op q (s, es) = (s1, es1)" by fastforce
  with record_step [of s ns es q] Cons.prems
  have "ok s1" "settled_once ns (rows s1) es1" "List.map row_id (rows s1) = List.map row_id (rows s)" by auto
  with Cons.IH [of s1 es1] Cons.prems q show ?case by auto
qed simp

lemma received_snoc: "set (received inps) \<subseteq> set (received (inps @ [i]))"
  by (simp add: received_def)

lemma client_records:
  assumes "client_ok inps st" "observed_ids inps' = observed_ids inps" "set (received inps) \<subseteq> set (received inps')"
    and "set qs \<subseteq> set (received inps')"
    and "foldl (\<lambda>s n. recordSettled load_op mark_op n s) (cl_store st, cl_events st) qs = (s', es')"
  shows "client_ok inps' (st\<lparr>cl_store := s', cl_events := es', cl_poll := p\<rparr>)"
proof -
  have "settled_once (received inps') (rows (cl_store st)) (cl_events st)"
    using assms(1,3) settled_once_mono by (auto simp: client_ok_def)
  from record_all [OF _ this assms(4)] assms(1,5)
  have "ok s'" "settled_once (received inps') (rows s') es'" and m: "List.map row_id (rows s') = List.map row_id (rows (cl_store st))"
    by (simp_all add: client_ok_def)
  moreover have "row_id ` set (rows s') = row_id ` set (rows (cl_store st))" using m by (metis list.set_map)
  ultimately show ?thesis using assms(1,2) by (simp add: client_ok_def)
qed

lemma client_idle:
  assumes "client_ok inps st" "observed_ids inps' = observed_ids inps" "set (received inps) \<subseteq> set (received inps')"
  shows "client_ok inps' (st\<lparr>cl_poll := p\<rparr>)"
  using client_records [OF assms, of "[]" "cl_store st" "cl_events st" p] by simp

lemma client_observe:
  assumes "client_ok inps st" "distinct (observed_ids (inps @ [Observe ob]))"
  shows "client_ok (inps @ [Observe ob]) (st\<lparr>cl_store := append_op (obs_json ob) (cl_store st)\<rparr>)"
proof -
  have st: "ok (cl_store st)" "settled_once (received inps) (rows (cl_store st)) (cl_events st)"
    "set (List.map row_id (rows (cl_store st))) = Some ` set (observed_ids inps)" using assms(1) by (simp_all add: client_ok_def)
  have "Some (ob_callId ob) \<notin> set (List.map row_id (rows (cl_store st)))"
    using assms(2) unfolding st(3) by (auto simp: observed_ids_def)
  from settled_once_observe [OF st(2) this] st(1,3) show ?thesis
    by (simp add: client_ok_def ok_append rows_append obs_json_wf obs_json_row observed_ids_def received_def)
qed

lemma client_step:
  assumes "client_ok inps st" "distinct (observed_ids (inps @ [inp]))"
  shows "client_ok (inps @ [inp]) (sdk_step append_op load_op mark_op st inp)"
proof (cases inp)
  case (Observe ob)
  then show ?thesis using client_observe assms by (simp add: sdk_step_def)
next
  case FlushStart
  have same: "observed_ids (inps @ [FlushStart]) = observed_ids inps" by (simp add: observed_ids_def)
  obtain p where "flush_start load_op st = st\<lparr>cl_poll := p\<rparr>"
  proof (cases "cl_poll st \<noteq> None \<or> load_op (cl_store st) = []")
    case True
    then have "flush_start load_op st = st\<lparr>cl_poll := cl_poll st\<rparr>" by (auto simp: flush_start_def)
    then show ?thesis by (rule that)
  next
    case False
    then show ?thesis using that by (simp add: flush_start_def)
  qed
  with client_idle [OF assms(1) same received_snoc, of p] show ?thesis by (simp add: FlushStart sdk_step_def)
next
  case (FlushEnd answer)
  have same: "observed_ids (inps @ [FlushEnd answer]) = observed_ids inps" by (simp add: observed_ids_def)
  show ?thesis
  proof (cases "\<exists>ids rs. cl_poll st = Some ids \<and> answer = PollRows (JArr rs)")
    case True
    then obtain ids rs where a: "cl_poll st = Some ids" "answer = PollRows (JArr rs)" by blast
    obtain s' es' where f: "foldl (\<lambda>s n. recordSettled load_op mark_op n s) (cl_store st, cl_events st)
        (filter (in_snapshot ids) (notices rs)) = (s', es')" by fastforce
    have "set (filter (in_snapshot ids) (notices rs)) \<subseteq> set (received (inps @ [FlushEnd answer]))"
      using a by (auto simp: received_def)
    from client_records [OF assms(1) same received_snoc this f] a f show ?thesis
      by (simp add: FlushEnd sdk_step_def flush_end_def)
  next
    case False
    then have "flush_end load_op mark_op answer st = st\<lparr>cl_poll := None\<rparr>"
      by (cases "cl_poll st"; cases answer) (auto simp: flush_end_def split: json.splits)
    then show ?thesis using client_idle [OF assms(1) same received_snoc] by (simp add: FlushEnd sdk_step_def)
  qed
next
  case (Webhook calls)
  have same: "observed_ids (inps @ [Webhook calls]) = observed_ids inps" by (simp add: observed_ids_def)
  obtain s' es' where f: "foldl (\<lambda>s n. recordSettled load_op mark_op n s) (cl_store st, cl_events st) (notices calls) = (s', es')"
    by fastforce
  have "set (notices calls) \<subseteq> set (received (inps @ [Webhook calls]))" by (auto simp: received_def)
  from client_records [OF assms(1) same received_snoc this f, of "cl_poll st"] f show ?thesis
    by (simp add: Webhook sdk_step_def)
qed

lemma client_run:
  assumes "ok s0" "rows s0 = []" "distinct (observed_ids inps)"
  shows "client_ok inps (foldl (sdk_step append_op load_op mark_op) (sdk_start s0) inps)"
  using assms(3)
proof (induction inps rule: rev_induct)
  case Nil
  then show ?case using assms by (simp add: client_ok_def sdk_start_def observed_ids_def settled_once_def events_of_def)
next
  case (snoc i inps)
  then show ?case using client_step by (simp add: observed_ids_def)
qed

lemma run_settles_once:
  assumes "ok s0" "rows s0 = []" "distinct (observed_ids inps)"
    and "st = foldl (sdk_step append_op load_op mark_op) (sdk_start s0) inps"
  shows "if i \<in> set (observed_ids inps) \<and> \<not> list_ex (row_is (Some (JStr i))) (load_op (cl_store st))
     then \<exists>n \<in> set (received inps). nt_callId n = Some (JStr i) \<and> events_of i (cl_events st) = settled_events n
     else events_of i (cl_events st) = []"
proof -
  have c: "ok (cl_store st)" "settled_once (received inps) (rows (cl_store st)) (cl_events st)"
    "set (List.map row_id (rows (cl_store st))) = Some ` set (observed_ids inps)"
    using client_run [OF assms(1-3)] assms(4) by (simp_all add: client_ok_def)
  show ?thesis
  proof (cases "i \<in> set (observed_ids inps)")
    case False
    then have "Some i \<notin> set (List.map row_id (rows (cl_store st)))" unfolding c(3) by auto
    then show ?thesis using c(2) False by (auto simp: settled_once_def)
  next
    case True
    then have "Some i \<in> set (List.map row_id (rows (cl_store st)))" unfolding c(3) by auto
    then obtain r where r: "r \<in> set (rows (cl_store st))" "row_id r = Some i" by auto
    have one: "q = r" if "q \<in> set (rows (cl_store st))" "row_id q = Some i" for q
    proof -
      have "inj_on row_id (set (rows (cl_store st)))" using c(2) by (simp add: settled_once_def distinct_map)
      then show ?thesis using that r by (simp add: inj_on_def)
    qed
    have id: "q \<in> set (rows (cl_store st)) \<Longrightarrow> row_is (Some (JStr i)) q \<longleftrightarrow> row_id q = Some i" for q
      using c(2) by (auto simp: settled_once_def list_all_iff row_is_id)
    have "list_ex (row_is (Some (JStr i))) (load_op (cl_store st)) \<longleftrightarrow> row_pending r"
    proof
      assume "list_ex (row_is (Some (JStr i))) (load_op (cl_store st))"
      then obtain q where "q \<in> set (rows (cl_store st))" "row_pending q" "row_is (Some (JStr i)) q"
        unfolding load_pending [OF c(1)] list_ex_iff by auto
      then show "row_pending r" using one id by blast
    next
      assume "row_pending r"
      with r id [OF r(1)] show "list_ex (row_is (Some (JStr i))) (load_op (cl_store st))"
        unfolding load_pending [OF c(1)] list_ex_iff by auto
    qed
    moreover have "if row_pending r then events_of i (cl_events st) = []
        else \<exists>n \<in> set (received inps). nt_callId n = Some (JStr i) \<and> events_of i (cl_events st) = settled_events n"
      using c(2) r unfolding settled_once_def by blast
    ultimately show ?thesis using True by simp
  qed
qed

text \<open>A notification leaves its call reconciled, and nothing makes it pending again.\<close>

lemma record_pending:
  assumes "ok s"
  shows "let (s', es') = recordSettled load_op mark_op n (s, es) in
    ok s' \<and> \<not> list_ex (row_is (nt_callId n)) (load_op s') \<and> (\<forall>k. list_ex (row_is k) (load_op s') \<longrightarrow> list_ex (row_is k) (load_op s))"
proof (cases "list_ex (row_is (nt_callId n)) (load_op s)")
  case False
  then show ?thesis using assms by (simp add: recordSettled_def)
next
  case True
  have same: "row_is k (flip_row j r) \<longleftrightarrow> row_is k r" for j k r
    by (simp add: row_is_def flip_row_def get_update_other)
  have load: "load_op (mark_op (nt_callId n) s) = List.map (flip_row (nt_callId n)) (filter (\<lambda>r. row_pending r \<and> \<not> row_is (nt_callId n) r) (rows s))"
    using assms by (simp add: load_pending ok_mark rows_mark filter_map comp_def row_pending_flip)
  then show ?thesis using True assms by (auto simp: recordSettled_def ok_mark load list_ex_iff same load_pending)
qed

lemma record_all_pending:
  assumes "ok s"
  shows "let (s', es') = foldl (\<lambda>s n. recordSettled load_op mark_op n s) (s, es) qs in
    ok s' \<and> (\<forall>n \<in> set qs. \<not> list_ex (row_is (nt_callId n)) (load_op s')) \<and> (\<forall>k. list_ex (row_is k) (load_op s') \<longrightarrow> list_ex (row_is k) (load_op s))"
  using assms
proof (induction qs arbitrary: s es)
  case (Cons q qs)
  obtain s1 es1 where q: "recordSettled load_op mark_op q (s, es) = (s1, es1)" by fastforce
  with record_pending [OF Cons.prems, of q es]
  have s1: "ok s1" "\<not> list_ex (row_is (nt_callId q)) (load_op s1)" "\<forall>k. list_ex (row_is k) (load_op s1) \<longrightarrow> list_ex (row_is k) (load_op s)"
    by simp_all
  obtain s2 es2 where f: "foldl (\<lambda>s n. recordSettled load_op mark_op n s) (s1, es1) qs = (s2, es2)" by fastforce
  with Cons.IH [OF s1(1), of es1] s1 q show ?case by auto
qed simp

lemma webhook_settles:
  assumes "client_ok inps st" "n \<in> set (notices cs)"
  shows "\<not> list_ex (row_is (nt_callId n)) (load_op (cl_store (sdk_step append_op load_op mark_op st (Webhook cs))))"
  using record_all_pending [of "cl_store st" "cl_events st" "notices cs"] assms
  by (auto simp: sdk_step_def client_ok_def split: prod.splits)

lemma step_stays_settled:
  assumes "client_ok inps st" "i \<notin> set (observed_ids [inp])"
    and "\<not> list_ex (row_is (Some (JStr i))) (load_op (cl_store st))"
  shows "\<not> list_ex (row_is (Some (JStr i))) (load_op (cl_store (sdk_step append_op load_op mark_op st inp)))"
proof -
  have ok: "ok (cl_store st)" using assms(1) by (simp add: client_ok_def)
  note records = record_all_pending [OF ok, of "cl_events st"]
  show ?thesis
  proof (cases inp)
    case (Observe ob)
    have "\<not> row_is (Some (JStr i)) (obs_json ob)"
      using assms(2) by (simp add: Observe observed_ids_def row_is_id obs_json_row)
    then show ?thesis using assms(3) ok
      by (auto simp: Observe sdk_step_def load_pending ok_append rows_append obs_json_wf list_ex_iff)
  next
    case FlushStart
    have "cl_store (flush_start load_op st) = cl_store st" by (simp add: flush_start_def)
    then show ?thesis using assms(3) by (simp add: FlushStart sdk_step_def)
  next
    case (FlushEnd answer)
    show ?thesis
    proof (cases "\<exists>ids rs. cl_poll st = Some ids \<and> answer = PollRows (JArr rs)")
      case True
      then obtain ids rs where a: "cl_poll st = Some ids" "answer = PollRows (JArr rs)" by blast
      show ?thesis using records [of "filter (in_snapshot ids) (notices rs)"] a assms(3)
        by (auto simp: FlushEnd sdk_step_def flush_end_def split: prod.splits)
    next
      case False
      then have "cl_store (flush_end load_op mark_op answer st) = cl_store st"
        by (cases "cl_poll st"; cases answer) (auto simp: flush_end_def split: json.splits)
      then show ?thesis using assms(3) by (simp add: FlushEnd sdk_step_def)
    qed
  next
    case (Webhook calls)
    show ?thesis using records [of "notices calls"] assms(3) by (auto simp: Webhook sdk_step_def split: prod.splits)
  qed
qed

lemma run_settled:
  assumes "ok s0" "rows s0 = []" "distinct (observed_ids (inps @ Webhook calls # later))"
    and "n \<in> set (notices calls)" "nt_callId n = Some (JStr i)" "i \<in> set (observed_ids inps)"
    and "st = foldl (sdk_step append_op load_op mark_op) (sdk_start s0) (inps @ Webhook calls # later)"
  shows "\<not> list_ex (row_is (Some (JStr i))) (load_op (cl_store st)) \<and>
    (\<exists>m \<in> set (received (inps @ Webhook calls # later)). nt_callId m = Some (JStr i) \<and> events_of i (cl_events st) = settled_events m)"
proof -
  let ?run = "\<lambda>xs. foldl (sdk_step append_op load_op mark_op) (sdk_start s0) xs"
  have ids: "observed_ids (xs @ ys) = observed_ids xs @ observed_ids ys" "observed_ids (Webhook calls # xs) = observed_ids xs" for xs ys
    by (simp_all add: observed_ids_def)
  have "distinct (observed_ids (inps @ Webhook calls # xs)) \<Longrightarrow>
      \<not> list_ex (row_is (Some (JStr i))) (load_op (cl_store (?run (inps @ Webhook calls # xs))))" for xs
  proof (induction xs rule: rev_induct)
    case Nil
    then have "client_ok inps (?run inps)" by (intro client_run [OF assms(1,2)]) (simp add: ids)
    from webhook_settles [OF this assms(4)] assms(5) show ?case by simp
  next
    case (snoc x xs)
    then have d: "distinct (observed_ids (inps @ Webhook calls # xs))" "i \<notin> set (observed_ids [x])"
      using assms(6) by (auto simp: ids)
    from step_stays_settled [OF client_run [OF assms(1,2) d(1)] d(2) snoc.IH [OF d(1)]] show ?case by simp
  qed
  then have "\<not> list_ex (row_is (Some (JStr i))) (load_op (cl_store st))" using assms(3,7) by blast
  moreover have "i \<in> set (observed_ids (inps @ Webhook calls # later))" using assms(6) by (simp add: ids)
  ultimately show ?thesis using run_settles_once [OF assms(1-3,7), of i] by simp
qed

end

section \<open>The two stores\<close>

definition run_fs :: "sdk_input list \<Rightarrow> jsonl sdk_client" where
  "run_fs inps = foldl (sdk_step fs_append fs_loadPending fs_markReconciled) (sdk_start None) inps"

definition run_memory :: "bool \<Rightarrow> (string \<Rightarrow> bool) \<Rightarrow> sdk_input list \<Rightarrow> memory_storage sdk_client" where
  "run_memory persistent accepts inps =
     foldl (sdk_step memory_append memory_loadPending memory_markReconciled) (sdk_start (memory_open persistent accepts None)) inps"

text \<open>What the application has been told of a call, by whether the store still holds it as pending.\<close>

definition told :: "sdk_input list \<Rightarrow> string \<Rightarrow> bool \<Rightarrow> sdk_event list \<Rightarrow> bool" where
  "told inps i pending es \<longleftrightarrow>
     (if i \<in> set (observed_ids inps) \<and> \<not> pending
      then \<exists>n \<in> set (received inps). nt_callId n = Some (JStr i) \<and> events_of i es = settled_events n
      else events_of i es = [])"

text \<open>
  C37: every covered call is settled at most once, however polls and webhooks interleave. After any
  sequence of covered calls with distinct ids, poll starts, poll answers and webhook deliveries, the
  application has seen no event of a call that is still pending or was never made, and of a reconciled
  call exactly the billed and refund events of one of the notifications received for it. This holds of
  the JSONL file and of the memory store.
\<close>

theorem calls_settle_once:
  assumes "distinct (observed_ids inps)"
  shows "told inps i (list_ex (row_is (Some (JStr i))) (fs_loadPending (cl_store (run_fs inps)))) (cl_events (run_fs inps)) \<and>
    told inps i (list_ex (row_is (Some (JStr i))) (memory_loadPending (cl_store (run_memory persistent accepts inps))))
      (cl_events (run_memory persistent accepts inps))"
proof
  have "fs_ok None" "readAll None = []" by (simp_all add: fs_ok_def readAll_def)
  from fs_store.run_settles_once [OF this assms refl, of i]
  show "told inps i (list_ex (row_is (Some (JStr i))) (fs_loadPending (cl_store (run_fs inps)))) (cl_events (run_fs inps))"
    by (simp add: told_def run_fs_def)
  have "memory_ok (memory_open persistent accepts None)" "ms_rows (memory_open persistent accepts None) = []"
    by (simp_all add: memory_ok_def memory_open_def)
  from mem_store.run_settles_once [OF this assms refl, of i]
  show "told inps i (list_ex (row_is (Some (JStr i))) (memory_loadPending (cl_store (run_memory persistent accepts inps))))
      (cl_events (run_memory persistent accepts inps))"
    by (simp add: told_def run_memory_def)
qed

definition demo_call :: json where
  "demo_call = JObj [(''callId'', JStr ''c1''), (''endpointSlug'', JStr ''helius''), (''premiumLamports'', JStr ''1000''),
     (''refundLamports'', JStr ''5000''), (''breach'', JBool True), (''settledAt'', JStr ''t''), (''signature'', JStr ''sig'')]"

definition demo_inputs :: "sdk_input list" where
  "demo_inputs = [Observe \<lparr>ob_callId = ''c1'', ob_agentPubkey = ''A'', ob_slug = ''helius'', ob_host = ''h'', ob_ts = ''t'', ob_premium = None,
       ob_refund = None, ob_outcome = Some ''server_error'', ob_breach = True\<rparr>,
     FlushStart, Webhook [demo_call], FlushEnd (PollRows (JArr [demo_call])), Webhook [demo_call]]"

lemma demo_inputs_facts:
  "observed_ids demo_inputs = [''c1'']" "received demo_inputs = replicate 3 (notice_of demo_call)"
  "\<not> list_ex (row_is (Some (JStr ''c1''))) (memory_loadPending (cl_store (run_memory False (\<lambda>_. False) demo_inputs)))"
  by code_simp+

theorem calls_settle_once_witness:
  "events_of ''c1'' (cl_events (run_memory False (\<lambda>_. False) demo_inputs)) = settled_events (notice_of demo_call)"
proof -
  have "distinct (observed_ids demo_inputs)" by (simp add: demo_inputs_facts)
  from calls_settle_once [OF this, of "''c1''" False "\<lambda>_. False", THEN conjunct2] demo_inputs_facts
  show ?thesis by (auto simp: told_def)
qed

text \<open>
  C38: a notification settles its call. Let the covered calls have distinct ids. When a webhook brings
  the settlement of a call made before, then, whatever polls, deliveries and calls came before and
  whatever come afterwards, the call is no longer pending, and the application has been told exactly
  the events of one of the notifications received for it. This holds of the JSONL file and of the
  memory store.
\<close>

theorem webhook_settles_its_call:
  assumes "distinct (observed_ids inps)" and "inps = before @ Webhook calls # later"
    and "n \<in> set (notices calls)" "nt_callId n = Some (JStr i)" "i \<in> set (observed_ids before)"
  shows "\<not> list_ex (row_is (Some (JStr i))) (fs_loadPending (cl_store (run_fs inps)))
    \<and> (\<exists>m \<in> set (received inps). nt_callId m = Some (JStr i) \<and> events_of i (cl_events (run_fs inps)) = settled_events m)
    \<and> \<not> list_ex (row_is (Some (JStr i))) (memory_loadPending (cl_store (run_memory persistent accepts inps)))
    \<and> (\<exists>m \<in> set (received inps). nt_callId m = Some (JStr i) \<and>
         events_of i (cl_events (run_memory persistent accepts inps)) = settled_events m)"
proof -
  have "fs_ok None" "readAll None = []" by (simp_all add: fs_ok_def readAll_def)
  note fs = fs_store.run_settled [OF this assms(1) [unfolded assms(2)] assms(3-5) refl]
  have "memory_ok (memory_open persistent accepts None)" "ms_rows (memory_open persistent accepts None) = []"
    by (simp_all add: memory_ok_def memory_open_def)
  note memory = mem_store.run_settled [OF this assms(1) [unfolded assms(2)] assms(3-5) refl]
  show ?thesis using fs memory by (simp add: run_fs_def run_memory_def assms(2))
qed

theorem webhook_settles_its_call_witness:
  "\<not> list_ex (row_is (Some (JStr ''c1''))) (fs_loadPending (cl_store (run_fs demo_inputs)))
    \<and> (\<exists>m \<in> set (received demo_inputs). events_of ''c1'' (cl_events (run_fs demo_inputs)) = settled_events m)"
proof -
  have d: "distinct (observed_ids demo_inputs)" by (simp add: demo_inputs_facts)
  have s: "demo_inputs = take 2 demo_inputs @ Webhook [demo_call] # drop 3 demo_inputs" by (simp add: demo_inputs_def)
  have n: "notice_of demo_call \<in> set (notices [demo_call])" by (simp add: notices_def demo_call_def)
  have c: "nt_callId (notice_of demo_call) = Some (JStr ''c1'')" by (simp add: demo_call_def notice_of_def Let_def)
  have "''c1'' \<in> set (observed_ids (take 2 demo_inputs))" by (simp add: demo_inputs_def observed_ids_def)
  from webhook_settles_its_call [OF d s n c this] show ?thesis by blast
qed

text \<open>
  A write torn after its first byte costs the next observation too: the line that is appended lands on
  the torn one, and neither can be read.
\<close>

theorem torn_write_loses_next_row:
  assumes "list_all wf_row rs"
  shows "readAll (fs_append r (Some (lines_text rs @ ''{''))) = rs"
proof -
  let ?s = "''{'' @ stringify (JObj r)"
  have "trim ?s = ?s" by (simp add: trim_def is_space_def)
  moreover have "parse_json ?s = None" by (simp add: parse_json_def is_ws_def numeral_eq_Suc)
  ultimately have none: "read_line ?s = []" by (simp add: read_line_def del: stringify.simps)
  have lines: "split_on (CHR 0x0A) (lines_text rs @ t) = List.map (\<lambda>r. stringify (JObj r)) rs @ split_on (CHR 0x0A) t" for t
    using split_on_append [OF stringify_no_newline] by (induction rs) (simp_all add: lines_text_def line_text_def del: stringify.simps)
  have "CHR 0x0A \<notin> set ?s" using stringify_no_newline [of "JObj r"] by simp
  then have "split_on (CHR 0x0A) (?s @ [CHR 0x0A]) = [?s, []]" using split_on_append [of "CHR 0x0A" ?s "[]"] by simp
  then have "readAll (fs_append r (Some (lines_text rs @ ''{''))) = concat (List.map (\<lambda>r. read_line (stringify (JObj r))) rs)"
    using none lines [of "?s @ [CHR 0x0A]"]
    by (simp add: readAll_def fs_append_def line_text_def comp_def read_line_def trim_def del: stringify.simps)
  moreover have "concat (List.map (\<lambda>r. read_line (stringify (JObj r))) rs) = rs"
    using assms by (induction rs) (simp_all add: read_line_row del: stringify.simps)
  ultimately show ?thesis by simp
qed

end
