(* ===== verification/SdkWebhook.thy ===== *)
theory SdkWebhook
  imports SdkReconcile RefundDelivery
begin

text \<open>
  The webhook receiver of \<open>packages/sdk/src/webhook.ts\<close> and its agreement with the sender of
  \<open>packages/indexer/src/refund-delivery\<close>: a delivery the indexer signs is accepted by the agent that
  pins its key, and the calls it carries reach the reconciliation sink. The nonce guard is a
  \<open>replay_guard\<close> like the proxy's.
\<close>

section \<open>The nonce guard\<close>

definition guard_sweep :: "int \<Rightarrow> replay_store \<Rightarrow> replay_store" where
  "guard_sweep now store = (if length store > 2048 then filter (\<lambda>(_, expires). \<not> expires \<le> now) store else store)"

definition guard_check :: "int \<Rightarrow> replay_store \<Rightarrow> string \<Rightarrow> int \<Rightarrow> replay_store \<times> bool" where
  "guard_check ttlMs store0 key now =
     (let store = guard_sweep now store0 in
      case map_of store key of
        Some expires \<Rightarrow>
          if expires > now then (store, True) else (AList.update key (now + ttlMs) store, False)
      | None \<Rightarrow> (AList.update key (now + ttlMs) store, False))"

lemma guard_sweep_ok: "store_ok s \<Longrightarrow> store_ok (guard_sweep now s)"
  by (simp add: store_ok_def guard_sweep_def distinct_map_filter)

lemma guard_sweep_live:
  assumes "store_ok s" "now < e"
  shows "map_of (guard_sweep now s) k = Some e \<longleftrightarrow> map_of s k = Some e"
  using assms guard_sweep_ok [OF assms(1), of now]
  by (auto simp: guard_sweep_def store_ok_def map_of_eq_Some_iff distinct_map_filter)

interpretation sdk_guard: replay_guard "guard_check ttl" map_of store_ok ttl
proof
  fix s :: replay_store and k k' :: string and now e :: int
  assume ok: "store_ok s"
  have live: "now < e \<Longrightarrow> map_of (guard_sweep now s) j = Some e \<longleftrightarrow> map_of s j = Some e" for j e
    by (rule guard_sweep_live [OF ok])
  show "store_ok (fst (guard_check ttl s k now))"
    using guard_sweep_ok [OF ok, of now] by (auto simp: guard_check_def store_ok_def distinct_update Let_def split: option.splits)
  show "snd (guard_check ttl s k now) \<longleftrightarrow> (\<exists>e. map_of s k = Some e \<and> now < e)"
  proof -
    have "(\<exists>e. map_of (guard_sweep now s) k = Some e \<and> now < e) \<longleftrightarrow> (\<exists>e. map_of s k = Some e \<and> now < e)" using live by blast
    then show ?thesis by (auto simp: guard_check_def Let_def split: option.splits)
  qed
  show "map_of (fst (guard_check ttl s k now)) k = Some (now + ttl)" if "\<not> snd (guard_check ttl s k now)"
    using that by (auto simp: guard_check_def Let_def update_conv' split: option.splits if_splits)
  show "map_of (fst (guard_check ttl s k' now)) k = Some e" if "map_of s k = Some e" "now < e"
    using that live [of e k] by (auto simp: guard_check_def Let_def update_conv' split: option.splits)
qed

section \<open>The handler\<close>

datatype header_value = One string | Many "string list"

definition webhook_header :: "(string \<times> header_value) list \<Rightarrow> string \<Rightarrow> string option" where
  "webhook_header hs k =
     (case (case map_of hs k of None \<Rightarrow> map_of hs (to_lower k) | Some v \<Rightarrow> Some v) of
        None \<Rightarrow> None | Some (One s) \<Rightarrow> Some s | Some (Many []) \<Rightarrow> None | Some (Many (s # _)) \<Rightarrow> Some s)"

definition truthy_text :: "string option \<Rightarrow> string option" where
  "truthy_text v = (if v = Some [] then None else v)"

record webhook_config =
  wc_indexerSigningKey :: string
  wc_skewMs :: int

definition DEFAULT_WEBHOOK_SKEW_MS :: int where "DEFAULT_WEBHOOK_SKEW_MS = 300000"

record webhook_request =
  wq_path :: string
  wq_headers :: "(string \<times> header_value) list"
  wq_body :: string

text \<open>The status with the reason of a rejection, and the calls handed to the sink.\<close>

type_synonym webhook_answer = "(int \<times> string) \<times> json list"

definition accept_body :: "string \<Rightarrow> webhook_answer" where
  "accept_body body =
     (case parse_json body of
        None \<Rightarrow> ((400, ''malformed JSON body''), [])
      | Some v \<Rightarrow>
          (case js_member (Some v) ''calls'' of
             Some (JArr cs) \<Rightarrow> (if JNull \<in> set cs then (400, ''unhandled'') else (202, ''ok''), cs)
           | _ \<Rightarrow> ((400, ''missing calls[]''), [])))"

text \<open>\<open>now1\<close> is the clock at the skew check and \<open>now2\<close> in the nonce guard.\<close>

definition webhook_handler ::
    "webhook_config \<Rightarrow> crypto \<Rightarrow> replay_store \<Rightarrow> int \<Rightarrow> int \<Rightarrow> webhook_request \<Rightarrow> replay_store \<times> webhook_answer" where
  "webhook_handler cfg c store now1 now2 req =
     (let h = \<lambda>k. truthy_text (webhook_header (wq_headers req) k) in
      case bs58_decode c (wc_indexerSigningKey cfg) of
        None \<Rightarrow> (store, (500, ''indexerSigningKey not configured''), [])
      | Some pinnedKey \<Rightarrow>
          if length pinnedKey \<noteq> 32 then (store, (500, ''indexerSigningKey not configured''), [])
          else (case (h ''x-pact-agent'', h ''x-pact-timestamp'', h ''x-pact-nonce'', h ''x-pact-signature'') of
              (Some agent, Some ts, Some nonce, Some signature) \<Rightarrow>
                (case bs58_decode c agent of
                   None \<Rightarrow> (store, (401, ''bad x-pact-agent''), [])
                 | Some agentKey \<Rightarrow>
                     if agentKey \<noteq> pinnedKey then (store, (401, ''signer is not the pinned indexer key''), [])
                     else (case parseInt ts of
                         None \<Rightarrow> (store, (401, ''timestamp outside skew window''), [])
                       | Some tsMs \<Rightarrow>
                           if \<bar>now1 - tsMs\<bar> > wc_skewMs cfg then (store, (401, ''timestamp outside skew window''), [])
                           else (case guard_check (wc_skewMs cfg) store (agent @ '':'' @ nonce) now2 of
                               (store', True) \<Rightarrow> (store', (401, ''nonce replay''), [])
                             | (store', False) \<Rightarrow> (store',
                                 let bodyHash = (if wq_body req = [] then [] else sha256Hex c (wq_body req));
                                     canonical = ''v1'' @ nl @ ''POST'' @ nl @ wq_path req @ nl @ string_of_int tsMs @ nl @ nonce @ nl @ bodyHash
                                 in case bs58_decode c signature of
                                      None \<Rightarrow> ((401, ''bad signature encoding''), [])
                                    | Some sig \<Rightarrow>
                                        if length sig \<noteq> 64 then ((401, ''signature verification failed''), [])
                                        else (case nacl_verify c canonical sig pinnedKey of
                                            None \<Rightarrow> ((400, ''unhandled''), [])
                                          | Some False \<Rightarrow> ((401, ''signature verification failed''), [])
                                          | Some True \<Rightarrow> accept_body (wq_body req))))))
            | _ \<Rightarrow> (store, (400, ''missing pact webhook headers''), [])))"

section \<open>What the sender writes\<close>

definition as_delivered :: "headers \<Rightarrow> (string \<times> header_value) list" where
  "as_delivered hs = List.map (\<lambda>(k, v). (k, One v)) hs"

definition call_notice :: "call_dto \<Rightarrow> bool \<Rightarrow> notification" where
  "call_notice d breach =
     \<lparr>nt_callId = Some (JStr (cd_callId d)), nt_slug = Some (JStr (cd_slug d)),
      nt_premium = (case bigint_of_string (cd_premium d) of None \<Rightarrow> 0 | Some n \<Rightarrow> n),
      nt_refund = (case bigint_of_string (cd_refund d) of None \<Rightarrow> 0 | Some n \<Rightarrow> n),
      nt_breach = breach, nt_settledAt = Some (JStr (cd_settledAt d)), nt_txSignature = Some (JStr (cd_signature d))\<rparr>"

lemma notice_of_call:
  "toWebhookCall d = Some p \<Longrightarrow> \<exists>b w. outcomeToBreach (cd_outcome d) = Some (b, w) \<and> notice_of (JObj p) = call_notice d b \<and> wf_json (JObj p)"
  by (auto simp: toWebhookCall_def notice_of_def call_notice_def safeBig_def Let_def split: option.splits prod.splits)

definition breach_of :: "call_dto \<Rightarrow> bool" where
  "breach_of d = (case outcomeToBreach (cd_outcome d) of None \<Rightarrow> False | Some (b, _) \<Rightarrow> b)"

lemma payload_calls:
  assumes "webhook_payload now agent calls = Some p"
  obtains cs where "get_prop p ''calls'' = Some (JArr cs)" "wf_json (JObj p)" "JNull \<notin> set cs"
    "notices cs = List.map (\<lambda>d. call_notice d (breach_of d)) calls"
proof -
  obtain ps where ps: "those (List.map toWebhookCall calls) = Some ps"
    and p: "p = [(''type'', JStr ''settlement.calls''), (''version'', JNum 1), (''indexerTs'', JStr (toISOString now)),
       (''agentPubkey'', JStr agent), (''calls'', JArr (List.map JObj ps))]"
    using assms by (auto simp: webhook_payload_def)
  have all: "those (List.map toWebhookCall ds) = Some qs \<Longrightarrow>
      List.map (\<lambda>q. notice_of (JObj q)) qs = List.map (\<lambda>d. call_notice d (breach_of d)) ds \<and> list_all (\<lambda>q. wf_json (JObj q)) qs" for ds qs
  proof (induction ds arbitrary: qs)
    case (Cons d ds)
    then obtain q rs where "toWebhookCall d = Some q" "those (List.map toWebhookCall ds) = Some rs" "qs = q # rs"
      by (auto split: option.split_asm)
    with Cons.IH [of rs] notice_of_call [of d q] show ?case by (auto simp: breach_of_def)
  qed simp
  have none: "takeWhile (\<lambda>c. c \<noteq> JNull) (List.map JObj ps) = List.map JObj ps" by (induction ps) auto
  show thesis
  proof (rule that)
    show "get_prop p ''calls'' = Some (JArr (List.map JObj ps))" by (simp add: p get_prop_def)
    show "wf_json (JObj p)" using all [OF ps] by (simp add: p list_all_iff)
    show "JNull \<notin> set (List.map JObj ps)" by auto
    show "notices (List.map JObj ps) = List.map (\<lambda>d. call_notice d (breach_of d)) calls"
      using all [OF ps] by (simp add: notices_def none comp_def)
  qed
qed

lemma accept_payload:
  assumes "wf_json (JObj p)" "get_prop p ''calls'' = Some (JArr cs)" "JNull \<notin> set cs"
  shows "accept_body (stringify (JObj p)) = ((202, ''ok''), cs)"
  using assms parse_stringify [of "JObj p"] by (simp add: accept_body_def get_prop_def del: stringify.simps)

text \<open>The two sides' libraries agree: base58, SHA-256, and the signatures of the indexer's key.\<close>

definition libraries_match :: "signing_lib \<Rightarrow> crypto \<Rightarrow> nat list \<Rightarrow> nat list \<Rightarrow> bool" where
  "libraries_match l c sk pk \<longleftrightarrow>
     (\<forall>x. x \<noteq> [] \<longrightarrow> list_all (\<lambda>b. b < 256) x \<longrightarrow> sl_encode58 l x \<noteq> [] \<and> bs58_decode c (sl_encode58 l x) = Some x) \<and>
     (\<forall>m. sl_sha256Hex l m = sha256Hex c m) \<and>
     sl_publicKey l sk = Some pk \<and> length pk = 32 \<and> list_all (\<lambda>b. b < 256) pk \<and>
     (\<forall>m. length (sl_sign l m sk) = 64 \<and> list_all (\<lambda>b. b < 256) (sl_sign l m sk) \<and> nacl_verify c m (sl_sign l m sk) pk = Some True)"

section \<open>Properties\<close>

text \<open>
  C39: a delivery the indexer signs is accepted. When the agent pins the indexer's key, the libraries
  agree, the timestamp is within the skew and the nonce is new, the receiver answers 202 and hands on
  exactly the calls of the delivery, each with the premium, refund and breach flag of its call.
\<close>

theorem signed_webhook_accepted:
  assumes libs: "libraries_match l c sk pk" and key: "loadSigningKey l secret = Some (sk, wc_indexerSigningKey cfg)"
    and payload: "webhook_payload built agent calls = Some p"
    and msg: "signWebhook l (sk, wc_indexerSigningKey cfg) u p ts random = (hs, body)"
    and random: "random \<noteq> []" "list_all (\<lambda>b. b < 256) random"
    and skew: "\<bar>now1 - ts\<bar> \<le> wc_skewMs cfg"
    and fresh: "store_ok store" "\<nexists>e. map_of store (wc_indexerSigningKey cfg @ '':'' @ sl_encode58 l random) = Some e \<and> now2 < e"
  shows "\<exists>store' cs. webhook_handler cfg c store now1 now2 \<lparr>wq_path = wu_path u, wq_headers = as_delivered hs, wq_body = body\<rparr> =
      (store', (202, ''ok''), cs) \<and> notices cs = List.map (\<lambda>d. call_notice d (breach_of d)) calls"
proof -
  obtain cs where cs: "get_prop p ''calls'' = Some (JArr cs)" "wf_json (JObj p)" "JNull \<notin> set cs"
    "notices cs = List.map (\<lambda>d. call_notice d (breach_of d)) calls" by (rule payload_calls [OF payload])
  let ?key = "wc_indexerSigningKey cfg" and ?nonce = "sl_encode58 l random" and ?body = "stringify (JObj p)"
  let ?sig = "sl_sign l (buildWebhookCanonical (wu_path u) ts ?nonce (sl_sha256Hex l ?body)) sk"
  have k: "?key = sl_encode58 l pk"
    using key libs by (auto simp: loadSigningKey_def libraries_match_def split: option.split_asm if_split_asm)
  have lib: "x \<noteq> [] \<Longrightarrow> list_all (\<lambda>b. b < 256) x \<Longrightarrow> sl_encode58 l x \<noteq> [] \<and> bs58_decode c (sl_encode58 l x) = Some x"
      "sl_sha256Hex l m = sha256Hex c m" "length pk = 32" "list_all (\<lambda>b. b < 256) pk"
      "length (sl_sign l m sk) = 64" "list_all (\<lambda>b. b < 256) (sl_sign l m sk)" "nacl_verify c m (sl_sign l m sk) pk = Some True" for x m
    using libs unfolding libraries_match_def by blast+
  have "pk \<noteq> []" "?sig \<noteq> []" using lib(3) lib(5) by (metis list.size(3) zero_neq_numeral)+
  then have texts: "?key \<noteq> []" "bs58_decode c ?key = Some pk" "?nonce \<noteq> []" "sl_encode58 l ?sig \<noteq> []"
      "bs58_decode c (sl_encode58 l ?sig) = Some ?sig"
    using lib(1) lib(4) lib(6) random k by auto
  have m: "hs = [(''content-type'', ''application/json''), (''x-pact-event'', WEBHOOK_EVENT), (''x-pact-agent'', ?key),
      (''x-pact-timestamp'', string_of_int ts), (''x-pact-nonce'', ?nonce), (''x-pact-signature'', sl_encode58 l ?sig)]" "body = ?body"
    using msg by (auto simp: signWebhook_def Let_def simp del: stringify.simps)
  have ts: "string_of_int ts \<noteq> []" by (simp add: string_of_int_def)
  have g: "\<exists>store'. guard_check (wc_skewMs cfg) store (?key @ '':'' @ ?nonce) now2 = (store', False)"
    using sdk_guard.reject_iff [OF fresh(1), of "wc_skewMs cfg" "?key @ '':'' @ ?nonce" now2] fresh(2)
    by (metis prod.collapse)
  have b: "?body \<noteq> []" using stringify_length [of "JObj p"] by (metis length_greater_0_conv)
  have h: "truthy_text (webhook_header (as_delivered hs) ''x-pact-agent'') = Some ?key"
      "truthy_text (webhook_header (as_delivered hs) ''x-pact-timestamp'') = Some (string_of_int ts)"
      "truthy_text (webhook_header (as_delivered hs) ''x-pact-nonce'') = Some ?nonce"
      "truthy_text (webhook_header (as_delivered hs) ''x-pact-signature'') = Some (sl_encode58 l ?sig)"
    using texts(1,3,4) ts unfolding m(1) by (simp_all add: as_delivered_def webhook_header_def truthy_text_def)
  have canonical: "''v1'' @ nl @ ''POST'' @ nl @ wu_path u @ nl @ string_of_int ts @ nl @ ?nonce @ nl @
      (if ?body = [] then [] else sha256Hex c ?body) = buildWebhookCanonical (wu_path u) ts ?nonce (sl_sha256Hex l ?body)"
    using b by (simp add: buildWebhookCanonical_def lib(2))
  from g obtain store' where g: "guard_check (wc_skewMs cfg) store (?key @ '':'' @ ?nonce) now2 = (store', False)" by blast
  have "webhook_handler cfg c store now1 now2 \<lparr>wq_path = wu_path u, wq_headers = as_delivered hs, wq_body = body\<rparr> = (store', accept_body ?body)"
    unfolding webhook_handler_def Let_def webhook_request.simps h m(2) texts(2) parseInt_string_of_int option.case prod.case
    unfolding canonical
    using texts(2,5) lib(3,5,7) skew g by (simp add: parseInt_string_of_int del: stringify.simps)
  then show ?thesis using accept_payload [OF cs(2,1,3)] cs(4) by simp
qed

text \<open>Two registered calls, delivered to an agent that pins the key.\<close>

definition demo_signer :: signing_lib where
  "demo_signer = \<lparr>sl_decode58 = (\<lambda>_. Some (replicate 64 7)), sl_encode58 = List.map char_of, sl_publicKey = (\<lambda>_. Some (replicate 32 65)),
     sl_sign = (\<lambda>_ _. replicate 64 1), sl_sha256Hex = (\<lambda>_. ''h'')\<rparr>"

definition demo_verifier :: crypto where
  "demo_verifier = \<lparr>isAddress = (\<lambda>_. False), getAddress = id, verifyMessage = (\<lambda>_ _ _. None), bs58_decode = (\<lambda>s. Some (List.map of_char s)),
     nacl_verify = (\<lambda>_ _ _. Some True), sha256Hex = (\<lambda>_. ''h'')\<rparr>"

lemma demo_libraries: "libraries_match demo_signer demo_verifier (replicate 64 7) (replicate 32 65)"
proof -
  have "list_all (\<lambda>b. b < 256) x \<Longrightarrow> List.map (of_char \<circ> char_of) x = x" for x :: "nat list"
    by (induction x) (simp_all add: of_char_mod_256)
  then show ?thesis by (simp add: libraries_match_def demo_signer_def demo_verifier_def list_all_length)
qed

definition demo_config :: webhook_config where
  "demo_config = \<lparr>wc_indexerSigningKey = replicate 32 (CHR ''A''), wc_skewMs = DEFAULT_WEBHOOK_SKEW_MS\<rparr>"

theorem signed_webhook_accepted_witness:
  "\<exists>p hs body store' cs. webhook_payload 0 ''A'' [sample_call] = Some p \<and>
     signWebhook demo_signer (replicate 64 7, wc_indexerSigningKey demo_config) (literal_url (HName ''a.example'')) p 900 [1, 2] = (hs, body) \<and>
     webhook_handler demo_config demo_verifier [] 1000 1000 \<lparr>wq_path = ''/'', wq_headers = as_delivered hs, wq_body = body\<rparr> =
       (store', (202, ''ok''), cs) \<and> notices cs = [call_notice sample_call True]"
proof -
  have key: "loadSigningKey demo_signer ''s'' = Some (replicate 64 7, wc_indexerSigningKey demo_config)"
    by (simp add: loadSigningKey_def demo_signer_def demo_config_def char_of_def bit_0)
  have breach: "outcomeToBreach (cd_outcome sample_call) = Some (True, Some ''server_error'')" by code_simp
  then obtain p where p: "webhook_payload 0 ''A'' [sample_call] = Some p"
    by (auto simp: webhook_payload_def toWebhookCall_def)
  obtain hs body where m: "signWebhook demo_signer (replicate 64 7, wc_indexerSigningKey demo_config) (literal_url (HName ''a.example'')) p 900 [1, 2] = (hs, body)"
    by fastforce
  have skew: "\<bar>1000 - 900\<bar> \<le> wc_skewMs demo_config" by (simp add: demo_config_def DEFAULT_WEBHOOK_SKEW_MS_def)
  from signed_webhook_accepted [OF demo_libraries key p m _ _ skew, of "[]" 1000] p m breach show ?thesis
    by (auto simp: store_ok_def literal_url_def breach_of_def)
qed

text \<open>Every request touches the nonce guard at most once.\<close>

lemma handler_store:
  "fst (webhook_handler cfg c store n1 n2 req) = store \<or>
   (\<exists>key. fst (webhook_handler cfg c store n1 n2 req) = fst (guard_check (wc_skewMs cfg) store key n2))"
  unfolding webhook_handler_def Let_def
  by (auto split: option.split if_split prod.split bool.split) (metis fst_conv)+

definition handle_all ::
    "webhook_config \<Rightarrow> crypto \<Rightarrow> (int \<times> int \<times> webhook_request) list \<Rightarrow> replay_store \<Rightarrow> replay_store" where
  "handle_all cfg c qs store = foldl (\<lambda>s (n1, n2, q). fst (webhook_handler cfg c s n1 n2 q)) store qs"

lemma handle_all_keeps:
  assumes "store_ok s" "map_of s k = Some e" "\<forall>(n1, n2, q) \<in> set qs. n2 < e"
  shows "store_ok (handle_all cfg c qs s) \<and> map_of (handle_all cfg c qs s) k = Some e"
  using assms
proof (induction qs arbitrary: s)
  case (Cons q qs)
  obtain n1 n2 r where q: "q = (n1, n2, r)" by (cases q)
  have "store_ok (fst (webhook_handler cfg c s n1 n2 r)) \<and> map_of (fst (webhook_handler cfg c s n1 n2 r)) k = Some e"
    using handler_store [of cfg c s n1 n2 r] Cons.prems q sdk_guard.ok_seen sdk_guard.keep_live by fastforce
  with Cons q show ?case by (auto simp: handle_all_def)
qed (simp add: handle_all_def)

definition webhook_key :: "webhook_request \<Rightarrow> (string \<times> int) option" where
  "webhook_key req = (let h = \<lambda>k. truthy_text (webhook_header (wq_headers req) k) in
     case (h ''x-pact-agent'', h ''x-pact-nonce'', h ''x-pact-timestamp'') of
       (Some agent, Some nonce, Some ts) \<Rightarrow> map_option (Pair (agent @ '':'' @ nonce)) (parseInt ts) | _ \<Rightarrow> None)"

lemma accepted_request:
  assumes "webhook_handler cfg c store now1 now2 req = (store', (202, r), cs)"
  shows "\<exists>key ts. webhook_key req = Some (key, ts) \<and> \<bar>now1 - ts\<bar> \<le> wc_skewMs cfg \<and>
     guard_check (wc_skewMs cfg) store key now2 = (store', False)"
  using assms unfolding webhook_handler_def Let_def
  by (auto simp: webhook_key_def Let_def split: option.split_asm if_split_asm prod.split_asm bool.split_asm)

text \<open>
  C40: a delivery is processed once. The receiver reads the clock twice, for the skew check and in the
  nonce guard. After a request has been accepted, whatever is delivered in between, a later request
  with the same agent, nonce and timestamp is accepted again only if its first reading is at most a
  skew after the timestamp while its second is at least a skew after the moment the nonce was noted;
  so it is refused whenever the time between its two readings is less than the time from the
  timestamp to that moment.
\<close>

theorem webhook_single_use:
  assumes "store_ok store" and acc: "webhook_handler cfg c store a1 a2 req = (store1, (202, r), cs)"
    and key: "webhook_key req = Some (key, ts)" "webhook_key req' = Some (key, ts)"
    and others: "\<forall>(n1, n2, q) \<in> set qs. n2 \<le> b2"
    and inside: "\<not> (b1 \<le> ts + wc_skewMs cfg \<and> a2 + wc_skewMs cfg \<le> b2) \<or> b2 - b1 < a2 - ts"
  shows "fst (fst (snd (webhook_handler cfg c (handle_all cfg c qs store1) b1 b2 req'))) \<noteq> 202"
proof
  assume "fst (fst (snd (webhook_handler cfg c (handle_all cfg c qs store1) b1 b2 req'))) = 202"
  then obtain store2 r' cs' where again: "webhook_handler cfg c (handle_all cfg c qs store1) b1 b2 req' = (store2, (202, r'), cs')"
    by (metis prod.collapse)
  have g: "guard_check (wc_skewMs cfg) store key a2 = (store1, False)" using accepted_request [OF acc] key by auto
  have g': "\<bar>b1 - ts\<bar> \<le> wc_skewMs cfg" "guard_check (wc_skewMs cfg) (handle_all cfg c qs store1) key b2 = (store2, False)"
    using accepted_request [OF again] key by auto
  let ?e = "a2 + wc_skewMs cfg"
  have marked: "store_ok store1" "map_of store1 key = Some ?e"
    using sdk_guard.ok_seen [OF assms(1), of "wc_skewMs cfg" key a2]
      sdk_guard.accept_marks [OF assms(1), of "wc_skewMs cfg" key a2] g by simp_all
  have "b2 < ?e" using g'(1) inside by linarith
  then have lt: "\<forall>(n1, n2, q) \<in> set qs. n2 < ?e" using others by fastforce
  from handle_all_keeps [OF marked lt, of cfg c] \<open>b2 < ?e\<close> g'(2)
    sdk_guard.reject_iff [of "handle_all cfg c qs store1" "wc_skewMs cfg" key b2] show False by auto
qed

theorem webhook_single_use_witness:
  "\<exists>store1. fst (fst (snd (webhook_handler demo_config demo_verifier (handle_all demo_config demo_verifier [] store1) 1500 1560
     \<lparr>wq_path = ''/'', wq_headers = as_delivered [(''x-pact-agent'', replicate 32 (CHR ''A'')), (''x-pact-timestamp'', ''900''),
        (''x-pact-nonce'', ''n''), (''x-pact-signature'', replicate 64 (CHR ''B''))], wq_body = ''{ \"calls\": [] }''\<rparr>))) \<noteq> 202"
proof -
  let ?q = "\<lparr>wq_path = ''/'', wq_headers = as_delivered [(''x-pact-agent'', replicate 32 (CHR ''A'')), (''x-pact-timestamp'', ''900''),
        (''x-pact-nonce'', ''n''), (''x-pact-signature'', replicate 64 (CHR ''B''))], wq_body = ''{ \"calls\": [] }''\<rparr>"
  have b: "accept_body ''{ \"calls\": [] }'' = ((202, ''ok''), [])" by code_simp
  have t: "parseInt ''900'' = Some 900" by code_simp
  have acc: "webhook_handler demo_config demo_verifier [] 1000 1000 ?q =
      ([(replicate 32 (CHR ''A'') @ '':n'', 301000)], (202, ''ok''), [])"
    by (simp add: webhook_handler_def demo_config_def demo_verifier_def as_delivered_def webhook_header_def truthy_text_def Let_def
        t b DEFAULT_WEBHOOK_SKEW_MS_def guard_check_def guard_sweep_def)
  have k: "webhook_key ?q = Some (replicate 32 (CHR ''A'') @ '':n'', 900)"
    by (simp add: webhook_key_def as_delivered_def webhook_header_def truthy_text_def Let_def t)
  from webhook_single_use [OF _ acc k k, of "[]" 1560 1500] show ?thesis by (auto simp: store_ok_def)
qed

text \<open>
  The sender repeats one signed message on every attempt. If the first attempt was processed but its
  answer was lost, the retry is answered 401, which ends the delivery as failed and counts towards the
  registration's failures.
\<close>

lemma live_nonce_refused:
  assumes "store_ok store" and acc: "webhook_handler cfg c store a1 a2 req = (store1, (202, r), cs)"
    and key: "webhook_key req = Some (key, ts)" and b: "\<bar>b1 - ts\<bar> \<le> wc_skewMs cfg" "b2 < a2 + wc_skewMs cfg"
  shows "snd (webhook_handler cfg c store1 b1 b2 req) = ((401, ''nonce replay''), [])"
proof -
  have g: "guard_check (wc_skewMs cfg) store key a2 = (store1, False)" using accepted_request [OF acc] key by auto
  have "store_ok store1" "map_of store1 key = Some (a2 + wc_skewMs cfg)"
    using sdk_guard.ok_seen [OF assms(1), of "wc_skewMs cfg" key a2]
      sdk_guard.accept_marks [OF assms(1), of "wc_skewMs cfg" key a2] g by simp_all
  then have "snd (guard_check (wc_skewMs cfg) store1 key b2)" using sdk_guard.reject_iff b(2) by blast
  then obtain store2 where "guard_check (wc_skewMs cfg) store1 key b2 = (store2, True)" by (metis prod.collapse)
  then show ?thesis using acc key b(1) unfolding webhook_handler_def Let_def
    by (auto simp: webhook_key_def Let_def split: option.split_asm if_split_asm prod.split_asm bool.split_asm)
qed

theorem lost_answer_counts_as_failure:
  assumes "store_ok store" and acc: "webhook_handler cfg c store a1 a2 req = (store1, (202, r), cs)"
    and key: "webhook_key req = Some (key, ts)" and b: "\<bar>b1 - ts\<bar> \<le> wc_skewMs cfg" "b2 < a2 + wc_skewMs cfg"
    and "attempt 1 = Inl ''timeout''" "attempt 2 = Inr (fst (fst (snd (webhook_handler cfg c store1 b1 b2 req))))" "2 \<le> n"
  shows "deliver_loop attempt 1 n = (False, 2)"
proof -
  obtain k where "n = Suc (Suc k)" using assms(8) by (metis Suc_le_D Suc_le_mono numeral_2_eq_2)
  with assms(6,7) live_nonce_refused [OF assms(1-5)] show ?thesis by (auto simp: numeral_2_eq_2)
qed

end
