(* ===== verification/SdkTransport.thy ===== *)
theory SdkTransport
  imports ProxyAuth WrapFetch
begin

text \<open>
  The proxy transport of the SDK (\<open>packages/sdk/src/proxy-transport.ts\<close>, \<open>hostname.ts\<close>): the signed
  request, the headers that go with it and the annotations read back from the response. The results
  say that the two ends agree: the proxy's middleware accepts what the SDK signs, and the SDK reads
  back what \<open>wrap\<close> attaches. \<open>new_url\<close> is the WHATWG URL parser; base58, SHA-256 and the signer are
  the fields of \<open>sdk_lib\<close>.
\<close>

section \<open>URLs\<close>

record parsed_url =
  su_hostname :: string
  su_pathname :: string
  su_search :: string

datatype raw_sig = SigBytes "nat list" | SigHex string

record sdk_lib =
  sk_new_url :: "string \<Rightarrow> parsed_url option"
  sk_encode58 :: "nat list \<Rightarrow> string"
  sk_sha256Hex :: "string \<Rightarrow> string"

text \<open>\<open>/^[a-zA-Z][a-zA-Z0-9+.-]*:\/\//\<close>\<close>

definition is_letter :: "char \<Rightarrow> bool" where
  "is_letter c \<longleftrightarrow> (let n = (of_char c :: nat) in (65 \<le> n \<and> n \<le> 90) \<or> (97 \<le> n \<and> n \<le> 122))"

definition has_scheme :: "string \<Rightarrow> bool" where
  "has_scheme s =
     (case s of [] \<Rightarrow> False
      | c # cs \<Rightarrow> is_letter c \<and>
          starts_with ''://'' (dropWhile (\<lambda>d. is_letter d \<or> digit_val d \<noteq> None \<or> d \<in> set ''+.-'') cs))"

definition strip_trailing :: "char \<Rightarrow> string \<Rightarrow> string" where
  "strip_trailing c s = rev (dropWhile (\<lambda>d. d = c) (rev s))"

text \<open>\<open>None\<close> is the thrown error.\<close>

definition canonicalHostname :: "(string \<Rightarrow> parsed_url option) \<Rightarrow> string \<Rightarrow> string option" where
  "canonicalHostname new_url input =
     (let trimmed = trim input in
      if trimmed = [] then None
      else case new_url (if has_scheme trimmed then trimmed else ''https://'' @ trimmed) of
        None \<Rightarrow> None
      | Some u \<Rightarrow> (let host = strip_trailing (CHR ''.'') (to_lower (su_hostname u)) in if host = [] then None else Some host))"

definition buildProxiedUrl :: "(string \<Rightarrow> parsed_url option) \<Rightarrow> string \<Rightarrow> string \<Rightarrow> string \<Rightarrow> string option" where
  "buildProxiedUrl new_url proxyBaseUrl slug originalUrl =
     map_option (\<lambda>u. strip_trailing (CHR ''/'') proxyBaseUrl @ ''/v1/'' @ slug @ su_pathname u @ su_search u) (new_url originalUrl)"

section \<open>The request\<close>

text \<open>A body: absent, a text, raw bytes, or a stream or form whose bytes are not known yet.\<close>

datatype body_init = NoBody | TextBody string | BytesBody string | OpaqueBody string

fun bodyToBytes :: "body_init \<Rightarrow> string option" where
  "bodyToBytes NoBody = None"
| "bodyToBytes (TextBody s) = (if s = [] then None else Some s)"
| "bodyToBytes (BytesBody b) = Some b"
| "bodyToBytes (OpaqueBody b) = None"

fun wire_bytes :: "body_init \<Rightarrow> string" where
  "wire_bytes NoBody = []"
| "wire_bytes (TextBody s) = s"
| "wire_bytes (BytesBody b) = b"
| "wire_bytes (OpaqueBody b) = b"

definition sdk_payload :: "string \<Rightarrow> string \<Rightarrow> string \<Rightarrow> int \<Rightarrow> string \<Rightarrow> string \<Rightarrow> string" where
  "sdk_payload meth path network timestampMs nonce bodyHash =
     ''v2'' @ nl @ to_upper meth @ nl @ path @ nl @ network @ nl @ string_of_int timestampMs @ nl @ nonce @ nl @ bodyHash"

record auth_input =
  ai_method :: string
  ai_proxiedUrl :: string
  ai_bodyBytes :: "string option"
  ai_agentPubkey :: string
  ai_sign :: "string \<Rightarrow> raw_sig option"
  ai_vm :: auth_vm
  ai_project :: string
  ai_network :: "string option"
  ai_now :: int
  ai_random :: "nat list"

text \<open>\<open>None\<close> when the URL does not parse or the signer throws; \<open>bs58.encode\<close> of a text throws.\<close>

definition signature_text :: "sdk_lib \<Rightarrow> auth_vm \<Rightarrow> raw_sig \<Rightarrow> string option" where
  "signature_text l vm raw =
     (case vm of EVM \<Rightarrow> (case raw of SigHex h \<Rightarrow> Some h | SigBytes b \<Rightarrow> None)
      | SOLANA \<Rightarrow> (case raw of SigBytes b \<Rightarrow> Some (sk_encode58 l b) | SigHex h \<Rightarrow> None))"

definition auth_path :: "parsed_url \<Rightarrow> string" where
  "auth_path u = su_pathname u @ su_search u"

definition buildAuthHeaders :: "sdk_lib \<Rightarrow> auth_input \<Rightarrow> headers option" where
  "buildAuthHeaders l i =
     (case sk_new_url l (ai_proxiedUrl i) of None \<Rightarrow> None
      | Some u \<Rightarrow>
          let nonce = sk_encode58 l (ai_random i);
              bodyHash = (case ai_bodyBytes i of None \<Rightarrow> [] | Some b \<Rightarrow> if b = [] then [] else sk_sha256Hex l b);
              network = (case ai_network i of None \<Rightarrow> [] | Some n \<Rightarrow> n);
              payload = sdk_payload (ai_method i) (auth_path u) network (ai_now i) nonce bodyHash
          in case Option.bind (ai_sign i payload) (signature_text l (ai_vm i)) of
               None \<Rightarrow> None
             | Some sig \<Rightarrow> Some
                 ([(''x-pact-agent'', ai_agentPubkey i), (''x-pact-timestamp'', string_of_int (ai_now i)), (''x-pact-nonce'', nonce),
                   (''x-pact-signature'', sig), (''x-pact-project'', ai_project i)] @
                  (if network = [] then [] else [(''x-pact-network'', network)])))"

definition SDK_STRIPPED_HEADERS :: "string list" where
  "SDK_STRIPPED_HEADERS = [''authorization'', ''x-api-key'', ''x-helius-api-key'', ''x-birdeye-api-key'']"

definition cleanForwardHeaders :: "headers \<Rightarrow> headers" where
  "cleanForwardHeaders hs =
     (let out = filter (\<lambda>(k, v). to_lower k \<notin> set SDK_STRIPPED_HEADERS) hs in
      if list_ex (\<lambda>(k, v). to_lower k = ''accept-encoding'') out then out
      else AList.update ''accept-encoding'' ''identity;q=1, *;q=0'' out)"

text \<open>
  \<open>headersToRecord\<close>: \<open>Headers\<close> lowers the names and joins the values of a repeated one. The order in
  which it lists them is not kept.
\<close>

definition add_header :: "headers \<Rightarrow> string \<times> string \<Rightarrow> headers" where
  "add_header hs kv = (let k = to_lower (fst kv) in
     AList.update k (case map_of hs k of None \<Rightarrow> snd kv | Some v \<Rightarrow> v @ '', '' @ snd kv) hs)"

definition headersToRecord :: "(string \<times> string) list \<Rightarrow> headers" where
  "headersToRecord hs = foldl add_header [] hs"

text \<open>\<open>{...clean, ...auth}\<close>: the authentication headers replace the caller's.\<close>

definition forward_headers :: "headers \<Rightarrow> headers \<Rightarrow> headers" where
  "forward_headers caller auth = foldl (\<lambda>hs (k, v). AList.update k v hs) (cleanForwardHeaders caller) auth"

section \<open>The response\<close>

text \<open>\<open>pr_latencyMs\<close> is the text \<open>Number\<close> reads.\<close>

record pact_response =
  pr_callId :: "string option"
  pr_premium :: "int option"
  pr_refund :: "int option"
  pr_latencyMs :: "string option"
  pr_outcome :: "string option"
  pr_pool :: "string option"
  pr_settlementPending :: bool

definition bigOrNull :: "string option \<Rightarrow> int option" where
  "bigOrNull v = Option.bind v bigint_of_string"

definition parsePactHeaders :: "headers \<Rightarrow> pact_response" where
  "parsePactHeaders hs =
     \<lparr>pr_callId = hget hs ''X-Pact-Call-Id'', pr_premium = bigOrNull (hget hs ''X-Pact-Premium''),
      pr_refund = bigOrNull (hget hs ''X-Pact-Refund''), pr_latencyMs = hget hs ''X-Pact-Latency-Ms'',
      pr_outcome = hget hs ''X-Pact-Outcome'', pr_pool = hget hs ''X-Pact-Pool'',
      pr_settlementPending = (hget hs ''X-Pact-Settlement-Pending'' = Some ''1'')\<rparr>"

definition isPactProcessed :: "pact_response \<Rightarrow> bool" where
  "isPactProcessed p \<longleftrightarrow> pr_callId p \<noteq> None \<or> pr_outcome p \<noteq> None"

section \<open>Lemmas\<close>

lemma sdk_payload_v2: "sdk_payload m p n ts nonce h = buildSignaturePayload m p ts nonce h (Some n)"
  by (simp add: sdk_payload_def buildSignaturePayload_def)

lemma forward_auth:
  "distinct (map fst auth) \<Longrightarrow> map_of (forward_headers caller auth) k =
     (case map_of auth k of None \<Rightarrow> map_of (cleanForwardHeaders caller) k | Some v \<Rightarrow> Some v)"
proof -
  have "distinct (map fst auth) \<Longrightarrow> map_of (foldl (\<lambda>hs (k, v). AList.update k v hs) hs auth) k =
     (case map_of auth k of None \<Rightarrow> map_of hs k | Some v \<Rightarrow> Some v)" for hs
  proof (induction auth arbitrary: hs)
    case (Cons a auth)
    obtain k' v where a: "a = (k', v)" by fastforce
    have "k' \<notin> fst ` set auth" using Cons.prems a by simp
    then have "map_of auth k' = None" by (simp add: map_of_eq_None_iff)
    with Cons a show ?case by (simp add: update_conv' split: option.split)
  qed simp
  then show "distinct (map fst auth) \<Longrightarrow> ?thesis" by (simp add: forward_headers_def)
qed

lemma clean_other:
  assumes "k \<noteq> ''accept-encoding''" "map_of hs k = None"
  shows "map_of (cleanForwardHeaders hs) k = None"
proof -
  have "map_of (filter P hs) k = None" for P using assms(2) by (auto simp: map_of_eq_None_iff)
  then show ?thesis using assms(1) by (simp add: cleanForwardHeaders_def Let_def update_conv')
qed

text \<open>The signer's key is the agent's, and its signature is one the proxy's libraries verify.\<close>

definition signer_matches :: "sdk_lib \<Rightarrow> crypto \<Rightarrow> auth_input \<Rightarrow> bool" where
  "signer_matches l c i \<longleftrightarrow> (\<forall>b. sk_sha256Hex l b = sha256Hex c b) \<and> agent_vm c (ai_agentPubkey i) = ai_vm i \<and>
     (\<forall>m. \<exists>sig. Option.bind (ai_sign i m) (signature_text l (ai_vm i)) = Some sig \<and> sig \<noteq> [] \<and>
        (if ai_vm i = EVM then verifyMessage c (normalizedAgent c (ai_agentPubkey i)) m sig = Some True
         else \<exists>pk s. bs58_decode c (ai_agentPubkey i) = Some pk \<and> bs58_decode c sig = Some s \<and> length pk = 32 \<and> length s = 64 \<and>
           nacl_verify c m s pk = Some True))"

lemma upper_char_idem: "upper_char (upper_char c) = upper_char c"
  by (auto simp: upper_char_def)

section \<open>Properties\<close>

text \<open>
  C35: the proxy accepts what the SDK signs. A request carrying the SDK's headers over the caller's,
  with the method, path and body they were built for, passes the proxy's signature check as the
  SDK's agent, provided the libraries agree, the clocks differ by at most the skew, the nonce is new,
  the endpoint is of the agent's kind, and the caller did not send a network header of its own.
\<close>

theorem sdk_request_accepted:
  assumes auth: "buildAuthHeaders l i = Some auth" and url: "sk_new_url l (ai_proxiedUrl i) = Some u"
    and libs: "signer_matches l c i"
    and texts: "ai_agentPubkey i \<noteq> []" "ai_project i \<noteq> []" "sk_encode58 l (ai_random i) \<noteq> []"
    and caller: "map_of caller ''x-pact-network'' = None"
    and skew: "\<bar>now1 - ai_now i\<bar> \<le> vo_skewMs opts"
    and fresh: "store_ok store" "\<nexists>e. map_of store (normalizedAgent c (ai_agentPubkey i) @ '':'' @ sk_encode58 l (ai_random i)) = Some e \<and> now2 < e"
    and net: "nonempty net \<longrightarrow> networkToVm (the net) = ai_vm i"
  shows "\<exists>store'. verifyPactSignature opts c store now1 now2
      \<lparr>aq_method = to_upper (ai_method i), aq_path = auth_path u, aq_headers = forward_headers caller auth,
       aq_body = Some (case ai_bodyBytes i of None \<Rightarrow> [] | Some b \<Rightarrow> b)\<rparr> (Inr net) =
      (store', Next (Some (normalizedAgent c (ai_agentPubkey i))))"
proof -
  let ?nonce = "sk_encode58 l (ai_random i)" and ?body = "case ai_bodyBytes i of None \<Rightarrow> [] | Some b \<Rightarrow> b"
  let ?network = "case ai_network i of None \<Rightarrow> [] | Some n \<Rightarrow> n"
  let ?hash = "if ?body = [] then [] else sha256Hex c ?body"
  let ?payload = "buildSignaturePayload (ai_method i) (auth_path u) (ai_now i) ?nonce ?hash (Some ?network)"
  let ?agent = "ai_agentPubkey i"
  have hash: "(case ai_bodyBytes i of None \<Rightarrow> [] | Some b \<Rightarrow> if b = [] then [] else sk_sha256Hex l b) = ?hash"
    using libs by (auto simp: signer_matches_def split: option.split)
  obtain sig where sig: "Option.bind (ai_sign i ?payload) (signature_text l (ai_vm i)) = Some sig" "sig \<noteq> []"
    and ok: "if ai_vm i = EVM then verifyMessage c (normalizedAgent c ?agent) ?payload sig = Some True
         else \<exists>pk s. bs58_decode c ?agent = Some pk \<and> bs58_decode c sig = Some s \<and> length pk = 32 \<and> length s = 64 \<and>
           nacl_verify c ?payload s pk = Some True"
    using libs unfolding signer_matches_def by blast
  have a: "auth = [(''x-pact-agent'', ?agent), (''x-pact-timestamp'', string_of_int (ai_now i)), (''x-pact-nonce'', ?nonce),
       (''x-pact-signature'', sig), (''x-pact-project'', ai_project i)] @ (if ?network = [] then [] else [(''x-pact-network'', ?network)])"
    using auth sig unfolding buildAuthHeaders_def url option.case Let_def sdk_payload_v2 hash by simp
  have d: "distinct (map fst auth)" by (simp add: a)
  have m: "map_of auth ''x-pact-agent'' = Some ?agent" "map_of auth ''x-pact-timestamp'' = Some (string_of_int (ai_now i))"
      "map_of auth ''x-pact-nonce'' = Some ?nonce" "map_of auth ''x-pact-signature'' = Some sig"
      "map_of auth ''x-pact-project'' = Some (ai_project i)"
      "map_of auth ''x-pact-network'' = (if ?network = [] then None else Some ?network)"
    by (simp_all add: a)
  have get: "map_of (forward_headers caller auth) k = (case map_of auth k of None \<Rightarrow> map_of (cleanForwardHeaders caller) k | Some v \<Rightarrow> Some v)" for k
    by (rule forward_auth [OF d])
  have lower: "to_lower ''x-pact-agent'' = ''x-pact-agent''" "to_lower ''x-pact-timestamp'' = ''x-pact-timestamp''"
      "to_lower ''x-pact-nonce'' = ''x-pact-nonce''" "to_lower ''x-pact-signature'' = ''x-pact-signature''"
      "to_lower ''x-pact-project'' = ''x-pact-project''" "to_lower ''x-pact-network'' = ''x-pact-network''" by code_simp+
  have t: "string_of_int (ai_now i) \<noteq> []" by (simp add: string_of_int_def)
  have truthy: "truthy_header hs n = Some s" if "hget hs n = Some s" "s \<noteq> []" for hs n s
    using that by (cases s) (simp_all add: truthy_header_def)
  have h: "truthy_header (forward_headers caller auth) ''x-pact-agent'' = Some ?agent"
      "truthy_header (forward_headers caller auth) ''x-pact-timestamp'' = Some (string_of_int (ai_now i))"
      "truthy_header (forward_headers caller auth) ''x-pact-nonce'' = Some ?nonce"
      "truthy_header (forward_headers caller auth) ''x-pact-signature'' = Some sig"
      "truthy_header (forward_headers caller auth) ''x-pact-project'' = Some (ai_project i)"
    by (rule truthy; simp add: hget_def lower get m texts t sig(2))+
  have n: "(case hget (forward_headers caller auth) ''x-pact-network'' of None \<Rightarrow> [] | Some n \<Rightarrow> n) = ?network"
    using clean_other [OF _ caller] by (simp add: hget_def lower get m(6))
  obtain store' where seen: "replay_seen (vo_replayTtlMs opts) store (normalizedAgent c ?agent @ '':'' @ ?nonce) now2 = (store', False)"
    using replay_seen_reject [OF fresh(1), of "vo_replayTtlMs opts" "normalizedAgent c ?agent @ '':'' @ ?nonce" now2] fresh(2) by (metis prod.collapse)
  let ?req = "\<lparr>aq_method = to_upper (ai_method i), aq_path = auth_path u, aq_headers = forward_headers caller auth, aq_body = Some ?body\<rparr>"
  have upper: "to_upper (to_upper s) = to_upper s" for s by (simp add: to_upper_def upper_char_idem)
  have first: "?payload \<in> set (auth_payloads c ?req (ai_now i) ?nonce ?body)"
    using n by (simp add: auth_payloads_def Let_def buildSignaturePayload_def upper)
  have vm: "agent_vm c ?agent = ai_vm i" using libs by (simp add: signer_matches_def)
  have chk: "check_signature c ?req ?agent (ai_now i) ?nonce sig (Inr net) = Next (Some (normalizedAgent c ?agent))"
  proof (cases "ai_vm i = EVM")
    case True
    then have "verify_evm c (normalizedAgent c ?agent) sig (auth_payloads c ?req (ai_now i) ?nonce ?body)"
      using first ok by (auto simp: verify_evm_def list_ex_iff)
    then show ?thesis using True net vm by (simp add: check_signature_def Let_def)
  next
    case False
    then have "verify_solana c ?agent sig (auth_payloads c ?req (ai_now i) ?nonce ?body) = None"
      using first ok by (auto simp: verify_solana_def list_ex_iff)
    then show ?thesis using False net vm by (simp add: check_signature_def Let_def)
  qed
  have "verifyPactSignature opts c store now1 now2 ?req (Inr net) = (store', Next (Some (normalizedAgent c ?agent)))"
    unfolding verifyPactSignature_def Let_def auth_request.simps h option.case prod.case parseInt_string_of_int
    using skew seen chk by simp
  then show ?thesis by blast
qed

definition demo_sdk :: sdk_lib where
  "demo_sdk = \<lparr>sk_new_url = (\<lambda>_. Some \<lparr>su_hostname = ''p'', su_pathname = ''/v1/fal/x'', su_search = ''?a=1''\<rparr>),
     sk_encode58 = (\<lambda>b. if length b = 64 then ''good'' else ''n''), sk_sha256Hex = (\<lambda>b. b)\<rparr>"

definition demo_input :: auth_input where
  "demo_input = \<lparr>ai_method = ''post'', ai_proxiedUrl = ''https://p/v1/fal/x?a=1'', ai_bodyBytes = Some ''{}'', ai_agentPubkey = ''A'',
     ai_sign = (\<lambda>_. Some (SigBytes (replicate 64 7))), ai_vm = SOLANA, ai_project = ''proj'', ai_network = Some ''solana-devnet'',
     ai_now = 1000, ai_random = [1, 2]\<rparr>"

theorem sdk_request_accepted_witness:
  "\<exists>auth store'. buildAuthHeaders demo_sdk demo_input = Some auth \<and>
     verifyPactSignature default_opts toy_crypto [] 2000 2000
       \<lparr>aq_method = to_upper (ai_method demo_input), aq_path = ''/v1/fal/x?a=1'', aq_headers = forward_headers [(''authorization'', ''secret'')] auth,
        aq_body = Some ''{}''\<rparr> (Inr (Some ''solana-devnet'')) = (store', Next (Some ''A''))"
proof -
  have toy: "agent_vm toy_crypto ''A'' = SOLANA" "normalizedAgent toy_crypto ''A'' = ''A''"
    by (simp_all add: agent_vm_def normalizedAgent_def toy_crypto_def starts_with_def)
  have libs: "signer_matches demo_sdk toy_crypto demo_input"
    by (simp add: signer_matches_def demo_input_def toy signature_text_def) (simp add: demo_sdk_def toy_crypto_def)
  obtain auth where auth: "buildAuthHeaders demo_sdk demo_input = Some auth"
    by (simp add: buildAuthHeaders_def demo_sdk_def demo_input_def signature_text_def Let_def)
  have url: "sk_new_url demo_sdk (ai_proxiedUrl demo_input) = Some \<lparr>su_hostname = ''p'', su_pathname = ''/v1/fal/x'', su_search = ''?a=1''\<rparr>"
    by (simp add: demo_sdk_def)
  have "networkToVm ''solana-devnet'' = SOLANA" by (simp add: networkToVm_def starts_with_def)
  then show ?thesis
    using sdk_request_accepted [OF auth url libs, of "[(''authorization'', ''secret'')]" 2000 default_opts "[]" 2000 "Some ''solana-devnet''"] auth toy
    by (simp add: demo_input_def demo_sdk_def store_ok_def default_opts_def DEFAULT_SKEW_MS_def auth_path_def)
qed

text \<open>
  The SDK reads back what \<open>wrap\<close> attached. From a response that \<open>attachPactHeaders\<close> annotated it
  recovers the call id, the premium and refund as the integers they were, the outcome and the latency,
  and it takes the response for a covered one.
\<close>

theorem sdk_reads_attached_headers:
  "let p = parsePactHeaders (r_headers (attachPactHeaders resp i)) in
     pr_callId p = Some (ph_callId i) \<and> pr_premium p = Some (ph_premiumLamports i) \<and> pr_refund p = Some (ph_refundLamports i) \<and>
     pr_outcome p = Some (outcome_str (ph_outcome i)) \<and> pr_latencyMs p = Some (string_of_int (ph_latencyMs i)) \<and>
     pr_settlementPending p = (ph_settlementPending i \<or> hget (r_headers resp) ''X-Pact-Settlement-Pending'' = Some ''1'') \<and>
     isPactProcessed p"
  by (auto simp: Let_def parsePactHeaders_def bigOrNull_def isPactProcessed_def)

end
