(* ===== verification/SdkFetch.thy ===== *)
theory SdkFetch
  imports SdkTransport SdkReconcile
begin

text \<open>
  \<open>pact.fetch\<close> of \<open>packages/sdk/src\<close>: the discovery cache of \<open>slug-resolver.ts\<close>, the golden rule of
  \<open>golden-fetch.ts\<close> and the bookkeeping of \<open>factory.ts\<close>. A call is a function of the discovery answer, the
  clock readings and the answers of \<open>fetch\<close>; its trace lists the requests it makes.
\<close>

section \<open>Discovery\<close>

record slug_entry =
  sl_slug :: string
  sl_premiumBps :: "json option"
  sl_paused :: bool
  sl_network :: "json option"

record resolver =
  rs_hostToEntry :: "(string \<times> slug_entry) list"
  rs_negative :: "(string \<times> int) list"
  rs_cacheExpiresAt :: int
  rs_haveGoodCache :: bool

definition resolver_init :: resolver where
  "resolver_init = \<lparr>rs_hostToEntry = [], rs_negative = [], rs_cacheExpiresAt = 0, rs_haveGoodCache = False\<rparr>"

definition NEGATIVE_TTL_MS :: int where "NEGATIVE_TTL_MS = 300000"
definition DISCOVERY_TTL_MS :: int where "DISCOVERY_TTL_MS = 3600000"

datatype degraded_reason =
    Unregistered | Paused | Discovery_failed | Invalid_hostname | Unsigned | Unsignable_body
  | Proxy_unreachable | Proxy_auth_rejected | Proxy_error | Proxy_unprocessed

text \<open>The discovery request's answer: \<open>fetch\<close> or \<open>json\<close> throws, a status that is not ok, or a document.\<close>

datatype discovery_answer = DiscThrows | DiscNotOk | DiscDoc json

text \<open>
  The names one endpoint lists; \<open>None\<close> is the \<open>TypeError\<close> of iterating something that is not a list or
  of lowering something that is not a text. A text is iterated by its characters.
\<close>

fun host_names :: "json option \<Rightarrow> string list option" where
  "host_names None = Some []"
| "host_names (Some JNull) = Some []"
| "host_names (Some (JArr hs)) = those (List.map (\<lambda>h. case h of JStr s \<Rightarrow> Some s | _ \<Rightarrow> None) hs)"
| "host_names (Some (JStr s)) = Some (List.map (\<lambda>c. [c]) s)"
| "host_names _ = None"

definition host_key :: "string \<Rightarrow> string" where
  "host_key h = strip_trailing (CHR ''.'') (to_lower h)"

definition entry_of :: "json \<Rightarrow> string \<Rightarrow> slug_entry" where
  "entry_of ep slug = \<lparr>sl_slug = slug, sl_premiumBps = js_member (Some ep) ''premiumBps'',
     sl_paused = js_truthy (js_member (Some ep) ''paused''), sl_network = js_member (Some ep) ''network''\<rparr>"

fun index_endpoints :: "json list \<Rightarrow> (string \<times> slug_entry) list \<Rightarrow> (string \<times> slug_entry) list option" where
  "index_endpoints [] next = Some next"
| "index_endpoints (ep # eps) next =
     (case js_member (Some ep) ''slug'' of
        Some (JStr slug) \<Rightarrow>
          (case host_names (js_member (Some ep) ''hostnames'') of None \<Rightarrow> None
           | Some hs \<Rightarrow> index_endpoints eps (foldl (\<lambda>m h. AList.update (host_key h) (entry_of ep slug) m) next hs))
      | _ \<Rightarrow> index_endpoints eps next)"

definition cache_ttl :: "json \<Rightarrow> int" where
  "cache_ttl doc = (case js_member (Some doc) ''cacheTtlSec'' of
     Some (JNum n) \<Rightarrow> if n > 0 then n * 1000 else DISCOVERY_TTL_MS | _ \<Rightarrow> DISCOVERY_TTL_MS)"

text \<open>\<open>doRefresh\<close>: the new cache and whether it succeeded, or \<open>None\<close> when it throws.\<close>

definition doRefresh :: "discovery_answer \<Rightarrow> int \<Rightarrow> resolver \<Rightarrow> (resolver \<times> bool) option" where
  "doRefresh answer now st =
     (case answer of
        DiscDoc doc \<Rightarrow>
          (case js_member (Some doc) ''endpoints'' of
             Some (JArr eps) \<Rightarrow>
               map_option (\<lambda>next. (st\<lparr>rs_hostToEntry := next, rs_negative := [], rs_cacheExpiresAt := now + cache_ttl doc,
                  rs_haveGoodCache := True\<rparr>, True)) (index_endpoints eps [])
           | _ \<Rightarrow> Some (st, False))
      | _ \<Rightarrow> Some (st, False))"

definition entry_result :: "slug_entry \<Rightarrow> degraded_reason + slug_entry" where
  "entry_result e = (if sl_paused e then Inl Paused else Inr e)"

definition cached_answer :: "int \<Rightarrow> string \<Rightarrow> resolver \<Rightarrow> (degraded_reason + slug_entry) option" where
  "cached_answer now host st =
     (case map_of (rs_hostToEntry st) host of
        Some e \<Rightarrow> if now < rs_cacheExpiresAt st then Some (entry_result e)
                  else (case map_of (rs_negative st) host of
                      Some at \<Rightarrow> if now - at < NEGATIVE_TTL_MS \<and> now < rs_cacheExpiresAt st then Some (Inl Unregistered) else None
                    | None \<Rightarrow> None)
      | None \<Rightarrow> (case map_of (rs_negative st) host of
            Some at \<Rightarrow> if now - at < NEGATIVE_TTL_MS \<and> now < rs_cacheExpiresAt st then Some (Inl Unregistered) else None
          | None \<Rightarrow> None))"

text \<open>\<open>resolve\<close>: \<open>now1\<close> before the refresh and \<open>now2\<close> after its answer; \<open>None\<close> when it throws.\<close>

definition resolve_slug ::
    "int \<Rightarrow> discovery_answer \<Rightarrow> int \<Rightarrow> string \<Rightarrow> resolver \<Rightarrow> (resolver \<times> (degraded_reason + slug_entry)) option" where
  "resolve_slug now1 answer now2 host st =
     (case cached_answer now1 host st of
        Some r \<Rightarrow> Some (st, r)
      | None \<Rightarrow>
          (case doRefresh answer now2 st of None \<Rightarrow> None
           | Some (st', refreshed) \<Rightarrow>
               if \<not> refreshed \<and> \<not> rs_haveGoodCache st' then Some (st', Inl Discovery_failed)
               else (case map_of (rs_hostToEntry st') host of
                   None \<Rightarrow> Some (st'\<lparr>rs_negative := AList.update host now2 (rs_negative st')\<rparr>, Inl Unregistered)
                 | Some e \<Rightarrow> Some (st', entry_result e))))"

definition invalidate :: "resolver \<Rightarrow> resolver" where
  "invalidate st = st\<lparr>rs_cacheExpiresAt := 0\<rparr>"

section \<open>The golden rule\<close>

record request_init =
  in_method :: "string option"
  in_headers :: headers
  in_body :: body_init

text \<open>A request \<open>fetch\<close> is asked for: its URL and its init.\<close>

type_synonym fetch_call = "string \<times> request_init"

record golden_deps =
  gd_lib :: sdk_lib
  gd_proxyBaseUrl :: string
  gd_project :: string
  gd_network :: "string option"
  gd_signRequests :: bool
  gd_agentPubkey :: string
  gd_vm :: auth_vm
  gd_sign :: "(string \<Rightarrow> raw_sig option) option"

text \<open>What one call meets: the resolver's answer, the clock, the random nonce bytes and \<open>fetch\<close>.\<close>

record golden_env =
  ge_now1 :: int
  ge_discovery :: discovery_answer
  ge_now2 :: int
  ge_now :: int
  ge_random :: "nat list"
  ge_fetch :: "fetch_call \<Rightarrow> string + response"

record golden_result =
  gr_response :: response
  gr_degraded :: "degraded_reason option"
  gr_pactHeaders :: "pact_response option"
  gr_callId :: "string option"
  gr_host :: "string option"
  gr_slug :: "string option"

datatype golden_outcome = Returns golden_result | Throws string

record golden_run =
  gn_trace :: "fetch_call list"
  gn_outcome :: golden_outcome
  gn_resolver :: resolver

definition bare :: "golden_env \<Rightarrow> string \<Rightarrow> request_init \<Rightarrow> degraded_reason \<Rightarrow> string option \<Rightarrow> string option \<Rightarrow>
    fetch_call list \<Rightarrow> resolver \<Rightarrow> golden_run" where
  "bare env u init reason host slug trace st =
     \<lparr>gn_trace = trace @ [(u, init)],
      gn_outcome = (case ge_fetch env (u, init) of Inl e \<Rightarrow> Throws e
        | Inr r \<Rightarrow> Returns \<lparr>gr_response = r, gr_degraded = Some reason, gr_pactHeaders = None, gr_callId = None,
            gr_host = host, gr_slug = slug\<rparr>),
      gn_resolver = st\<rparr>"

definition fetch_method :: "request_init \<Rightarrow> string" where
  "fetch_method init = to_upper (case in_method init of None \<Rightarrow> ''GET'' | Some m \<Rightarrow> m)"

definition unsignable :: "body_init \<Rightarrow> bool" where
  "unsignable b \<longleftrightarrow> b \<noteq> NoBody \<and> b \<noteq> TextBody [] \<and> bodyToBytes b = None"

definition covered_request :: "golden_deps \<Rightarrow> golden_env \<Rightarrow> string \<Rightarrow> request_init \<Rightarrow> fetch_call option" where
  "covered_request deps env proxiedUrl init =
     (case gd_sign deps of None \<Rightarrow> None
      | Some sign \<Rightarrow> map_option (\<lambda>auth. (proxiedUrl, init\<lparr>in_method := Some (fetch_method init),
            in_headers := forward_headers (headersToRecord (in_headers init)) auth\<rparr>))
          (buildAuthHeaders (gd_lib deps)
             \<lparr>ai_method = fetch_method init, ai_proxiedUrl = proxiedUrl, ai_bodyBytes = bodyToBytes (in_body init),
              ai_agentPubkey = gd_agentPubkey deps, ai_sign = sign, ai_vm = gd_vm deps, ai_project = gd_project deps,
              ai_network = gd_network deps, ai_now = ge_now env, ai_random = ge_random env\<rparr>))"

definition unprocessed_reason :: "int \<Rightarrow> degraded_reason" where
  "unprocessed_reason status = (if status = 401 then Proxy_auth_rejected else if status \<ge> 500 then Proxy_error else Proxy_unprocessed)"

text \<open>The call once the slug is known. \<open>new URL(originalUrl)\<close> throws outside every \<open>try\<close>.\<close>

definition call_proxy :: "golden_deps \<Rightarrow> golden_env \<Rightarrow> string \<Rightarrow> request_init \<Rightarrow> string \<Rightarrow> string \<Rightarrow> resolver \<Rightarrow> golden_run" where
  "call_proxy deps env u init host slug st =
     (case buildProxiedUrl (sk_new_url (gd_lib deps)) (gd_proxyBaseUrl deps) slug u of
        None \<Rightarrow> \<lparr>gn_trace = [], gn_outcome = Throws ''Invalid URL'', gn_resolver = st\<rparr>
      | Some proxiedUrl \<Rightarrow>
          (case covered_request deps env proxiedUrl init of
             None \<Rightarrow> bare env u init Unsigned (Some host) (Some slug) [] st
           | Some call \<Rightarrow>
               (case ge_fetch env call of
                  Inl e \<Rightarrow> bare env u init Proxy_unreachable (Some host) (Some slug) [call] st
                | Inr resp \<Rightarrow>
                    let pact = parsePactHeaders (r_headers resp) in
                    if isPactProcessed pact then
                      \<lparr>gn_trace = [call], gn_outcome = Returns \<lparr>gr_response = resp, gr_degraded = None, gr_pactHeaders = Some pact,
                         gr_callId = pr_callId pact, gr_host = Some host, gr_slug = Some slug\<rparr>, gn_resolver = st\<rparr>
                    else bare env u init (unprocessed_reason (r_status resp)) (Some host) (Some slug) [call] st)))"

definition goldenFetch :: "golden_deps \<Rightarrow> golden_env \<Rightarrow> string \<Rightarrow> request_init \<Rightarrow> string option \<Rightarrow> resolver \<Rightarrow> golden_run" where
  "goldenFetch deps env u init hostnameOverride st =
     (case canonicalHostname (sk_new_url (gd_lib deps)) (case hostnameOverride of None \<Rightarrow> u | Some h \<Rightarrow> h) of
        None \<Rightarrow> bare env u init Invalid_hostname None None [] st
      | Some host \<Rightarrow>
          (case resolve_slug (ge_now1 env) (ge_discovery env) (ge_now2 env) host st of
             None \<Rightarrow> \<lparr>gn_trace = [], gn_outcome = Throws ''TypeError'', gn_resolver = st\<rparr>
           | Some (st', Inl reason) \<Rightarrow> bare env u init reason (Some host) None [] st'
           | Some (st', Inr entry) \<Rightarrow>
               if \<not> gd_signRequests deps \<or> gd_sign deps = None then bare env u init Unsigned (Some host) (Some (sl_slug entry)) [] st'
               else if unsignable (in_body init) then bare env u init Unsignable_body (Some host) (Some (sl_slug entry)) [] st'
               else call_proxy deps env u init host (sl_slug entry) st'))"

section \<open>The bookkeeping of a call\<close>

datatype fetch_event =
    Degraded degraded_reason string string
  | Failure "string option" string string string "int option" "int option" string

record fetch_result =
  pf_run :: golden_run
  pf_answer :: "string + response"
  pf_observed :: "observation option"
  pf_events :: "fetch_event list"

definition pact_outcome :: "golden_result \<Rightarrow> string option" where
  "pact_outcome res = Option.bind (gr_pactHeaders res) pr_outcome"

definition is_failure :: "golden_result \<Rightarrow> bool" where
  "is_failure res \<longleftrightarrow> pact_outcome res \<noteq> None \<and> pact_outcome res \<noteq> Some ''ok''"

definition or_empty :: "string option \<Rightarrow> string" where
  "or_empty v = (case v of None \<Rightarrow> [] | Some s \<Rightarrow> s)"

text \<open>A call without a call id, or with an empty one, is not recorded.\<close>

definition observation_of :: "golden_deps \<Rightarrow> string \<Rightarrow> golden_result \<Rightarrow> observation option" where
  "observation_of deps ts res =
     (let p = gr_pactHeaders res; amount = (\<lambda>sel. map_option string_of_int (Option.bind p sel)) in
      if or_empty (gr_callId res) = [] then None
      else Some \<lparr>ob_callId = or_empty (gr_callId res), ob_agentPubkey = gd_agentPubkey deps,
        ob_slug = (case gr_slug res of Some s \<Rightarrow> s | None \<Rightarrow> or_empty (Option.bind p pr_pool)), ob_host = or_empty (gr_host res), ob_ts = ts,
        ob_premium = amount pr_premium, ob_refund = amount pr_refund, ob_outcome = pact_outcome res, ob_breach = is_failure res\<rparr>)"

definition fetch_events :: "string \<Rightarrow> string \<Rightarrow> golden_result \<Rightarrow> fetch_event list" where
  "fetch_events u ts res =
     (case gr_degraded res of Some reason \<Rightarrow> [Degraded reason u ts]
      | None \<Rightarrow> if is_failure res then [Failure (gr_callId res) (or_empty (gr_slug res)) u (or_empty (pact_outcome res))
            (Option.bind (gr_pactHeaders res) pr_premium) (Option.bind (gr_pactHeaders res) pr_refund) ts] else [])"

text \<open>
  \<open>pact.fetch\<close>: \<open>pf_answer\<close> is what the caller's promise settles to. \<open>store\<close> is the storage: the error
  its \<open>append\<close> throws for an observation, if any; nothing catches it, and what follows it is not done.
  A listener's error never leaves \<open>emit\<close>.
\<close>

definition pact_fetch ::
    "golden_deps \<Rightarrow> golden_env \<Rightarrow> (observation \<Rightarrow> string option) \<Rightarrow> string \<Rightarrow> string \<Rightarrow> request_init \<Rightarrow> string option \<Rightarrow>
     resolver \<Rightarrow> fetch_result" where
  "pact_fetch deps env store ts u init hostnameOverride st =
     (let run = goldenFetch deps env u init hostnameOverride st in
      case gn_outcome run of
        Throws e \<Rightarrow> \<lparr>pf_run = run, pf_answer = Inl e, pf_observed = None, pf_events = []\<rparr>
      | Returns res \<Rightarrow>
          let ok = \<lparr>pf_run = run, pf_answer = Inr (gr_response res), pf_observed = None, pf_events = fetch_events u ts res\<rparr> in
          if gr_degraded res \<noteq> None then ok
          else (case observation_of deps ts res of
              None \<Rightarrow> ok
            | Some ob \<Rightarrow>
                (case store ob of None \<Rightarrow> ok\<lparr>pf_observed := Some ob\<rparr>
                 | Some e \<Rightarrow> \<lparr>pf_run = run, pf_answer = Inl e, pf_observed = None, pf_events = []\<rparr>)))"

section \<open>Lemmas\<close>

text \<open>The proxy's call for this request: signed, under the slug the resolver found for its host.\<close>

definition proxied :: "golden_deps \<Rightarrow> golden_env \<Rightarrow> string \<Rightarrow> request_init \<Rightarrow> string \<Rightarrow> fetch_call \<Rightarrow> bool" where
  "proxied deps env u init slug call \<longleftrightarrow>
     (\<exists>p. buildProxiedUrl (sk_new_url (gd_lib deps)) (gd_proxyBaseUrl deps) slug u = Some p \<and>
        covered_request deps env p init = Some call)"

definition proxy_call ::
    "golden_deps \<Rightarrow> golden_env \<Rightarrow> string \<Rightarrow> request_init \<Rightarrow> string option \<Rightarrow> resolver \<Rightarrow> fetch_call \<Rightarrow> bool" where
  "proxy_call deps env u init ov st call \<longleftrightarrow>
     (\<exists>host st' entry. canonicalHostname (sk_new_url (gd_lib deps)) (case ov of None \<Rightarrow> u | Some h \<Rightarrow> h) = Some host \<and>
        resolve_slug (ge_now1 env) (ge_discovery env) (ge_now2 env) host st = Some (st', Inr entry) \<and>
        proxied deps env u init (sl_slug entry) call)"

definition answered_covered :: "golden_env \<Rightarrow> fetch_call \<Rightarrow> bool" where
  "answered_covered env call \<longleftrightarrow> (\<exists>resp. ge_fetch env call = Inr resp \<and> isPactProcessed (parsePactHeaders (r_headers resp)))"

text \<open>The two ways the golden rule may end, where \<open>P\<close> says which call is the proxy's.\<close>

definition run_covered :: "(fetch_call \<Rightarrow> bool) \<Rightarrow> golden_env \<Rightarrow> golden_run \<Rightarrow> bool" where
  "run_covered P env run \<longleftrightarrow>
     (\<exists>call res. gn_trace run = [call] \<and> P call \<and> answered_covered env call \<and> gn_outcome run = Returns res \<and>
        ge_fetch env call = Inr (gr_response res) \<and> gr_degraded res = None)"

definition run_bare :: "(fetch_call \<Rightarrow> bool) \<Rightarrow> golden_env \<Rightarrow> string \<Rightarrow> request_init \<Rightarrow> golden_run \<Rightarrow> bool" where
  "run_bare P env u init run \<longleftrightarrow>
     (\<exists>before. (before = [] \<or> (\<exists>call. before = [call] \<and> P call \<and> \<not> answered_covered env call)) \<and>
        gn_trace run = before @ [(u, init)] \<and>
        (case ge_fetch env (u, init) of Inl e \<Rightarrow> gn_outcome run = Throws e
         | Inr resp \<Rightarrow> \<exists>res reason. gn_outcome run = Returns res \<and> gr_response res = resp \<and> gr_degraded res = Some reason))"

text \<open>The three ways a call of \<open>pact.fetch\<close> may end.\<close>

definition ends_covered :: "(fetch_call \<Rightarrow> bool) \<Rightarrow> golden_env \<Rightarrow> fetch_result \<Rightarrow> bool" where
  "ends_covered P env f \<longleftrightarrow>
     (\<exists>call resp. gn_trace (pf_run f) = [call] \<and> P call \<and> answered_covered env call \<and>
        ge_fetch env call = Inr resp \<and> pf_answer f = Inr resp)"

definition ends_unrecorded :: "(fetch_call \<Rightarrow> bool) \<Rightarrow> golden_env \<Rightarrow> (observation \<Rightarrow> string option) \<Rightarrow> fetch_result \<Rightarrow> bool" where
  "ends_unrecorded P env store f \<longleftrightarrow>
     (\<exists>call resp ob e. gn_trace (pf_run f) = [call] \<and> P call \<and> answered_covered env call \<and> ge_fetch env call = Inr resp \<and>
        pr_callId (parsePactHeaders (r_headers resp)) = Some (ob_callId ob) \<and> store ob = Some e \<and>
        pf_answer f = Inl e \<and> pf_observed f = None \<and> pf_events f = [])"

definition ends_bare ::
    "(fetch_call \<Rightarrow> bool) \<Rightarrow> golden_env \<Rightarrow> string \<Rightarrow> string \<Rightarrow> request_init \<Rightarrow> fetch_result \<Rightarrow> bool" where
  "ends_bare P env ts u init f \<longleftrightarrow>
     (\<exists>before. (before = [] \<or> (\<exists>call. before = [call] \<and> P call \<and> \<not> answered_covered env call)) \<and>
        gn_trace (pf_run f) = before @ [(u, init)] \<and> pf_answer f = ge_fetch env (u, init) \<and> pf_observed f = None \<and>
        (case ge_fetch env (u, init) of Inl e \<Rightarrow> pf_events f = [] | Inr resp \<Rightarrow> \<exists>reason. pf_events f = [Degraded reason u ts]))"

lemma bare_ends:
  "before = [] \<or> (\<exists>call. before = [call] \<and> P call \<and> \<not> answered_covered env call) \<Longrightarrow>
     run_bare P env u init (bare env u init reason host slug before st)"
  by (auto simp: run_bare_def bare_def split: sum.split)

lemma call_proxy_ends:
  assumes "sk_new_url (gd_lib deps) u \<noteq> None" and P: "\<And>call. proxied deps env u init slug call \<Longrightarrow> P call"
  shows "run_covered P env (call_proxy deps env u init host slug st) \<or> run_bare P env u init (call_proxy deps env u init host slug st)"
proof -
  obtain p where p: "buildProxiedUrl (sk_new_url (gd_lib deps)) (gd_proxyBaseUrl deps) slug u = Some p"
    using assms by (auto simp: buildProxiedUrl_def)
  show ?thesis
  proof (cases "covered_request deps env p init")
    case None
    then show ?thesis by (simp add: call_proxy_def p bare_ends)
  next
    case (Some call)
    have c: "P call" using p Some by (intro P) (auto simp: proxied_def)
    show ?thesis
    proof (cases "ge_fetch env call")
      case (Inl e)
      then have "\<not> answered_covered env call" by (simp add: answered_covered_def)
      then show ?thesis using c Inl by (simp add: call_proxy_def p Some bare_ends)
    next
      case (Inr resp)
      show ?thesis
      proof (cases "isPactProcessed (parsePactHeaders (r_headers resp))")
        case True
        then have "run_covered P env (call_proxy deps env u init host slug st)"
          using c by (simp add: call_proxy_def p Some Inr run_covered_def answered_covered_def Let_def split_paired_Ex)
        then show ?thesis ..
      next
        case False
        then have "\<not> answered_covered env call" using Inr by (simp add: answered_covered_def)
        then show ?thesis using c False by (simp add: call_proxy_def p Some Inr bare_ends)
      qed
    qed
  qed
qed

lemma goldenFetch_ends:
  assumes "doRefresh (ge_discovery env) (ge_now2 env) st \<noteq> None" "sk_new_url (gd_lib deps) u \<noteq> None"
  shows "run_covered (proxy_call deps env u init ov st) env (goldenFetch deps env u init ov st) \<or>
    run_bare (proxy_call deps env u init ov st) env u init (goldenFetch deps env u init ov st)"
proof (cases "canonicalHostname (sk_new_url (gd_lib deps)) (case ov of None \<Rightarrow> u | Some h \<Rightarrow> h)")
  case None
  then show ?thesis by (simp add: goldenFetch_def bare_ends)
next
  case (Some host)
  have "resolve_slug (ge_now1 env) (ge_discovery env) (ge_now2 env) host st \<noteq> None"
    using assms(1) by (auto simp: resolve_slug_def split: option.split)
  then obtain st' r where r: "resolve_slug (ge_now1 env) (ge_discovery env) (ge_now2 env) host st = Some (st', r)" by fastforce
  show ?thesis
  proof (cases r)
    case (Inl reason)
    then show ?thesis by (simp add: goldenFetch_def Some r bare_ends)
  next
    case (Inr entry)
    have "proxied deps env u init (sl_slug entry) call \<Longrightarrow> proxy_call deps env u init ov st call" for call
      using Some r Inr by (auto simp: proxy_call_def)
    then show ?thesis using call_proxy_ends [OF assms(2), of env init "sl_slug entry" "proxy_call deps env u init ov st"]
      by (simp add: goldenFetch_def Some r Inr bare_ends)
  qed
qed

lemma foldl_update_names:
  "fst ` set (foldl (\<lambda>hs (k, v). AList.update k v hs) hs kvs) = fst ` set hs \<union> fst ` set kvs"
  by (induction kvs arbitrary: hs) (simp_all add: dom_update split_beta)

lemma forward_stripped:
  assumes "\<And>k. k \<in> fst ` set auth \<Longrightarrow> to_lower k \<notin> set SDK_STRIPPED_HEADERS" "k \<in> fst ` set (forward_headers caller auth)"
  shows "to_lower k \<notin> set SDK_STRIPPED_HEADERS"
proof -
  have "to_lower ''accept-encoding'' = ''accept-encoding''" by code_simp
  then have ae: "to_lower ''accept-encoding'' \<notin> set SDK_STRIPPED_HEADERS" by (simp add: SDK_STRIPPED_HEADERS_def)
  have "k \<in> fst ` set (cleanForwardHeaders caller) \<or> k \<in> fst ` set auth"
    using assms(2) by (simp add: forward_headers_def foldl_update_names)
  then show ?thesis
    using assms(1) ae by (auto simp: cleanForwardHeaders_def Let_def dom_update split: if_split_asm)
qed

lemma auth_header_names:
  assumes "buildAuthHeaders l i = Some auth"
  shows "distinct (map fst auth)" "k \<in> fst ` set auth \<Longrightarrow> to_lower k \<notin> set SDK_STRIPPED_HEADERS"
    "map_of auth ''x-pact-agent'' = Some (ai_agentPubkey i)"
proof -
  have lower: "to_lower ''x-pact-agent'' = ''x-pact-agent''" "to_lower ''x-pact-timestamp'' = ''x-pact-timestamp''"
      "to_lower ''x-pact-nonce'' = ''x-pact-nonce''" "to_lower ''x-pact-signature'' = ''x-pact-signature''"
      "to_lower ''x-pact-project'' = ''x-pact-project''" "to_lower ''x-pact-network'' = ''x-pact-network''" by code_simp+
  obtain t n s p rest where a: "auth = [(''x-pact-agent'', ai_agentPubkey i), (''x-pact-timestamp'', t), (''x-pact-nonce'', n),
      (''x-pact-signature'', s), (''x-pact-project'', p)] @ rest" and r: "rest = [] \<or> (\<exists>v. rest = [(''x-pact-network'', v)])"
    using assms unfolding buildAuthHeaders_def Let_def by (auto split: option.split_asm if_split_asm)
  show "distinct (map fst auth)" "k \<in> fst ` set auth \<Longrightarrow> to_lower k \<notin> set SDK_STRIPPED_HEADERS"
    "map_of auth ''x-pact-agent'' = Some (ai_agentPubkey i)"
    using a r lower by (auto simp: SDK_STRIPPED_HEADERS_def)
qed

lemma covered_request_headers:
  assumes "covered_request deps env p init = Some call"
  shows "fst call = p" "in_body (snd call) = in_body init"
    "map_of (in_headers (snd call)) ''x-pact-agent'' = Some (gd_agentPubkey deps)"
    "k \<in> fst ` set (in_headers (snd call)) \<Longrightarrow> to_lower k \<notin> set SDK_STRIPPED_HEADERS"
proof -
  obtain sgn i auth where i: "buildAuthHeaders (gd_lib deps) i = Some auth" "ai_agentPubkey i = gd_agentPubkey deps"
    and c: "call = (p, init\<lparr>in_method := Some (fetch_method init), in_headers := forward_headers (headersToRecord (in_headers init)) auth\<rparr>)"
    using assms unfolding covered_request_def by (auto split: option.split_asm)
  note names = auth_header_names [OF i(1)]
  show "fst call = p" "in_body (snd call) = in_body init" by (simp_all add: c)
  show "map_of (in_headers (snd call)) ''x-pact-agent'' = Some (gd_agentPubkey deps)"
    using forward_auth [OF names(1)] names(3) i(2) by (simp add: c)
  show "k \<in> fst ` set (in_headers (snd call)) \<Longrightarrow> to_lower k \<notin> set SDK_STRIPPED_HEADERS"
    using forward_stripped [OF names(2)] by (simp add: c)
qed

lemma call_proxy_trace:
  assumes "call \<in> set (gn_trace (call_proxy deps env u init host slug st))" "call \<noteq> (u, init)"
  shows "\<exists>p. buildProxiedUrl (sk_new_url (gd_lib deps)) (gd_proxyBaseUrl deps) slug u = Some p \<and> covered_request deps env p init = Some call"
  using assms unfolding call_proxy_def bare_def Let_def
  by (auto split: option.split_asm sum.split_asm if_split_asm)

lemma goldenFetch_proxied:
  assumes "call \<in> set (gn_trace (goldenFetch deps env u init ov st))" "call \<noteq> (u, init)"
  obtains host st' entry where
    "canonicalHostname (sk_new_url (gd_lib deps)) (case ov of None \<Rightarrow> u | Some h \<Rightarrow> h) = Some host"
    "resolve_slug (ge_now1 env) (ge_discovery env) (ge_now2 env) host st = Some (st', Inr entry)"
    "\<not> unsignable (in_body init)"
    "call \<in> set (gn_trace (call_proxy deps env u init host (sl_slug entry) st'))"
  using assms that unfolding goldenFetch_def
  by (auto simp: bare_def split: option.split_asm sum.split_asm prod.split_asm if_split_asm)

lemma resolved_unpaused:
  assumes "resolve_slug now1 answer now2 host st = Some (st', Inr entry)"
  shows "\<not> sl_paused entry" "map_of (rs_hostToEntry st') host = Some entry"
  using assms unfolding resolve_slug_def cached_answer_def entry_result_def
  by (auto split: option.split_asm if_split_asm prod.split_asm)

lemma pact_fetch_answers:
  "gn_outcome (goldenFetch deps env u init ov st) = Throws e \<Longrightarrow> pact_fetch deps env store ts u init ov st =
     \<lparr>pf_run = goldenFetch deps env u init ov st, pf_answer = Inl e, pf_observed = None, pf_events = []\<rparr>"
  "gn_outcome (goldenFetch deps env u init ov st) = Returns res \<Longrightarrow> gr_degraded res \<noteq> None \<Longrightarrow> pact_fetch deps env store ts u init ov st =
     \<lparr>pf_run = goldenFetch deps env u init ov st, pf_answer = Inr (gr_response res), pf_observed = None, pf_events = fetch_events u ts res\<rparr>"
  "gn_outcome (goldenFetch deps env u init ov st) = Returns res \<Longrightarrow> gr_degraded res = None \<Longrightarrow> pact_fetch deps env store ts u init ov st =
     (case observation_of deps ts res of
        None \<Rightarrow> \<lparr>pf_run = goldenFetch deps env u init ov st, pf_answer = Inr (gr_response res), pf_observed = None,
          pf_events = fetch_events u ts res\<rparr>
      | Some ob \<Rightarrow> (case store ob of
            None \<Rightarrow> \<lparr>pf_run = goldenFetch deps env u init ov st, pf_answer = Inr (gr_response res), pf_observed = Some ob,
              pf_events = fetch_events u ts res\<rparr>
          | Some e \<Rightarrow> \<lparr>pf_run = goldenFetch deps env u init ov st, pf_answer = Inl e, pf_observed = None, pf_events = []\<rparr>))"
  by (simp_all add: pact_fetch_def Let_def split: option.split)

lemma returned_covered:
  assumes "gn_outcome (goldenFetch deps env u init ov st) = Returns res" "gr_degraded res = None"
  shows "gr_pactHeaders res = Some (parsePactHeaders (r_headers (gr_response res)))"
    "gr_callId res = pr_callId (parsePactHeaders (r_headers (gr_response res)))" "\<exists>s. gr_slug res = Some s"
  using assms unfolding goldenFetch_def call_proxy_def bare_def Let_def
  by (auto split: option.split_asm sum.split_asm prod.split_asm if_split_asm)

section \<open>A concrete call\<close>

definition demo_deps :: golden_deps where
  "demo_deps = \<lparr>gd_lib = demo_sdk, gd_proxyBaseUrl = ''https://p/'', gd_project = ''proj'', gd_network = None, gd_signRequests = True,
     gd_agentPubkey = ''A'', gd_vm = SOLANA, gd_sign = Some (\<lambda>_. Some (SigBytes (replicate 64 7)))\<rparr>"

definition demo_annotations :: pact_header_inputs where
  "demo_annotations = \<lparr>ph_callId = ''c1'', ph_outcome = ServerError, ph_premiumLamports = 1000, ph_refundLamports = 5000,
     ph_latencyMs = 12, ph_pool = None, ph_settlementPending = True\<rparr>"

definition demo_answer :: response where
  "demo_answer = attachPactHeaders (json_response 503 []) demo_annotations"

definition demo_discovery :: json where
  "demo_discovery = JObj [(''cacheTtlSec'', JNum 60),
     (''endpoints'', JArr [JObj [(''slug'', JStr ''fal''), (''hostnames'', JArr [JStr ''p'']), (''paused'', JBool False)]])]"

definition demo_env :: golden_env where
  "demo_env = \<lparr>ge_now1 = 0, ge_discovery = DiscDoc demo_discovery, ge_now2 = 5, ge_now = 10, ge_random = [1],
     ge_fetch = (\<lambda>call. Inr demo_answer)\<rparr>"

definition demo_request :: request_init where
  "demo_request = \<lparr>in_method = None, in_headers = [(''authorization'', ''secret'')], in_body = NoBody\<rparr>"

definition demo_golden :: golden_run where
  "demo_golden = goldenFetch demo_deps demo_env ''https://p/x'' demo_request None resolver_init"

lemma demo_host: "canonicalHostname (sk_new_url demo_sdk) ''https://p/x'' = Some ''p''"
  by (simp add: canonicalHostname_def demo_sdk_def strip_trailing_def trim_def is_space_def to_lower_def lower_char_def)

abbreviation demo_entry :: slug_entry where
  "demo_entry \<equiv> \<lparr>sl_slug = ''fal'', sl_premiumBps = None, sl_paused = False, sl_network = None\<rparr>"

lemma demo_refresh: "doRefresh (DiscDoc demo_discovery) 5 resolver_init =
    Some (\<lparr>rs_hostToEntry = [(''p'', demo_entry)], rs_negative = [], rs_cacheExpiresAt = 60005, rs_haveGoodCache = True\<rparr>, True)"
  by (simp add: doRefresh_def resolver_init_def demo_discovery_def cache_ttl_def host_key_def strip_trailing_def to_lower_def
      lower_char_def entry_of_def)

lemma demo_resolve: "resolve_slug 0 (DiscDoc demo_discovery) 5 ''p'' resolver_init =
    Some (\<lparr>rs_hostToEntry = [(''p'', demo_entry)], rs_negative = [], rs_cacheExpiresAt = 60005, rs_haveGoodCache = True\<rparr>, Inr demo_entry)"
  using demo_refresh by (simp add: resolve_slug_def cached_answer_def resolver_init_def entry_result_def)

lemma demo_golden_run:
  obtains call where "gn_trace demo_golden = [call]" "fst call = ''https://p/v1/fal/v1/fal/x?a=1''"
    "gn_outcome demo_golden = Returns \<lparr>gr_response = demo_answer, gr_degraded = None,
       gr_pactHeaders = Some (parsePactHeaders (r_headers demo_answer)), gr_callId = Some ''c1'', gr_host = Some ''p'', gr_slug = Some ''fal''\<rparr>"
proof -
  have p: "buildProxiedUrl (sk_new_url demo_sdk) ''https://p/'' ''fal'' ''https://p/x'' = Some ''https://p/v1/fal/v1/fal/x?a=1''"
    by (simp add: buildProxiedUrl_def demo_sdk_def strip_trailing_def)
  obtain call where c: "covered_request demo_deps demo_env ''https://p/v1/fal/v1/fal/x?a=1'' demo_request = Some call"
    by (simp add: covered_request_def demo_deps_def buildAuthHeaders_def demo_sdk_def signature_text_def Let_def)
  have pact: "pr_callId (parsePactHeaders (r_headers demo_answer)) = Some ''c1''"
    by (simp add: parsePactHeaders_def demo_answer_def demo_annotations_def)
  have run: "demo_golden = \<lparr>gn_trace = [call], gn_outcome = Returns \<lparr>gr_response = demo_answer, gr_degraded = None,
       gr_pactHeaders = Some (parsePactHeaders (r_headers demo_answer)), gr_callId = Some ''c1'', gr_host = Some ''p'', gr_slug = Some ''fal''\<rparr>,
      gn_resolver = \<lparr>rs_hostToEntry = [(''p'', demo_entry)], rs_negative = [], rs_cacheExpiresAt = 60005, rs_haveGoodCache = True\<rparr>\<rparr>"
    using demo_host demo_resolve p c pact
    by (simp add: demo_golden_def goldenFetch_def call_proxy_def isPactProcessed_def demo_deps_def demo_env_def demo_request_def unsignable_def)
  show ?thesis by (rule that [of call]) (simp_all add: run covered_request_headers(1) [OF c])
qed

section \<open>Where the golden rule stops\<close>

text \<open>
  A discovery document whose \<open>hostnames\<close> is a number makes the resolver throw, and with it the call: no
  request is made. So does a URL that \<open>new URL\<close> refuses, when an override names a covered host.
\<close>

theorem malformed_discovery_stops_call:
  assumes "canonicalHostname (sk_new_url (gd_lib deps)) u = Some host"
    and "ge_discovery env = DiscDoc (JObj [(''endpoints'', JArr [JObj [(''slug'', JStr s), (''hostnames'', JNum 1)]])])"
  shows "goldenFetch deps env u init None resolver_init = \<lparr>gn_trace = [], gn_outcome = Throws ''TypeError'', gn_resolver = resolver_init\<rparr>"
  using assms by (simp add: goldenFetch_def resolve_slug_def cached_answer_def doRefresh_def resolver_init_def)

theorem unparsed_url_stops_call:
  assumes "sk_new_url (gd_lib deps) u = None"
  shows "gn_trace (call_proxy deps env u init host slug st) = [] \<and> gn_outcome (call_proxy deps env u init host slug st) = Throws ''Invalid URL''"
  using assms by (simp add: call_proxy_def buildProxiedUrl_def)

text \<open>
  A call the proxy refused before it reached the upstream (its balance check failed, or found too little)
  carries the annotations, so the SDK takes it for covered: the refusal is the caller's response, the
  upstream is not called, and no settlement event exists that could ever reconcile the observation.
\<close>

theorem refused_call_is_returned:
  assumes "\<not> balance_admits bal" "buildProxiedUrl (sk_new_url (gd_lib deps)) (gd_proxyBaseUrl deps) slug u = Some p"
    and "covered_request deps env p init = Some call"
    and "ge_fetch env call = Inr (wr_response (fst (wrapFetch opts bal up t0 t1)))"
  shows "\<exists>res. gn_outcome (call_proxy deps env u init host slug st) = Returns res \<and> r_status (gr_response res) \<in> {402, 503} \<and>
    gr_degraded res = None \<and> gr_callId res = Some (wo_callId opts) \<and>
    gn_trace (call_proxy deps env u init host slug st) = [call] \<and> snd (wrapFetch opts bal up t0 t1) = []"
proof (rule wrapFetch_refused [OF assms(1)])
  fix s body oc
  assume w: "wrapFetch opts bal up t0 t1 = (refused_result opts s body oc, [])" "s \<in> {402, 503}"
  then show ?thesis using assms(2-4)
    by (auto simp: call_proxy_def refused_result_def parsePactHeaders_def isPactProcessed_def json_response_def Let_def)
qed

section \<open>Properties\<close>

text \<open>
  C33: the golden rule. When the discovery answer is not malformed and the URL parses, a call of
  \<open>pact.fetch\<close> ends in one of three ways, where the proxy's call is the signed one to the slug that the
  discovery has for the call's host. Either that call is the only request made and its response, which
  carries a call id or an outcome, is what the caller gets. Or it is the only request made, its response
  is such a one, and the storage throws when the observation of its call id is appended: the caller
  gets this error instead of the response, and no event is emitted. Or the caller's own request is made,
  unchanged and last, after at most the proxy's call, which failed or was answered by a response that
  carries neither; the caller gets the result of its own request, an error included, nothing is
  recorded, and a response is reported by exactly one event, that the call was degraded.
\<close>

theorem golden_rule:
  assumes "doRefresh (ge_discovery env) (ge_now2 env) st \<noteq> None" "sk_new_url (gd_lib deps) u \<noteq> None"
    and "P = proxy_call deps env u init ov st"
  shows "case pact_fetch deps env store ts u init ov st of f \<Rightarrow>
    ends_covered P env f \<or> ends_unrecorded P env store f \<or> ends_bare P env ts u init f"
proof -
  let ?run = "goldenFetch deps env u init ov st" and ?f = "pact_fetch deps env store ts u init ov st"
  have "run_covered P env ?run \<or> run_bare P env u init ?run" unfolding assms(3) by (rule goldenFetch_ends [OF assms(1,2)])
  then show ?thesis
  proof
    assume "run_covered P env ?run"
    then obtain call res where c: "gn_trace ?run = [call]" "P call" "answered_covered env call" "gn_outcome ?run = Returns res"
      "ge_fetch env call = Inr (gr_response res)" "gr_degraded res = None" by (auto simp: run_covered_def)
    note f = pact_fetch_answers(3) [OF c(4,6), of store ts] and r = returned_covered [OF c(4,6)]
    show ?thesis
    proof (cases "observation_of deps ts res")
      case (Some ob)
      then have i: "gr_callId res = Some (ob_callId ob)"
        by (auto simp: observation_of_def Let_def or_empty_def split: if_split_asm option.split_asm)
      show ?thesis
      proof (cases "store ob")
        case None
        then have "ends_covered P env ?f" using c by (simp add: f Some ends_covered_def)
        then show ?thesis by simp
      next
        case Some_e: (Some e)
        then have "ends_unrecorded P env store ?f" using c i r(2) by (auto simp: f Some ends_unrecorded_def)
        then show ?thesis by simp
      qed
    next
      case None
      then have "ends_covered P env ?f" using c by (simp add: f ends_covered_def)
      then show ?thesis by simp
    qed
  next
    assume "run_bare P env u init ?run"
    then have "ends_bare P env ts u init ?f"
      by (auto simp: run_bare_def ends_bare_def pact_fetch_answers fetch_events_def split: sum.splits)
    then show ?thesis by simp
  qed
qed

theorem golden_rule_witness:
  "ends_covered (proxy_call demo_deps demo_env ''https://p/x'' demo_request None resolver_init) demo_env
     (pact_fetch demo_deps demo_env (\<lambda>_. None) ''t'' ''https://p/x'' demo_request None resolver_init)"
proof (rule demo_golden_run)
  fix call assume c: "gn_trace demo_golden = [call]" "fst call = ''https://p/v1/fal/v1/fal/x?a=1''"
  let ?P = "proxy_call demo_deps demo_env ''https://p/x'' demo_request None resolver_init"
  let ?f = "pact_fetch demo_deps demo_env (\<lambda>_. None) ''t'' ''https://p/x'' demo_request None resolver_init"
  have "pf_run ?f = demo_golden" by (simp add: pact_fetch_def demo_golden_def Let_def split: golden_outcome.split option.split)
  then have "\<not> ends_bare ?P demo_env ''t'' ''https://p/x'' demo_request ?f" "\<not> ends_unrecorded ?P demo_env (\<lambda>_. None) ?f"
    using c by (auto simp: ends_bare_def ends_unrecorded_def)
  moreover have "doRefresh (ge_discovery demo_env) (ge_now2 demo_env) resolver_init \<noteq> None"
    "sk_new_url (gd_lib demo_deps) ''https://p/x'' \<noteq> None"
    by (simp_all add: demo_env_def demo_refresh demo_deps_def demo_sdk_def)
  from golden_rule [OF this refl, where store = "\<lambda>_. None" and ts = "''t''" and init = demo_request and ov = None]
  have "ends_covered ?P demo_env ?f \<or> ends_unrecorded ?P demo_env (\<lambda>_. None) ?f \<or> ends_bare ?P demo_env ''t'' ''https://p/x'' demo_request ?f"
    by simp
  ultimately show ?thesis by blast
qed

text \<open>
  A covered response can be lost. When the storage throws as the observation of a covered call is
  appended, \<open>pact.fetch\<close> throws that error although the proxy answered and the call is billed.
\<close>

theorem failed_append_loses_response:
  assumes "gn_outcome (goldenFetch deps env u init ov st) = Returns res" "gr_degraded res = None"
    and "gr_callId res = Some (c # cs)" "\<And>ob. ob_callId ob = c # cs \<Longrightarrow> store ob = Some e"
  shows "pf_answer (pact_fetch deps env store ts u init ov st) = Inl e"
  using assms by (simp add: pact_fetch_answers(3) observation_of_def or_empty_def Let_def)

text \<open>
  C34: the only request made besides the caller's own goes to the proxy, under the slug of an endpoint the
  discovery document lists for the call's host and does not pause; it carries the SDK's agent, the
  caller's body, and none of the credential headers the SDK strips.
\<close>

theorem proxied_call_is_covered:
  assumes "call \<in> set (gn_trace (goldenFetch deps env u init ov st))" "call \<noteq> (u, init)"
  shows "(\<exists>host entry pu. map_of (rs_hostToEntry (gn_resolver (goldenFetch deps env u init ov st))) host = Some entry \<and>
      canonicalHostname (sk_new_url (gd_lib deps)) (case ov of None \<Rightarrow> u | Some h \<Rightarrow> h) = Some host \<and> \<not> sl_paused entry \<and>
      sk_new_url (gd_lib deps) u = Some pu \<and>
      fst call = strip_trailing (CHR ''/'') (gd_proxyBaseUrl deps) @ ''/v1/'' @ sl_slug entry @ su_pathname pu @ su_search pu) \<and>
    map_of (in_headers (snd call)) ''x-pact-agent'' = Some (gd_agentPubkey deps) \<and> in_body (snd call) = in_body init \<and>
    list_all (\<lambda>(k, v). to_lower k \<notin> set SDK_STRIPPED_HEADERS) (in_headers (snd call))"
proof -
  obtain host st' entry where h: "canonicalHostname (sk_new_url (gd_lib deps)) (case ov of None \<Rightarrow> u | Some h \<Rightarrow> h) = Some host"
    and r: "resolve_slug (ge_now1 env) (ge_discovery env) (ge_now2 env) host st = Some (st', Inr entry)"
    and b: "\<not> unsignable (in_body init)"
    and t: "call \<in> set (gn_trace (call_proxy deps env u init host (sl_slug entry) st'))"
    by (rule goldenFetch_proxied [OF assms])
  obtain p where p: "buildProxiedUrl (sk_new_url (gd_lib deps)) (gd_proxyBaseUrl deps) (sl_slug entry) u = Some p"
    and c: "covered_request deps env p init = Some call"
    using call_proxy_trace [OF t assms(2)] by blast
  note names = covered_request_headers [OF c]
  note paused = resolved_unpaused [OF r]
  have sign: "gd_signRequests deps \<and> gd_sign deps \<noteq> None"
    using assms by (auto simp: goldenFetch_def h r bare_def split: if_split_asm)
  have run: "goldenFetch deps env u init ov st = call_proxy deps env u init host (sl_slug entry) st'"
    using sign b by (auto simp: goldenFetch_def h r)
  have st: "gn_resolver (call_proxy deps env u init host (sl_slug entry) st') = st'"
    by (simp add: call_proxy_def bare_def Let_def split: option.split sum.split)
  obtain pu where pu: "sk_new_url (gd_lib deps) u = Some pu"
      "p = strip_trailing (CHR ''/'') (gd_proxyBaseUrl deps) @ ''/v1/'' @ sl_slug entry @ su_pathname pu @ su_search pu"
    using p by (auto simp: buildProxiedUrl_def)
  have "list_all (\<lambda>(k, v). to_lower k \<notin> set SDK_STRIPPED_HEADERS) (in_headers (snd call))"
    using names(4) unfolding list_all_iff by (metis (mono_tags, lifting) case_prod_beta' imageI)
  then show ?thesis using names(1,2,3) h paused pu run st by auto
qed

theorem proxied_call_is_covered_witness:
  "list_all (\<lambda>call. map_of (in_headers (snd call)) ''x-pact-agent'' = Some ''A'' \<and>
      list_all (\<lambda>(k, v). to_lower k \<notin> set SDK_STRIPPED_HEADERS) (in_headers (snd call))) (gn_trace demo_golden) \<and>
    length (gn_trace demo_golden) = 1"
proof (rule demo_golden_run)
  fix call
  assume c: "gn_trace demo_golden = [call]" "fst call = ''https://p/v1/fal/v1/fal/x?a=1''"
  then have "call \<in> set (gn_trace demo_golden)" "call \<noteq> (''https://p/x'', demo_request)" by auto
  from proxied_call_is_covered [OF this [unfolded demo_golden_def]] c show ?thesis by (simp add: demo_deps_def)
qed

text \<open>
  C36: a covered call is recorded as \<open>wrap\<close> billed it. When the response is one that \<open>attachPactHeaders\<close>
  annotated, the observation handed to the store carries its call id, and its premium and refund read
  back as the integers that were attached. If the store takes it, it is the one recorded, the caller
  gets the response, and a failure event is emitted exactly when the outcome is not ok; if the store
  throws, nothing is recorded or emitted and the caller gets the error.
\<close>

theorem covered_call_is_recorded:
  assumes "gn_outcome (goldenFetch deps env u init ov st) = Returns res" "gr_degraded res = None"
    and "gr_response res = attachPactHeaders resp i" "ph_callId i \<noteq> []"
  shows "\<exists>ob. row_id (obs_json ob) = Some (ph_callId i) \<and> row_pending (obs_json ob) \<and> Some (ob_slug ob) = gr_slug res \<and>
       safeBig (get_prop (obs_json ob) ''premiumLamports'') = ph_premiumLamports i \<and>
       safeBig (get_prop (obs_json ob) ''refundLamports'') = ph_refundLamports i \<and>
       ob_outcome ob = Some (outcome_str (ph_outcome i)) \<and> (ob_breach ob \<longleftrightarrow> ph_outcome i \<noteq> Ok) \<and>
       (case store ob of
          None \<Rightarrow> pf_observed (pact_fetch deps env store ts u init ov st) = Some ob \<and>
            pf_answer (pact_fetch deps env store ts u init ov st) = Inr (gr_response res) \<and>
            (pf_events (pact_fetch deps env store ts u init ov st) = []) = (ph_outcome i = Ok)
        | Some e \<Rightarrow> pf_observed (pact_fetch deps env store ts u init ov st) = None \<and>
            pf_answer (pact_fetch deps env store ts u init ov st) = Inl e \<and>
            pf_events (pact_fetch deps env store ts u init ov st) = [])"
proof -
  note r = returned_covered [OF assms(1,2)]
  obtain s where s: "gr_slug res = Some s" using r(3) by blast
  have p: "pr_callId (parsePactHeaders (r_headers (gr_response res))) = Some (ph_callId i)"
      "pr_premium (parsePactHeaders (r_headers (gr_response res))) = Some (ph_premiumLamports i)"
      "pr_refund (parsePactHeaders (r_headers (gr_response res))) = Some (ph_refundLamports i)"
      "pr_outcome (parsePactHeaders (r_headers (gr_response res))) = Some (outcome_str (ph_outcome i))"
    by (simp_all add: parsePactHeaders_def bigOrNull_def assms(3))
  have ok: "outcome_str oc = ''ok'' \<longleftrightarrow> oc = Ok" for oc by (cases oc) simp_all
  have o: "pact_outcome res = Some (outcome_str (ph_outcome i))" by (simp add: pact_outcome_def r(1) p)
  have f: "is_failure res \<longleftrightarrow> ph_outcome i \<noteq> Ok" by (simp add: is_failure_def o ok)
  define ob where "ob = \<lparr>ob_callId = ph_callId i, ob_agentPubkey = gd_agentPubkey deps, ob_slug = s, ob_host = or_empty (gr_host res), ob_ts = ts,
        ob_premium = Some (string_of_int (ph_premiumLamports i)), ob_refund = Some (string_of_int (ph_refundLamports i)),
        ob_outcome = Some (outcome_str (ph_outcome i)), ob_breach = (ph_outcome i \<noteq> Ok)\<rparr>"
  have observed: "observation_of deps ts res = Some ob"
    using assms(4) r(1,2) p s o f by (simp add: observation_of_def Let_def or_empty_def ob_def)
  note run = pact_fetch_answers(3) [OF assms(1,2), of store ts, unfolded observed option.case]
  have row: "row_id (obs_json ob) = Some (ph_callId i) \<and> row_pending (obs_json ob) \<and> Some (ob_slug ob) = gr_slug res \<and>
       safeBig (get_prop (obs_json ob) ''premiumLamports'') = ph_premiumLamports i \<and>
       safeBig (get_prop (obs_json ob) ''refundLamports'') = ph_refundLamports i \<and>
       ob_outcome ob = Some (outcome_str (ph_outcome i)) \<and> (ob_breach ob \<longleftrightarrow> ph_outcome i \<noteq> Ok)"
    by (simp add: obs_json_row ob_def s) (simp add: obs_json_def get_prop_def safeBig_def or_null_def)
  have "fetch_events u ts res = [] \<longleftrightarrow> ph_outcome i = Ok" using assms(2) f by (simp add: fetch_events_def)
  then show ?thesis using row by (intro exI [of _ ob]) (simp add: run split: option.split)
qed

theorem covered_call_is_recorded_witness:
  "(case pf_observed (pact_fetch demo_deps demo_env (\<lambda>_. None) ''t'' ''https://p/x'' demo_request None resolver_init) of None \<Rightarrow> False
     | Some ob \<Rightarrow> row_id (obs_json ob) = Some ''c1'' \<and> safeBig (get_prop (obs_json ob) ''refundLamports'') = 5000 \<and> ob_breach ob)"
proof (rule demo_golden_run)
  assume "gn_outcome demo_golden = Returns \<lparr>gr_response = demo_answer, gr_degraded = None,
       gr_pactHeaders = Some (parsePactHeaders (r_headers demo_answer)), gr_callId = Some ''c1'', gr_host = Some ''p'', gr_slug = Some ''fal''\<rparr>"
  from covered_call_is_recorded [OF this [unfolded demo_golden_def], of "json_response 503 []" demo_annotations "\<lambda>_. None" "''t''"]
  show ?thesis by (auto simp: demo_answer_def demo_annotations_def)
qed

end
