(* ===== verification/Spec2Isabelle.thy ===== *)
theory Spec2Isabelle
  imports ProxyRoute Pipeline Reorg EvmAdapter RefundDelivery Facilitator SdkWebhook SdkFetch
begin

text \<open>skeleton\<close>

section \<open>Reconciling an EVM network\<close>

text \<open>Only ids that some round yielded are remembered.\<close>

lemma scan_events_seen: "set (fst (scan_events cap es seen scanned)) \<subseteq> set seen \<union> set es"
  by (induction cap es seen scanned rule: scan_events.induct) auto

lemma scan_rounds_seen:
  assumes "\<forall>k es. rounds k = Yields es \<longrightarrow> (\<forall>e \<in> set es. P e)"
  shows "scan_rounds cap rounds fuel k seen scanned = Some (Inr (seen', n)) \<Longrightarrow> \<forall>e \<in> set seen. P e \<Longrightarrow> \<forall>e \<in> set seen'. P e"
proof (induction fuel arbitrary: k seen scanned)
  case (Suc fuel)
  show ?case
  proof (cases "rounds k")
    case (Yields es)
    obtain s m where s: "scan_events cap es seen scanned = (s, m)" by force
    have "\<forall>e \<in> set s. P e"
      using scan_events_seen [of cap es seen scanned] s assms Yields Suc.prems(2) by fastforce
    with Suc Yields s show ?thesis by (auto split: if_split_asm)
  qed (use Suc in auto)
qed simp

text \<open>The adapter only ever encodes ids of 34 characters.\<close>

lemma asBytes16_length: "asBytes16 i = Some e \<Longrightarrow> length e = 34"
  by (auto simp: asBytes16_def is_bytes16_hex_def to_lower_def split: if_split_asm)

text \<open>
  Reconciling an EVM network reports every stored call as an orphan. The chain carries the call
  ids the EVM adapter encoded, 16 bytes as \<open>0x\<close> and 32 hex digits; the indexer stores the id as the
  proxy made it, a UUID of 36 characters, and \<open>runReconcile\<close> compares the two as strings. Whatever
  was settled, no stored id is found on the chain.
\<close>

theorem evm_reconcile_flags_every_call:
  assumes "\<forall>k es. rounds k = Yields es \<longrightarrow> (\<forall>e \<in> set es. \<exists>i. asBytes16 i = Some e)"
    and "\<forall>i \<in> set (network_calls net db). length i = 36"
    and "runReconcile fuel (Some rounds) net db = Some (Inr r)"
  shows "rr_orphanCallIds r = network_calls net db"
proof -
  obtain seen n where s: "scan_rounds SAFETY_CAP rounds fuel 0 [] 0 = Some (Inr (seen, n))"
    and r: "rr_orphanCallIds r = filter (\<lambda>i. i \<notin> set seen) (network_calls net db)"
    using assms(3) by (auto simp: runReconcile_def Let_def split: option.split_asm sum.split_asm prod.split_asm)
  have "\<forall>e \<in> set seen. \<exists>i. asBytes16 i = Some e" using scan_rounds_seen [OF assms(1) s] by simp
  then have "i \<notin> set seen" if "i \<in> set (network_calls net db)" for i
    using assms(2) that asBytes16_length by fastforce
  then show ?thesis unfolding r by simp
qed

definition sample_uuid :: string where "sample_uuid = ''00000000-0000-0000-0000-0000000000c1''"

definition uuid_db :: indexer_db where
  "uuid_db = empty_db\<lparr>db_calls := [((''arc-testnet'', sample_uuid), the (call_row_of (\<lambda>_. Some 0) sample_call))]\<rparr>"

theorem evm_reconcile_flags_every_call_witness:
  "\<exists>r. runReconcile 1 (Some (\<lambda>k. Yields (replicate 50000 (''0x'' @ replicate 32 (CHR ''a''))))) ''arc-testnet'' uuid_db = Some (Inr r) \<and>
     rr_orphanCallIds r = [sample_uuid]"
proof -
  let ?hex = "''0x'' @ replicate 32 (CHR ''a'')" and ?cap = SAFETY_CAP
  let ?rounds = "\<lambda>k :: nat. Yields (replicate 50000 ?hex)"
  have hex: "asBytes16 ?hex = Some ?hex" by code_simp
  obtain seen n where s: "scan_events ?cap (replicate 50000 ?hex) [] 0 = (seen, n)" by force
  have "0 < ?cap" by (simp add: SAFETY_CAP_def)
  from scan_events_eq [OF this, where es = "replicate 50000 ?hex" and seen = "[]"] have "n = min ?cap 50000" unfolding s by simp
  then have "n = ?cap" by (simp add: SAFETY_CAP_def)
  then obtain r where r: "runReconcile 1 (Some ?rounds) ''arc-testnet'' uuid_db = Some (Inr r)"
    using s by (simp add: runReconcile_def Let_def)
  have calls: "network_calls ''arc-testnet'' uuid_db = [sample_uuid]" by (simp add: network_calls_def uuid_db_def)
  have len: "length sample_uuid = 36" by (simp add: sample_uuid_def)
  have "\<forall>k es. ?rounds k = Yields es \<longrightarrow> (\<forall>e \<in> set es. \<exists>i. asBytes16 i = Some e)" using hex by (metis in_set_replicate tail_event.inject(1))
  from evm_reconcile_flags_every_call [OF this _ r] calls len have "rr_orphanCallIds r = [sample_uuid]" by simp
  with r show ?thesis by blast
qed

end
